(* ===== verification/Prelude.thy ===== *)
theory Prelude
  imports Main "HOL-Library.Code_Target_Nat" "HOL-Library.Word" "HOL-Library.Sublist" "HOL-Library.Char_ord" "HOL-Library.List_Lexorder"
begin

text \<open>
  Shared vocabulary of the development: C strings and the string functions of the C library that
  the sources call (strlen, strncmp, strrchr, strstr, strtok\_r, snprintf), the status codes of
  include/phronesis/supervisor.h, and the generic lemmas the component theories rest on.

  A NUL-terminated string is the list of its bytes before the NUL; a \<open>const char *\<close> that may be
  NULL is a \<open>string option\<close>. Reading one past the last byte yields the terminating NUL, as
  \<open>cstr_at\<close> does.
\<close>

named_theorems cstring "facts on C strings and the string functions of the C library"

section \<open>Types and constants\<close>

type_synonym cstring_opt = "string option"
type_synonym bytes = "char list"
type_synonym pid_t = int
type_synonym env = "string \<Rightarrow> string option"

abbreviation NUL :: char where
  "NUL \<equiv> CHR 0x00"

abbreviation slash :: char where
  "slash \<equiv> CHR ''/''"

abbreviation dot :: char where
  "dot \<equiv> CHR ''.''"

definition newline :: char where "newline = CHR 0x0A"
definition carriage :: char where "carriage = CHR 0x0D"

datatype rc = OK | ERR_INVAL | ERR_EXISTS | ERR_NOTFOUND | ERR_IO | ERR_SPAWN | ERR_STATE | ERR_DENIED

fun rc_code :: "rc \<Rightarrow> int" where
  "rc_code OK = 0"
| "rc_code ERR_INVAL = -1"
| "rc_code ERR_EXISTS = -2"
| "rc_code ERR_NOTFOUND = -3"
| "rc_code ERR_IO = -4"
| "rc_code ERR_SPAWN = -5"
| "rc_code ERR_STATE = -6"
| "rc_code ERR_DENIED = -7"

definition PHRONESIS_ID_MAX :: nat where "PHRONESIS_ID_MAX = 64"
definition PHRONESIS_MODE_MAX :: nat where "PHRONESIS_MODE_MAX = 32"
definition PHRONESIS_PATH_MAX :: nat where "PHRONESIS_PATH_MAX = 512"
definition PHRONESIS_DETAIL_MAX :: nat where "PHRONESIS_DETAIL_MAX = 512"

section \<open>C strings\<close>

definition cstr_at :: "string \<Rightarrow> nat \<Rightarrow> char" where
  "cstr_at s i = (if i < length s then s ! i else NUL)"

text \<open>The C string a byte buffer denotes: the bytes before the first NUL.\<close>

definition cstr :: "bytes \<Rightarrow> string" where
  "cstr bs = takeWhile (\<lambda>c. c \<noteq> NUL) bs"

text \<open>\<open>p && p[0]\<close>: the pointer is not NULL and the string is not empty.\<close>

definition nonempty :: "cstring_opt \<Rightarrow> bool" where
  "nonempty p = (case p of None \<Rightarrow> False | Some s \<Rightarrow> s \<noteq> [])"

definition strncmp_eq :: "string \<Rightarrow> string \<Rightarrow> nat \<Rightarrow> bool" where
  "strncmp_eq a b n = (take n a = take n b)"

text \<open>\<open>strrchr\<close>: the suffix that starts at the last occurrence.\<close>

fun strrchr :: "string \<Rightarrow> char \<Rightarrow> string option" where
  "strrchr [] c = None"
| "strrchr (x # xs) c =
     (case strrchr xs c of
        Some r \<Rightarrow> Some r
      | None \<Rightarrow> if x = c then Some (x # xs) else None)"

fun starts_with :: "string \<Rightarrow> string \<Rightarrow> bool" where
  "starts_with s [] = True"
| "starts_with [] (p # ps) = False"
| "starts_with (x # xs) (p # ps) = (x = p \<and> starts_with xs ps)"

text \<open>\<open>strstr(s, pat) != NULL\<close>.\<close>

fun strstr :: "string \<Rightarrow> string \<Rightarrow> bool" where
  "strstr [] pat = (pat = [])"
| "strstr (x # xs) pat = (starts_with (x # xs) pat \<or> strstr xs pat)"

text \<open>\<open>while (n > lo && s[n - 1] == '/') n--;\<close> from \<open>n = strlen(s)\<close> on: the loop four of the
  sources share, with \<open>lo = 1\<close> or \<open>lo = 0\<close>.\<close>

fun trim_len :: "nat \<Rightarrow> string \<Rightarrow> nat \<Rightarrow> nat" where
  "trim_len lo s 0 = 0"
| "trim_len lo s (Suc n) =
     (if lo < Suc n \<and> cstr_at s n = slash then trim_len lo s n else Suc n)"

text \<open>\<open>strtok_r\<close> until it returns NULL: the maximal runs of non-delimiter bytes.\<close>

fun strtok_aux :: "char \<Rightarrow> string \<Rightarrow> string \<Rightarrow> string list" where
  "strtok_aux d cur [] = (if cur = [] then [] else [rev cur])"
| "strtok_aux d cur (x # xs) =
     (if x = d then (if cur = [] then strtok_aux d [] xs else rev cur # strtok_aux d [] xs)
      else strtok_aux d (x # cur) xs)"

definition strtok :: "char \<Rightarrow> string \<Rightarrow> string list" where
  "strtok d s = strtok_aux d [] s"

text \<open>\<open>snprintf(buf, n, ...)\<close> of a formatted text \<open>s\<close>: what the buffer holds, and whether the
  return value says that all of it fitted (\<open>r < n\<close>).\<close>

definition snprintf_buf :: "nat \<Rightarrow> string \<Rightarrow> string" where
  "snprintf_buf n s = take (n - 1) s"

definition snprintf_fits :: "nat \<Rightarrow> string \<Rightarrow> bool" where
  "snprintf_fits n s = (length s < n)"

text \<open>The pieces between separators, empty ones included: the components of a path.\<close>

fun split_on :: "char \<Rightarrow> string \<Rightarrow> string list" where
  "split_on d [] = [[]]"
| "split_on d (x # xs) =
     (if x = d then [] # split_on d xs
      else (case split_on d xs of [] \<Rightarrow> [[x]] | y # ys \<Rightarrow> (x # y) # ys))"

section \<open>Lemmas on C strings\<close>

lemma cstr_at_Nil [simp]: "cstr_at [] i = NUL"
  by (simp add: cstr_at_def)

lemma cstr_at_0 [simp]: "cstr_at (x # xs) 0 = x"
  by (simp add: cstr_at_def)

lemma cstr_at_Suc [simp]: "cstr_at (x # xs) (Suc i) = cstr_at xs i"
  by (simp add: cstr_at_def)

lemma cstr_at_numeral [simp]: "cstr_at (x # xs) (numeral k) = cstr_at xs (pred_numeral k)"
  by (simp add: cstr_at_def numeral_eq_Suc)

lemma cstr_at_one [simp]: "cstr_at (x # xs) 1 = cstr_at xs 0"
  by (simp add: cstr_at_def)

lemma cstr_at_append [cstring]: "cstr_at (xs @ ys) i = (if i < length xs then xs ! i else cstr_at ys (i - length xs))"
  by (auto simp: cstr_at_def nth_append)

lemma cstr_no_NUL [simp]: "NUL \<notin> set (cstr bs)"
  by (auto simp: cstr_def dest: set_takeWhileD)

lemma cstr_id: "NUL \<notin> set s \<Longrightarrow> cstr s = s"
  by (auto simp: cstr_def takeWhile_eq_all_conv)

lemma length_cstr_le: "length (cstr bs) \<le> length bs"
  by (simp add: cstr_def length_takeWhile_le)

lemma nonempty_simps [simp]: "nonempty None = False" "nonempty (Some s) = (s \<noteq> [])"
  by (simp_all add: nonempty_def)

lemma nonempty_iff: "nonempty p \<longleftrightarrow> (\<exists>s. p = Some s \<and> s \<noteq> [])"
  by (cases p) auto

lemma starts_with_prefix [cstring]: "starts_with s p \<longleftrightarrow> prefix p s"
  by (induction s p rule: starts_with.induct) auto

lemma strstr_sublist [cstring]: "strstr s pat \<longleftrightarrow> sublist pat s"
  by (induction s) (auto simp: starts_with_prefix sublist_Cons_right)

lemma strncmp_eq_prefix [cstring]:
  "n \<le> length b \<Longrightarrow> strncmp_eq a b n \<longleftrightarrow> prefix (take n b) a"
  by (auto simp: strncmp_eq_def prefix_def) (metis append_take_drop_id)

lemma strrchr_None: "strrchr s c = None \<longleftrightarrow> c \<notin> set s"
  by (induction s) (auto split: option.splits)

lemma strrchr_Some:
  "strrchr s c = Some r \<Longrightarrow> \<exists>pre t. s = pre @ r \<and> r = c # t \<and> c \<notin> set t"
proof (induction s)
  case Nil
  then show ?case by simp
next
  case (Cons x xs)
  show ?case
  proof (cases "strrchr xs c")
    case None
    with Cons.prems show ?thesis by (auto simp: strrchr_None split: if_splits)
  next
    case (Some r')
    with Cons show ?thesis by (metis append_Cons option.case(2) option.inject strrchr.simps(2))
  qed
qed

lemma strrchr_append [simp]: "c \<notin> set t \<Longrightarrow> strrchr (pre @ c # t) c = Some (c # t)"
proof (induction pre)
  case Nil
  then have "strrchr t c = None" by (simp add: strrchr_None)
  then show ?case by simp
next
  case (Cons a pre)
  then show ?case by simp
qed

lemma trim_len_le: "trim_len lo s n \<le> n"
  by (induction n) auto

lemma trim_len_ge: "lo \<le> n \<Longrightarrow> lo \<le> trim_len lo s n"
  by (induction n) auto

lemma trim_len_removed:
  "trim_len lo s n \<le> i \<Longrightarrow> i < n \<Longrightarrow> cstr_at s i = slash"
  by (induction n) (auto simp: less_Suc_eq split: if_splits)

lemma trim_len_last:
  "lo < trim_len lo s n \<Longrightarrow> cstr_at s (trim_len lo s n - 1) \<noteq> slash"
  by (induction n) (auto split: if_splits)

lemma trim_len_eq:
  assumes "lo \<le> m" "m \<le> n" "lo < m \<longrightarrow> cstr_at s (m - 1) \<noteq> slash"
    and "\<And>i. m \<le> i \<Longrightarrow> i < n \<Longrightarrow> cstr_at s i = slash"
  shows "trim_len lo s n = m"
  using assms
proof (induction n)
  case 0
  then show ?case by simp
next
  case (Suc n)
  show ?case
  proof (cases "m = Suc n")
    case True
    with Suc.prems show ?thesis by auto
  next
    case False
    with Suc.prems have "m \<le> n" by simp
    with Suc show ?thesis by simp
  qed
qed

lemma snprintf_buf_id [simp]: "snprintf_fits n s \<Longrightarrow> snprintf_buf n s = s"
  by (simp add: snprintf_fits_def snprintf_buf_def)

lemma length_snprintf_buf: "0 < n \<Longrightarrow> length (snprintf_buf n s) < n"
  by (simp add: snprintf_buf_def)

lemma length_snprintf_buf_le: "length (snprintf_buf n s) \<le> length s"
  by (simp add: snprintf_buf_def)

lemma set_snprintf_buf: "set (snprintf_buf n s) \<subseteq> set s"
  by (simp add: snprintf_buf_def set_take_subset)

lemma split_on_not_Nil [simp]: "split_on d s \<noteq> []"
  by (induction s) (auto split: list.splits)

lemma split_on_notin: "t \<in> set (split_on d s) \<Longrightarrow> d \<notin> set t"
proof (induction s arbitrary: t)
  case Nil
  then show ?case by simp
next
  case (Cons x xs)
  then show ?case by (cases "split_on d xs") (auto split: if_splits)
qed

lemma split_on_append:
  "d \<notin> set a \<Longrightarrow> split_on d (a @ d # b) = a # split_on d b"
  by (induction a) auto

lemma split_on_single: "d \<notin> set a \<Longrightarrow> split_on d a = [a]"
  by (induction a) auto

end
