(* ===== verification/Codes.thy ===== *)
theory Codes
  imports Prelude
begin

text \<open>
  The public enumerations of include/phronesis/supervisor.h and the result record they fill:
  agent states, decisions, policy reasons and \<open>phronesis_policy_result_t\<close>, with the setter of
  src/policy\_reason.c and the version queries of src/version.c.

  A C enum can hold a value that no enumerator names: a pack's Cap'n message carries 16-bit
  ordinals, and the code casts them. \<open>DECISION_OTHER\<close>, \<open>REASON_OTHER\<close> and \<open>AGENT_OTHER\<close> stand for
  those values; the \<open>_of_ord\<close> functions never build them for an ordinal that has a name.
\<close>

datatype agent_state = AGENT_STOPPED | AGENT_RUNNING | AGENT_FAILED | AGENT_OTHER int

datatype decision = DENY | ALLOW | PROMPT | DECISION_OTHER nat

datatype reason =
    UNSPECIFIED
  | TOOLS_DEFAULT_DENY
  | PATH_OUTSIDE_WORKSPACE
  | PATH_UNDER_WORKSPACE_ALLOW
  | INVALID_MESSAGE
  | FIELD_TOO_LONG
  | DENY_ALL
  | HIGH_RISK_PROMPT
  | SEAT_BOARD_ALLOW
  | MODEL_START_ALLOW
  | MISSING_TOOL_ACTION
  | UNKNOWN_SEAT_ACTION
  | PACK_MISSING
  | PACK_LOAD_FAILED
  | PACK_RUNTIME_ERROR
  | PACK_BAD_RESULT
  | SHELL_VIEW_BUILD_FAILED
  | PYTHON_REQUIRES_UV_RUN
  | PYTHON_DASH_C_DENIED
  | PYTHON_MISSING_PEP723
  | SHELL_EXEC_ALLOW
  | PACK_RELOADED
  | PACK_PATH_INVALID
  | SHELL_DANGEROUS_RUNNER
  | SHELL_REMOTE_EXEC
  | SHELL_PRIVILEGE_DENIED
  | SHELL_GIT_DANGEROUS
  | SHELL_SECRET_IN_ARGV
  | PATH_SENSITIVE_DENY
  | SECRET_EXPORT_DENIED
  | AUDIO_MIC_OPEN_DENY
  | AUDIO_LISTEN_ARM_PROMPT
  | AUDIO_ALWAYS_LISTEN_DENY
  | AUDIO_NETWORK_STT_DENY
  | AUDIO_INJECT_DENY
  | AUDIO_FIXTURE_ALLOW
  | AUDIO_UNKNOWN_ACTION
  | REASON_OTHER nat

definition agent_state_of_int :: "int \<Rightarrow> agent_state" where
  "agent_state_of_int n =
     (if n = 0 then AGENT_STOPPED else if n = 1 then AGENT_RUNNING
      else if n = 2 then AGENT_FAILED else AGENT_OTHER n)"

fun agent_state_int :: "agent_state \<Rightarrow> int" where
  "agent_state_int AGENT_STOPPED = 0"
| "agent_state_int AGENT_RUNNING = 1"
| "agent_state_int AGENT_FAILED = 2"
| "agent_state_int (AGENT_OTHER n) = n"

fun decision_ord :: "decision \<Rightarrow> nat" where
  "decision_ord DENY = 0"
| "decision_ord ALLOW = 1"
| "decision_ord PROMPT = 2"
| "decision_ord (DECISION_OTHER n) = n"

definition decision_of_ord :: "nat \<Rightarrow> decision" where
  "decision_of_ord n =
     (if n = 0 then DENY else if n = 1 then ALLOW else if n = 2 then PROMPT else DECISION_OTHER n)"

text \<open>The named reasons in the order of their ordinals, 0 to 36.\<close>

definition reason_table :: "reason list" where
  "reason_table =
     [UNSPECIFIED, TOOLS_DEFAULT_DENY, PATH_OUTSIDE_WORKSPACE, PATH_UNDER_WORKSPACE_ALLOW,
      INVALID_MESSAGE, FIELD_TOO_LONG, DENY_ALL, HIGH_RISK_PROMPT, SEAT_BOARD_ALLOW,
      MODEL_START_ALLOW, MISSING_TOOL_ACTION, UNKNOWN_SEAT_ACTION, PACK_MISSING,
      PACK_LOAD_FAILED, PACK_RUNTIME_ERROR, PACK_BAD_RESULT, SHELL_VIEW_BUILD_FAILED,
      PYTHON_REQUIRES_UV_RUN, PYTHON_DASH_C_DENIED, PYTHON_MISSING_PEP723, SHELL_EXEC_ALLOW,
      PACK_RELOADED, PACK_PATH_INVALID, SHELL_DANGEROUS_RUNNER, SHELL_REMOTE_EXEC,
      SHELL_PRIVILEGE_DENIED, SHELL_GIT_DANGEROUS, SHELL_SECRET_IN_ARGV, PATH_SENSITIVE_DENY,
      SECRET_EXPORT_DENIED, AUDIO_MIC_OPEN_DENY, AUDIO_LISTEN_ARM_PROMPT,
      AUDIO_ALWAYS_LISTEN_DENY, AUDIO_NETWORK_STT_DENY, AUDIO_INJECT_DENY,
      AUDIO_FIXTURE_ALLOW, AUDIO_UNKNOWN_ACTION]"

fun index_of :: "'a \<Rightarrow> 'a list \<Rightarrow> nat" where
  "index_of x [] = 0"
| "index_of x (y # ys) = (if x = y then 0 else Suc (index_of x ys))"

definition reason_ord :: "reason \<Rightarrow> nat" where
  "reason_ord r = (case r of REASON_OTHER n \<Rightarrow> n | _ \<Rightarrow> index_of r reason_table)"

definition reason_of_ord :: "nat \<Rightarrow> reason" where
  "reason_of_ord n = (if n < length reason_table then reason_table ! n else REASON_OTHER n)"

record policy_result =
  pr_decision :: decision
  pr_code :: reason
  pr_reason :: string

definition phronesis_policy_result_set :: "decision \<Rightarrow> reason \<Rightarrow> policy_result" where
  "phronesis_policy_result_set d c = \<lparr>pr_decision = d, pr_code = c, pr_reason = []\<rparr>"

definition phronesis_version_string :: string where
  "phronesis_version_string = ''0.2.9''"

definition phronesis_api_version :: int where
  "phronesis_api_version = 3"

section \<open>Ordinals name the enumerators\<close>

lemma decision_of_ord_ord [simp]: "decision_ord (decision_of_ord n) = n"
  by (simp add: decision_of_ord_def)

lemma agent_state_of_int_int [simp]: "agent_state_int (agent_state_of_int n) = n"
  by (simp add: agent_state_of_int_def)

lemma length_reason_table: "length reason_table = 37"
  by (simp add: reason_table_def)

lemma distinct_reason_table: "distinct reason_table"
  by (simp add: reason_table_def)

lemma index_of_nth: "distinct xs \<Longrightarrow> i < length xs \<Longrightarrow> index_of (xs ! i) xs = i"
proof (induction xs arbitrary: i)
  case Nil
  then show ?case by simp
next
  case (Cons y ys)
  show ?case
  proof (cases i)
    case 0
    then show ?thesis by simp
  next
    case (Suc j)
    with Cons show ?thesis by auto
  qed
qed

lemma reason_table_named: "r \<in> set reason_table \<Longrightarrow> r \<noteq> REASON_OTHER n"
  by (auto simp: reason_table_def)

lemma reason_ord_named: "r \<in> set reason_table \<Longrightarrow> reason_ord r = index_of r reason_table"
  by (auto simp: reason_ord_def reason_table_def)

lemma reason_of_ord_ord [simp]: "reason_ord (reason_of_ord n) = n"
proof (cases "n < length reason_table")
  case True
  then have "reason_table ! n \<in> set reason_table" by simp
  then have "reason_ord (reason_table ! n) = index_of (reason_table ! n) reason_table"
    by (rule reason_ord_named)
  with True show ?thesis by (simp add: reason_of_ord_def index_of_nth distinct_reason_table)
next
  case False
  then show ?thesis by (simp add: reason_of_ord_def reason_ord_def)
qed

lemma policy_result_set_simps [simp]:
  "pr_decision (phronesis_policy_result_set d c) = d"
  "pr_code (phronesis_policy_result_set d c) = c"
  "pr_reason (phronesis_policy_result_set d c) = []"
  by (simp_all add: phronesis_policy_result_set_def)

lemma policy_result_set_inject [simp]:
  "phronesis_policy_result_set d c = phronesis_policy_result_set d' c' \<longleftrightarrow> d = d' \<and> c = c'"
  by (simp add: phronesis_policy_result_set_def)

end
