(* ===== verification/Lexical.thy ===== *)
theory Lexical
  imports Prelude
begin

text \<open>
  Path components and the interface of the lexical containment tests. Three routines of the
  sources decide by string comparison whether a path lies under a root (\<open>path_under_workspace\<close> of
  src/policy.c, the routine of the same name and \<open>path_under_prefix\<close> of src/policy\_janet.c). Each
  drops trailing slashes from the root, compares the rest with the head of the path and then asks
  for the end of the path or a slash. The locale \<open>rooted_scope\<close> states that contract and derives
  what callers rely on: containment of components, transitivity, and that a sibling whose name only
  begins with the root's name is outside.
\<close>

definition path_comps :: "string \<Rightarrow> string list" where
  "path_comps p = filter (\<lambda>c. c \<noteq> []) (split_on slash p)"

text \<open>The path with these components: \<open>/a/b\<close>.\<close>

fun render :: "string list \<Rightarrow> string" where
  "render [] = []"
| "render (c # cs) = slash # c @ render cs"

definition plain_comp :: "string \<Rightarrow> bool" where
  "plain_comp c \<longleftrightarrow> c \<noteq> [] \<and> c \<noteq> ''.'' \<and> c \<noteq> ''..'' \<and> slash \<notin> set c \<and> NUL \<notin> set c"

text \<open>The root as the tests compare it: trailing slashes dropped, down to \<open>lo\<close> bytes.\<close>

definition trim_root :: "nat \<Rightarrow> string \<Rightarrow> string" where
  "trim_root lo r = take (trim_len lo r (length r)) r"

section \<open>Components\<close>

lemma split_on_append_general:
  "split_on d (a @ d # b) = split_on d a @ split_on d b"
proof (induction a)
  case Nil
  then show ?case by simp
next
  case (Cons x a)
  then show ?case by (cases "split_on d a") auto
qed

lemma path_comps_Nil [simp]: "path_comps [] = []"
  by (simp add: path_comps_def)

lemma path_comps_slash_Cons [simp]: "path_comps (slash # p) = path_comps p"
  by (simp add: path_comps_def)

lemma path_comps_append_slash: "path_comps (a @ slash # b) = path_comps a @ path_comps b"
  by (simp add: path_comps_def split_on_append_general)

lemma path_comps_single: "c \<noteq> [] \<Longrightarrow> slash \<notin> set c \<Longrightarrow> path_comps c = [c]"
  by (simp add: path_comps_def split_on_single)

lemma path_comps_snoc_slash [simp]: "path_comps (a @ [slash]) = path_comps a"
  using path_comps_append_slash [of a "[]"] by simp

lemma path_comps_all_slash: "set s \<subseteq> {slash} \<Longrightarrow> path_comps (a @ s) = path_comps a"
proof (induction s rule: rev_induct)
  case Nil
  then show ?case by simp
next
  case (snoc x xs)
  then have "path_comps ((a @ xs) @ [slash]) = path_comps (a @ xs)" by (simp only: path_comps_snoc_slash)
  with snoc show ?case by auto
qed

lemma path_comps_mem: "c \<in> set (path_comps p) \<Longrightarrow> c \<noteq> [] \<and> slash \<notin> set c"
  by (auto simp: path_comps_def dest: split_on_notin)

lemma render_append: "render (as @ bs) = render as @ render bs"
  by (induction as) auto

lemma path_comps_render_append:
  "list_all plain_comp cs \<Longrightarrow> path_comps (render cs @ slash # t) = cs @ path_comps t"
proof (induction cs)
  case Nil
  then show ?case by simp
next
  case (Cons c cs)
  have c: "slash \<notin> set c" "c \<noteq> []" using Cons.prems by (auto simp: plain_comp_def)
  show ?case
  proof (cases cs)
    case Nil
    then show ?thesis using c path_comps_append_slash [of c t] by (simp add: path_comps_single)
  next
    case (Cons d ds)
    then have "path_comps (c @ render cs @ slash # t) = path_comps c @ path_comps (render cs @ slash # t)"
      using path_comps_append_slash [of c "d @ render ds @ slash # t"] by simp
    then show ?thesis using c Cons.IH Cons.prems by (simp add: path_comps_single)
  qed
qed

lemma path_comps_render: "list_all plain_comp cs \<Longrightarrow> path_comps (render cs) = cs"
  using path_comps_render_append [of cs "[]"] path_comps_snoc_slash [of "render cs"] by simp

lemma path_comps_clean:
  "list_all plain_comp cs \<Longrightarrow> t = [] \<or> t = ''/'' \<Longrightarrow> path_comps (render cs @ t) = cs"
  by (auto simp: path_comps_render)

lemma render_split_on: "render (split_on slash q) = slash # q"
proof (induction q)
  case Nil
  then show ?case by simp
next
  case (Cons x q)
  then show ?case by (cases "split_on slash q") auto
qed

lemma render_mem: "c \<in> set cs \<Longrightarrow> set c \<subseteq> set (render cs)"
  by (induction cs) auto

lemma split_on_render: "list_all plain_comp cs \<Longrightarrow> split_on slash (render cs) = [] # cs"
proof (induction cs)
  case Nil
  then show ?case by simp
next
  case (Cons c cs)
  then have c: "slash \<notin> set c" by (simp add: plain_comp_def)
  show ?case
  proof (cases cs)
    case Nil
    then show ?thesis using c by (simp add: split_on_single)
  next
    case (Cons d ds)
    then show ?thesis using c Cons.IH Cons.prems by (simp add: split_on_append)
  qed
qed

lemma split_on_render_slash: "list_all plain_comp cs \<Longrightarrow> split_on slash (render cs @ ''/'') = ([] # cs) @ [[]]"
  using split_on_append_general [of slash "render cs" "[]"] by (simp add: split_on_render)

lemma trim_root_decomp:
  "\<exists>t. r = trim_root lo r @ t \<and> set t \<subseteq> {slash}"
proof -
  let ?n = "trim_len lo r (length r)"
  have "set (drop ?n r) \<subseteq> {slash}"
  proof
    fix c assume "c \<in> set (drop ?n r)"
    then obtain i where i: "i < length (drop ?n r)" "drop ?n r ! i = c" by (auto simp: in_set_conv_nth)
    then have "cstr_at r (?n + i) = slash" by (intro trim_len_removed [of lo r "length r"]) auto
    moreover have "?n + i < length r" using i by simp
    ultimately show "c \<in> {slash}" using i by (simp add: cstr_at_def)
  qed
  then show ?thesis unfolding trim_root_def by (metis append_take_drop_id)
qed

lemma path_comps_trim_root [simp]: "path_comps (trim_root lo r) = path_comps r"
  using trim_root_decomp [of r lo] path_comps_all_slash by metis

lemma length_trim_root: "length (trim_root lo r) = trim_len lo r (length r)"
  by (simp add: trim_root_def trim_len_le min.absorb2)

text \<open>The comparison the three tests share, as one decomposition of the path.\<close>

lemma boundary_iff:
  assumes "NUL \<notin> set p"
  shows "strncmp_eq p r (trim_len lo r (length r))
      \<and> (cstr_at p (trim_len lo r (length r)) = NUL \<or> cstr_at p (trim_len lo r (length r)) = slash)
    \<longleftrightarrow> (\<exists>rest. p = trim_root lo r @ rest \<and> (rest = [] \<or> hd rest = slash))"
    (is "?l \<longleftrightarrow> ?r")
proof -
  let ?n = "trim_len lo r (length r)"
  have le: "?n \<le> length r" by (rule trim_len_le)
  show ?thesis
  proof
    assume l: ?l
    then have "prefix (trim_root lo r) p" using le by (simp add: strncmp_eq_prefix trim_root_def)
    then obtain rest where p: "p = trim_root lo r @ rest" by (auto simp: prefix_def)
    have "rest = [] \<or> hd rest = slash"
    proof (cases rest)
      case (Cons x xs)
      then have "cstr_at p ?n = x" using p by (simp add: cstr_at_append length_trim_root)
      moreover have "x \<noteq> NUL" using assms p Cons by auto
      ultimately show ?thesis using l Cons by auto
    qed simp
    with p show ?r by blast
  next
    assume ?r
    then obtain rest where p: "p = trim_root lo r @ rest" and b: "rest = [] \<or> hd rest = slash" by blast
    have "strncmp_eq p r ?n" using p le by (simp add: strncmp_eq_prefix flip: trim_root_def)
    moreover have "cstr_at p ?n = NUL \<or> cstr_at p ?n = slash"
      using p b by (cases rest) (auto simp: cstr_at_def nth_append length_trim_root)
    ultimately show ?l by simp
  qed
qed

section \<open>The contract of a containment test\<close>

locale rooted_scope =
  fixes under :: "string \<Rightarrow> string \<Rightarrow> bool"
    and root_of :: "string \<Rightarrow> string"
  assumes under_split: "NUL \<notin> set p \<Longrightarrow> under r p \<Longrightarrow> \<exists>rest. p = root_of r @ rest \<and> (rest = [] \<or> hd rest = slash)"
    and root_comps: "path_comps (root_of r) = path_comps r"
begin

lemma under_comps:
  assumes "NUL \<notin> set p" "under r p"
  shows "prefix (path_comps r) (path_comps p)"
proof -
  obtain rest where p: "p = root_of r @ rest" and b: "rest = [] \<or> hd rest = slash"
    using under_split [OF assms] by blast
  show ?thesis
  proof (cases rest)
    case Nil
    then show ?thesis using p root_comps by simp
  next
    case (Cons x xs)
    then have "p = root_of r @ slash # xs" using p b by simp
    then show ?thesis by (simp add: path_comps_append_slash root_comps)
  qed
qed

lemma under_trans_comps:
  "NUL \<notin> set q \<Longrightarrow> NUL \<notin> set p \<Longrightarrow> under r q \<Longrightarrow> under q p \<Longrightarrow> prefix (path_comps r) (path_comps p)"
  by (meson under_comps prefix_order.trans)

lemma sibling_outside:
  assumes "NUL \<notin> set (root_of r @ x # xs)" "x \<noteq> slash"
  shows "\<not> under r (root_of r @ x # xs)"
  using under_split [OF assms(1), of r] assms(2) by auto

end

end
