(* ===== verification/Host.thy ===== *)
theory Host
  imports Lexical
begin

text \<open>
  The operating system as the sources see it: the part of libc and of the system calls that the
  supervisor, the path set-up, the action log, the cgroup code and the pack loader use. A
  \<open>world\<close> holds the environment, a file tree, the process table and what the host decides for
  itself: which input or output operations fail (\<open>w_fault\<close>) and how much a failed write leaves behind (\<open>w_cut\<close>), how a path string resolves
  (\<open>w_canon\<close>: dot components, repeated slashes, links), how a process reacts to SIGTERM
  (\<open>w_on_term\<close>), what the other processes do during a sleep (\<open>w_tick\<close>), the pid a fork
  returns (\<open>w_fork\<close>) and what the kernel does to the processes when a control file of a cgroup is
  written (\<open>w_cgroupfs\<close>), in which order a directory lists its entries (\<open>w_dir\<close>) and what the
  \<open>openat2\<close> system call answers (\<open>w_openat2\<close>). Theorems hold for every choice of these.

  An open file descriptor is the resolved list of names of the node it refers to.

  Files are keyed by their resolved list of names. A call that writes may fail after any part of its text; what is written
  piece by piece while others run is in \<open>Slot_Race\<close>.
\<close>

datatype io_op = IoStat | IoMkdir | IoOpen | IoWrite | IoClose | IoRename | IoUnlink | IoRmdir

datatype node = Dir nat | Reg bytes | Lnk string

datatype errno = ENOENT | EEXIST | ENOTDIR | ESRCH | EPERM | ENOSYS | EOTHER

datatype pstat = Alive | Zombie int

datatype sig = SIGTERM | SIGKILL

record proc =
  p_pid :: pid_t
  p_pgid :: pid_t
  p_child :: bool
  p_perm :: bool
  p_stat :: pstat

record world =
  w_env :: env
  w_canon :: "string \<Rightarrow> string list"
  w_fs :: "string list \<Rightarrow> node option"
  w_fault :: "io_op \<Rightarrow> string \<Rightarrow> bool"
  w_cut :: "io_op \<Rightarrow> string \<Rightarrow> nat"
  w_procs :: "proc list"
  w_on_term :: "proc \<Rightarrow> pstat"
  w_tick :: "proc list \<Rightarrow> proc list"
  w_sent :: "(pid_t \<times> sig) list"
  w_fork :: "proc list \<Rightarrow> pid_t option"
  w_cgroupfs :: "string \<Rightarrow> bytes \<Rightarrow> proc list \<Rightarrow> proc list"
  w_dir :: "string \<Rightarrow> string list option"
  w_openat2 :: "string list \<Rightarrow> string \<Rightarrow> errno + string list"
  w_time :: int
  w_getpid :: pid_t

section \<open>Files\<close>

datatype stat_result = StatDir nat | StatReg | StatErr errno

definition blocked :: "world \<Rightarrow> string list \<Rightarrow> bool" where
  "blocked w k = list_ex (\<lambda>i. case w_fs w (take i k) of Some (Dir _) \<Rightarrow> False | None \<Rightarrow> False | Some _ \<Rightarrow> True)
     [0..<length k]"

definition stat :: "world \<Rightarrow> string \<Rightarrow> stat_result" where
  "stat w p =
     (if w_fault w IoStat p then StatErr EOTHER
      else (case w_fs w (w_canon w p) of
              Some (Dir m) \<Rightarrow> StatDir m
            | Some (Reg _) \<Rightarrow> StatReg
            | Some (Lnk _) \<Rightarrow> StatErr ENOENT
            | None \<Rightarrow> StatErr (if blocked w (w_canon w p) then ENOTDIR else ENOENT)))"

definition put_node :: "string list \<Rightarrow> node option \<Rightarrow> world \<Rightarrow> world" where
  "put_node k n w = w\<lparr>w_fs := (w_fs w)(k := n)\<rparr>"

definition mkdir :: "string \<Rightarrow> nat \<Rightarrow> world \<Rightarrow> errno option \<times> world" where
  "mkdir p mode w =
     (if w_fault w IoMkdir p then (Some EOTHER, w)
      else if w_fs w (w_canon w p) \<noteq> None then (Some EEXIST, w)
      else (case w_fs w (butlast (w_canon w p)) of
              Some (Dir _) \<Rightarrow> (None, put_node (w_canon w p) (Some (Dir mode)) w)
            | _ \<Rightarrow> (Some ENOENT, w)))"

definition rmdir :: "string \<Rightarrow> world \<Rightarrow> world" where
  "rmdir p w =
     (if w_fault w IoRmdir p then w
      else (case w_fs w (w_canon w p) of
              Some (Dir _) \<Rightarrow> put_node (w_canon w p) None w
            | _ \<Rightarrow> w))"

definition unlink :: "string \<Rightarrow> world \<Rightarrow> world" where
  "unlink p w =
     (if w_fault w IoUnlink p then w
      else (case w_fs w (w_canon w p) of
              Some (Dir _) \<Rightarrow> w
            | None \<Rightarrow> w
            | Some _ \<Rightarrow> put_node (w_canon w p) None w))"

text \<open>\<open>fopen(p, "r")\<close> and reading to the end: the bytes, or \<open>None\<close> when the stream is NULL. A
  directory opens and reads as empty.\<close>

definition fopen_r :: "world \<Rightarrow> string \<Rightarrow> bytes option" where
  "fopen_r w p =
     (if w_fault w IoOpen p then None
      else (case w_fs w (w_canon w p) of
              Some (Reg b) \<Rightarrow> Some b
            | Some (Dir _) \<Rightarrow> Some []
            | _ \<Rightarrow> None))"

text \<open>\<open>fopen(p, "wx")\<close>: create, and fail when the name exists.\<close>

definition fopen_wx :: "string \<Rightarrow> world \<Rightarrow> errno option \<times> world" where
  "fopen_wx p w =
     (if w_fault w IoOpen p then (Some EOTHER, w)
      else if w_fs w (w_canon w p) \<noteq> None then (Some EEXIST, w)
      else (case w_fs w (butlast (w_canon w p)) of
              Some (Dir _) \<Rightarrow> (None, put_node (w_canon w p) (Some (Reg [])) w)
            | _ \<Rightarrow> (Some ENOENT, w)))"

text \<open>\<open>fopen(p, "w")\<close> (\<open>trunc\<close>) or \<open>fopen(p, "a")\<close>: create or keep, and say whether it opened.\<close>

definition fopen_wa :: "bool \<Rightarrow> string \<Rightarrow> world \<Rightarrow> bool \<times> world" where
  "fopen_wa trunc p w =
     (if w_fault w IoOpen p then (False, w)
      else (case w_fs w (w_canon w p) of
              Some (Reg b) \<Rightarrow> (True, if trunc then put_node (w_canon w p) (Some (Reg [])) w else w)
            | None \<Rightarrow>
                (case w_fs w (butlast (w_canon w p)) of
                   Some (Dir _) \<Rightarrow> (True, put_node (w_canon w p) (Some (Reg [])) w)
                 | _ \<Rightarrow> (False, w))
            | _ \<Rightarrow> (False, w)))"

text \<open>\<open>fprintf\<close> followed by \<open>fclose\<close> on an open stream: which of the two failed, and the bytes that reached the
  end of the file. When a call fails, a beginning of the text, as long as the host likes (\<open>w_cut\<close>), may have got there.\<close>

datatype put_result = PutOk | PutWriteFailed | PutCloseFailed

definition put_bytes :: "string \<Rightarrow> bytes \<Rightarrow> world \<Rightarrow> world" where
  "put_bytes p data w =
     (case w_fs w (w_canon w p) of
        Some (Reg b) \<Rightarrow> put_node (w_canon w p) (Some (Reg (b @ data))) w
      | _ \<Rightarrow> w)"

definition fput :: "string \<Rightarrow> bytes \<Rightarrow> world \<Rightarrow> put_result \<times> world" where
  "fput p data w =
     (if w_fault w IoWrite p then (PutWriteFailed, put_bytes p (take (w_cut w IoWrite p) data) w)
      else if w_fault w IoClose p then (PutCloseFailed, put_bytes p (take (w_cut w IoClose p) data) w)
      else (PutOk, put_bytes p data w))"

definition rename :: "string \<Rightarrow> string \<Rightarrow> world \<Rightarrow> bool \<times> world" where
  "rename old new w =
     (if w_fault w IoRename new then (False, w)
      else (case w_fs w (w_canon w old) of
              None \<Rightarrow> (False, w)
            | Some n \<Rightarrow>
                (case w_fs w (w_canon w new) of
                   Some (Dir _) \<Rightarrow> (False, w)
                 | _ \<Rightarrow> (True, put_node (w_canon w new) (Some n) (put_node (w_canon w old) None w)))))"

text \<open>\<open>fgets(line, n, f)\<close>: at most \<open>n - 1\<close> bytes, up to and including a newline.\<close>

definition fgets_chunk :: "nat \<Rightarrow> bytes \<Rightarrow> bytes" where
  "fgets_chunk n s =
     (let t = take (n - 1) s
      in if newline \<in> set t then takeWhile (\<lambda>c. c \<noteq> newline) t @ [newline] else t)"

lemma fgets_chunk_length: "length (fgets_chunk n s) \<le> length s"
proof (cases "newline \<in> set (take (n - 1) s)")
  case True
  let ?t = "take (n - 1) s"
  have "takeWhile (\<lambda>c. c \<noteq> newline) ?t \<noteq> ?t" using True by (metis (mono_tags) set_takeWhileD)
  then have "length (takeWhile (\<lambda>c. c \<noteq> newline) ?t) < length ?t"
    by (metis length_takeWhile_le nat_less_le takeWhile_eq_take take_all_iff)
  then show ?thesis using True by (simp add: fgets_chunk_def Let_def)
qed (simp add: fgets_chunk_def Let_def)

lemma fgets_chunk_pos: "2 \<le> n \<Longrightarrow> s \<noteq> [] \<Longrightarrow> 0 < length (fgets_chunk n s)"
  by (cases s) (auto simp: fgets_chunk_def Let_def)

text \<open>The loop that cuts newlines and carriage returns off the end of a line.\<close>

definition strip_eol :: "string \<Rightarrow> string" where
  "strip_eol l = rev (dropWhile (\<lambda>c. c = newline \<or> c = carriage) (rev l))"

section \<open>Processes\<close>

text \<open>The processes a \<open>kill\<close> or \<open>waitpid\<close> argument names: a pid, or the group of a negative one.\<close>

definition names_proc :: "pid_t \<Rightarrow> proc \<Rightarrow> bool" where
  "names_proc tgt p = (if tgt > 0 then p_pid p = tgt else p_pgid p = - tgt)"

definition kill0 :: "world \<Rightarrow> pid_t \<Rightarrow> errno option" where
  "kill0 w tgt =
     (let ps = filter (names_proc tgt) (w_procs w)
      in if ps = [] then Some ESRCH else if list_ex p_perm ps then None else Some EPERM)"

definition hit :: "world \<Rightarrow> pid_t \<Rightarrow> sig \<Rightarrow> proc \<Rightarrow> proc" where
  "hit w tgt sg p =
     (if names_proc tgt p \<and> p_perm p \<and> p_stat p = Alive
      then p\<lparr>p_stat := (case sg of SIGKILL \<Rightarrow> Zombie 9 | SIGTERM \<Rightarrow> w_on_term w p)\<rparr>
      else p)"

definition kill_sig :: "pid_t \<Rightarrow> sig \<Rightarrow> world \<Rightarrow> world" where
  "kill_sig tgt sg w = w\<lparr>w_procs := map (hit w tgt sg) (w_procs w), w_sent := w_sent w @ [(tgt, sg)]\<rparr>"

datatype wait_result = Reaped pid_t int | NoChange | NoChild

definition reapable :: "pid_t \<Rightarrow> proc \<Rightarrow> bool" where
  "reapable tgt p = (names_proc tgt p \<and> p_child p \<and> p_stat p \<noteq> Alive)"

fun drop_first :: "('a \<Rightarrow> bool) \<Rightarrow> 'a list \<Rightarrow> 'a list" where
  "drop_first P [] = []"
| "drop_first P (x # xs) = (if P x then xs else x # drop_first P xs)"

text \<open>\<open>waitpid(tgt, &st, WNOHANG)\<close>.\<close>

definition waitpid :: "pid_t \<Rightarrow> world \<Rightarrow> wait_result \<times> world" where
  "waitpid tgt w =
     (case find (reapable tgt) (w_procs w) of
        Some p \<Rightarrow>
          (Reaped (p_pid p) (case p_stat p of Zombie st \<Rightarrow> st | Alive \<Rightarrow> 0),
           w\<lparr>w_procs := drop_first (reapable tgt) (w_procs w)\<rparr>)
      | None \<Rightarrow>
          (if list_ex (\<lambda>p. names_proc tgt p \<and> p_child p) (w_procs w) then (NoChange, w) else (NoChild, w)))"

text \<open>\<open>fork\<close> and the two \<open>setpgid\<close> calls, as the parent sees them: the child leads its own group.\<close>

definition fork_group :: "world \<Rightarrow> pid_t option \<times> world" where
  "fork_group w =
     (case w_fork w (w_procs w) of
        None \<Rightarrow> (None, w)
      | Some pid \<Rightarrow>
          (Some pid,
           w\<lparr>w_procs := w_procs w @ [\<lparr>p_pid = pid, p_pgid = pid, p_child = True, p_perm = True, p_stat = Alive\<rparr>]\<rparr>))"

definition usleep :: "world \<Rightarrow> world" where
  "usleep w = w\<lparr>w_procs := w_tick w (w_procs w)\<rparr>"

text \<open>A host to evaluate on: an empty root directory, no faults, no processes, component-wise path
  resolution, and a first fork that returns 42.\<close>

definition fresh_world :: world where
  "fresh_world =
     \<lparr>w_env = (\<lambda>_. None), w_canon = path_comps, w_fs = (\<lambda>k. if k = [] then Some (Dir 493) else None),
      w_fault = (\<lambda>_ _. False), w_cut = (\<lambda>_ _. 0), w_procs = [], w_on_term = (\<lambda>_. Zombie 15), w_tick = (\<lambda>ps. ps),
      w_sent = [], w_fork = (\<lambda>ps. Some (42 + int (length ps))), w_cgroupfs = (\<lambda>_ _ ps. ps),
      w_dir = (\<lambda>_. None), w_openat2 = (\<lambda>_ _. Inl ENOSYS), w_time = 17, w_getpid = 77\<rparr>"

section \<open>Lemmas\<close>

lemma put_node_simps [simp]:
  "w_fs (put_node k n w) = (w_fs w)(k := n)"
  "w_canon (put_node k n w) = w_canon w"
  "w_fault (put_node k n w) = w_fault w"
  "w_cut (put_node k n w) = w_cut w"
  "w_procs (put_node k n w) = w_procs w"
  "w_sent (put_node k n w) = w_sent w"
  "w_env (put_node k n w) = w_env w"
  "w_getpid (put_node k n w) = w_getpid w"
  "w_time (put_node k n w) = w_time w"
  "w_fork (put_node k n w) = w_fork w"
  "w_tick (put_node k n w) = w_tick w"
  "w_on_term (put_node k n w) = w_on_term w"
  "w_cgroupfs (put_node k n w) = w_cgroupfs w"
  "w_dir (put_node k n w) = w_dir w"
  "w_openat2 (put_node k n w) = w_openat2 w"
  by (simp_all add: put_node_def)

text \<open>What a file operation may change: the tree only. Every operation above is \<open>fs_only\<close>.\<close>

definition fs_only :: "world \<Rightarrow> world \<Rightarrow> bool" where
  "fs_only w w' \<longleftrightarrow> w' = w\<lparr>w_fs := w_fs w'\<rparr>"

lemma fs_only_refl [simp]: "fs_only w w"
  by (simp add: fs_only_def)

lemma fs_only_trans: "fs_only a b \<Longrightarrow> fs_only b c \<Longrightarrow> fs_only a c"
  by (simp add: fs_only_def) (metis world.surjective world.update_convs(3))

lemma fs_only_put_node [simp]: "fs_only w (put_node k n w)"
  by (simp add: fs_only_def put_node_def)

lemma fs_only_put_node2 [simp]: "fs_only w (put_node k n (put_node k' n' w))"
  by (simp add: fs_only_def put_node_def)

lemma fs_only_sel:
  assumes "fs_only w w'"
  shows "w_canon w' = w_canon w" "w_fault w' = w_fault w" "w_procs w' = w_procs w" "w_sent w' = w_sent w"
    "w_env w' = w_env w" "w_getpid w' = w_getpid w" "w_time w' = w_time w" "w_fork w' = w_fork w"
    "w_tick w' = w_tick w" "w_on_term w' = w_on_term w" "w_cgroupfs w' = w_cgroupfs w"
  using assms by (simp_all add: fs_only_def) (metis world.select_convs world.update_convs world.surjective)+

lemma fs_only_ops [simp, intro]:
  "fs_only w (snd (mkdir p m w))"
  "fs_only w (rmdir p w)"
  "fs_only w (unlink p w)"
  "fs_only w (snd (fopen_wx p w))"
  "fs_only w (snd (fopen_wa t p w))"
  "fs_only w (snd (fput p d w))"
  by (auto simp: mkdir_def rmdir_def unlink_def fopen_wx_def fopen_wa_def fput_def put_bytes_def
      split: option.splits node.splits)

lemma fs_only_rename [simp, intro]: "fs_only w (snd (rename a b w))"
  by (auto simp: rename_def split: option.splits node.splits)

text \<open>The part of the host that no operation changes: the clock, the environment and the host's own
  choices.\<close>

definition host_frame :: "world \<Rightarrow> world \<Rightarrow> bool" where
  "host_frame w w' \<longleftrightarrow>
     w_canon w' = w_canon w \<and> w_fault w' = w_fault w \<and> w_env w' = w_env w \<and> w_getpid w' = w_getpid w
     \<and> w_time w' = w_time w \<and> w_fork w' = w_fork w \<and> w_tick w' = w_tick w \<and> w_on_term w' = w_on_term w
     \<and> w_cgroupfs w' = w_cgroupfs w"

lemma host_frame_refl [simp]: "host_frame w w"
  by (simp add: host_frame_def)

lemma host_frame_trans: "host_frame a b \<Longrightarrow> host_frame b c \<Longrightarrow> host_frame a c"
  by (simp add: host_frame_def)

lemma fs_only_host_frame: "fs_only w w' \<Longrightarrow> host_frame w w'"
  by (simp add: host_frame_def fs_only_sel)

lemma stat_StatDir_iff:
  "stat w p = StatDir d \<longleftrightarrow> \<not> w_fault w IoStat p \<and> w_fs w (w_canon w p) = Some (Dir d)"
  by (auto simp: stat_def split: option.splits node.splits)

lemma stat_StatReg_iff:
  "stat w p = StatReg \<longleftrightarrow> \<not> w_fault w IoStat p \<and> (\<exists>b. w_fs w (w_canon w p) = Some (Reg b))"
  by (auto simp: stat_def split: option.splits node.splits)

lemma length_drop_first: "length (drop_first P xs) \<le> length xs"
  by (induction xs) auto

lemma length_drop_first_find: "find P xs = Some x \<Longrightarrow> length (drop_first P xs) < length xs"
  by (induction xs) (auto split: if_splits)

lemma set_drop_first: "set (drop_first P xs) \<subseteq> set xs"
  by (induction xs) auto

lemma waitpid_length: "waitpid t w = (Reaped p st, w') \<Longrightarrow> length (w_procs w') < length (w_procs w)"
  by (auto simp: waitpid_def length_drop_first_find split: option.splits if_splits)

lemma waitpid_procs_subset: "set (w_procs (snd (waitpid t w))) \<subseteq> set (w_procs w)"
  by (cases "find (reapable t) (w_procs w)") (auto simp: waitpid_def dest: subsetD [OF set_drop_first])

lemma waitpid_frame [simp]:
  "w_fs (snd (waitpid t w)) = w_fs w" "w_sent (snd (waitpid t w)) = w_sent w"
  "w_canon (snd (waitpid t w)) = w_canon w" "w_fault (snd (waitpid t w)) = w_fault w"
  "w_env (snd (waitpid t w)) = w_env w" "w_tick (snd (waitpid t w)) = w_tick w"
  by (simp_all add: waitpid_def split: option.splits)

end
