(* ===== verification/Paths.thy ===== *)
theory Paths
  imports Host
begin

text \<open>
  src/paths.c: joining path components into fixed buffers, creating directories with their parents,
  and resolving the state directory, the runtime directory and the action log from the arguments
  and the environment. Buffers are strings bounded by \<open>snprintf\<close>; an operation that writes the
  file tree returns the new world.
\<close>

definition join3 :: "nat \<Rightarrow> cstring_opt \<Rightarrow> cstring_opt \<Rightarrow> cstring_opt \<Rightarrow> string option" where
  "join3 n a b c =
     (case a of
        None \<Rightarrow> None
      | Some a' \<Rightarrow>
          if n = 0 then None
          else
            let s = (if nonempty c then a' @ ''/'' @ (case b of Some b' \<Rightarrow> b' | None \<Rightarrow> []) @ ''/'' @ the c
                     else if nonempty b then a' @ ''/'' @ the b
                     else a')
            in if \<not> snprintf_fits n s then None else Some s)"

definition mkdir_one :: "cstring_opt \<Rightarrow> nat \<Rightarrow> world \<Rightarrow> rc \<times> world" where
  "mkdir_one path mode w =
     (if \<not> nonempty path then (ERR_INVAL, w)
      else
        (case stat w (the path) of
           StatDir _ \<Rightarrow> (OK, w)
         | StatReg \<Rightarrow> (ERR_IO, w)
         | StatErr e \<Rightarrow>
             if e \<noteq> ENOENT then (ERR_IO, w)
             else
               (case mkdir (the path) (mode mod 512) w of
                  (None, w') \<Rightarrow> (OK, w')
                | (Some EEXIST, w') \<Rightarrow>
                    (case stat w' (the path) of StatDir _ \<Rightarrow> (OK, w') | _ \<Rightarrow> (ERR_IO, w'))
                | (Some _, w') \<Rightarrow> (ERR_IO, w'))))"

text \<open>\<open>while (i + 1 < n && buf[i + 1] == '/') i++;\<close>\<close>

function skip_slashes :: "string \<Rightarrow> nat \<Rightarrow> nat" where
  "skip_slashes p i = (if i + 1 < length p \<and> p ! (i + 1) = slash then skip_slashes p (i + 1) else i)"
  by pat_completeness auto
termination
  by (relation "measure (\<lambda>(p, i). length p - i)") auto

declare skip_slashes.simps [simp del]

lemma skip_slashes_ge: "i \<le> skip_slashes p i"
proof (induction p i rule: skip_slashes.induct)
  case (1 p i)
  then show ?case by (subst skip_slashes.simps) (auto dest: Suc_leD)
qed

text \<open>The loop of \<open>phronesis_paths_ensure_dir\<close> from index \<open>i\<close> on: a parent is the text before a
  slash, and a run of slashes counts once.\<close>

function ensure_loop :: "string \<Rightarrow> nat \<Rightarrow> nat \<Rightarrow> world \<Rightarrow> rc \<times> world" where
  "ensure_loop p mode i w =
     (if i < length p then
        (if p ! i \<noteq> slash then ensure_loop p mode (i + 1) w
         else
           (case mkdir_one (Some (take i p)) mode w of
              (r, w') \<Rightarrow> if r \<noteq> OK then (r, w') else ensure_loop p mode (skip_slashes p i + 1) w'))
      else mkdir_one (Some p) mode w)"
  by pat_completeness auto
termination
  by (relation "measure (\<lambda>(p, m, i, w). length p - i)")
    (auto simp: diff_less_mono2 le_imp_less_Suc skip_slashes_ge)

declare ensure_loop.simps [simp del]

definition phronesis_paths_ensure_dir :: "cstring_opt \<Rightarrow> nat \<Rightarrow> world \<Rightarrow> rc \<times> world" where
  "phronesis_paths_ensure_dir path mode w =
     (if \<not> nonempty path then (ERR_INVAL, w)
      else if length (the path) \<ge> PHRONESIS_PATH_MAX then (ERR_INVAL, w)
      else ensure_loop (the path) mode 1 w)"

definition mode_0700 :: nat where "mode_0700 = 448"

definition ensure_state_tree :: "string \<Rightarrow> world \<Rightarrow> rc \<times> world" where
  "ensure_state_tree state w =
     (case phronesis_paths_ensure_dir (Some state) mode_0700 w of
        (r, w1) \<Rightarrow>
          if r \<noteq> OK then (ERR_IO, w1)
          else
            (case join3 PHRONESIS_PATH_MAX (Some state) (Some ''log'') None of
               None \<Rightarrow> (ERR_INVAL, w1)
             | Some lg \<Rightarrow>
                 (case phronesis_paths_ensure_dir (Some lg) mode_0700 w1 of
                    (r2, w2) \<Rightarrow>
                      if r2 \<noteq> OK then (ERR_IO, w2)
                      else
                        (case join3 PHRONESIS_PATH_MAX (Some state) (Some ''phronesis'') None of
                           None \<Rightarrow> (ERR_INVAL, w2)
                         | Some ph \<Rightarrow>
                             (case phronesis_paths_ensure_dir (Some ph) mode_0700 w2 of
                                (r3, w3) \<Rightarrow> if r3 \<noteq> OK then (ERR_IO, w3) else (OK, w3))))))"

text \<open>\<open>snprintf(dst, n, "%s", s) >= n\<close> means \<open>PHRONESIS_ERR_INVAL\<close>.\<close>

definition copy_bounded :: "nat \<Rightarrow> string \<Rightarrow> rc + string" where
  "copy_bounded n s = (if \<not> snprintf_fits n s then Inl ERR_INVAL else Inr s)"

definition joined :: "string option \<Rightarrow> rc + string" where
  "joined r = (case r of None \<Rightarrow> Inl ERR_INVAL | Some s \<Rightarrow> Inr s)"

definition resolve_state_dir :: "env \<Rightarrow> nat \<Rightarrow> cstring_opt \<Rightarrow> rc + string" where
  "resolve_state_dir getenv state_len state_override =
     (if nonempty state_override then copy_bounded state_len (the state_override)
      else if nonempty (getenv ''PHRONESIS_STATE_DIR'') then
        copy_bounded state_len (the (getenv ''PHRONESIS_STATE_DIR''))
      else if nonempty (getenv ''XDG_STATE_HOME'') then
        joined (join3 state_len (getenv ''XDG_STATE_HOME'') (Some ''phronesis'') None)
      else if nonempty (getenv ''HOME'') then
        (case join3 PHRONESIS_PATH_MAX (getenv ''HOME'') (Some ''.local/state'') None of
           None \<Rightarrow> Inl ERR_INVAL
         | Some tmp \<Rightarrow> joined (join3 state_len (Some tmp) (Some ''phronesis'') None))
      else Inl ERR_STATE)"

definition resolve_runtime_dir :: "env \<Rightarrow> nat \<Rightarrow> string \<Rightarrow> cstring_opt \<Rightarrow> rc + string" where
  "resolve_runtime_dir getenv runtime_len state_dir runtime_override =
     (if nonempty runtime_override then copy_bounded runtime_len (the runtime_override)
      else if nonempty (getenv ''PHRONESIS_RUNTIME_DIR'') then
        copy_bounded runtime_len (the (getenv ''PHRONESIS_RUNTIME_DIR''))
      else if nonempty (getenv ''XDG_RUNTIME_DIR'') then
        joined (join3 runtime_len (getenv ''XDG_RUNTIME_DIR'') (Some ''phronesis'') None)
      else joined (join3 runtime_len (Some state_dir) (Some ''run'') None))"

definition resolve_action_log :: "env \<Rightarrow> nat \<Rightarrow> string \<Rightarrow> rc + string" where
  "resolve_action_log getenv log_len state_dir =
     (if nonempty (getenv ''PHRONESIS_ACTION_LOG'') then
        copy_bounded log_len (the (getenv ''PHRONESIS_ACTION_LOG''))
      else joined (join3 log_len (Some state_dir) (Some ''log'') (Some ''actions.jsonl'')))"

definition phronesis_paths_resolve ::
  "nat \<Rightarrow> nat \<Rightarrow> nat \<Rightarrow> cstring_opt \<Rightarrow> cstring_opt \<Rightarrow> world \<Rightarrow> (rc + string \<times> string \<times> string) \<times> world" where
  "phronesis_paths_resolve state_len runtime_len log_len state_override runtime_override w =
     (case resolve_state_dir (w_env w) state_len state_override of
        Inl e \<Rightarrow> (Inl e, w)
      | Inr state_dir \<Rightarrow>
          (case resolve_runtime_dir (w_env w) runtime_len state_dir runtime_override of
             Inl e \<Rightarrow> (Inl e, w)
           | Inr runtime_dir \<Rightarrow>
               if runtime_dir = ''/tmp'' \<or> runtime_dir = ''/tmp/'' then (Inl ERR_STATE, w)
               else
                 (case resolve_action_log (w_env w) log_len state_dir of
                    Inl e \<Rightarrow> (Inl e, w)
                  | Inr action_log \<Rightarrow>
                      (case ensure_state_tree state_dir w of
                         (r, w1) \<Rightarrow>
                           if r \<noteq> OK then (Inl ERR_IO, w1)
                           else
                             (case phronesis_paths_ensure_dir (Some runtime_dir) mode_0700 w1 of
                                (r2, w2) \<Rightarrow>
                                  if r2 \<noteq> OK then (Inl ERR_IO, w2)
                                  else (Inr (state_dir, runtime_dir, action_log), w2))))))"

section \<open>Directories only grow\<close>

text \<open>What creating directories may do to the tree: keep every node it had, and add directories of
  the requested mode.\<close>

definition dirs_added :: "nat \<Rightarrow> world \<Rightarrow> world \<Rightarrow> bool" where
  "dirs_added mode w w' \<longleftrightarrow>
     fs_only w w'
     \<and> (\<forall>k. w_fs w' k = w_fs w k \<or> w_fs w k = None \<and> w_fs w' k = Some (Dir (mode mod 512)))"

lemma dirs_added_refl [simp]: "dirs_added m w w"
  by (simp add: dirs_added_def)

lemma dirs_added_trans: "dirs_added m a b \<Longrightarrow> dirs_added m b c \<Longrightarrow> dirs_added m a c"
  unfolding dirs_added_def by (metis fs_only_trans)

lemma dirs_added_stat:
  "dirs_added m w w' \<Longrightarrow> stat w p = StatDir d \<Longrightarrow> stat w' p = StatDir d"
  unfolding dirs_added_def stat_StatDir_iff by (metis fs_only_sel(1,2) option.distinct(1))

lemma mkdir_one_dirs_added: "mkdir_one p m w = (r, w') \<Longrightarrow> dirs_added m w w'"
  by (auto simp: mkdir_one_def mkdir_def dirs_added_def
      split: if_splits stat_result.splits option.splits node.splits errno.splits)

lemma mkdir_one_ok:
  assumes "mkdir_one (Some p) m w = (OK, w')"
  shows "\<exists>d. stat w' p = StatDir d"
  using assms
  by (auto simp: mkdir_one_def mkdir_def stat_def
      split: if_splits stat_result.splits option.splits node.splits errno.splits)

lemma ensure_loop_dirs_added: "ensure_loop p m i w = (r, w') \<Longrightarrow> dirs_added m w w'"
proof (induction p m i w arbitrary: r w' rule: ensure_loop.induct)
  case (1 p m i w)
  show ?case
  proof (cases "i < length p \<and> p ! i = slash")
    case False
    then show ?thesis using 1
      by (auto simp: ensure_loop.simps [of p m i w] dest: mkdir_one_dirs_added split: if_splits)
  next
    case True
    obtain r1 w1 where m1: "mkdir_one (Some (take i p)) m w = (r1, w1)" by fastforce
    then have d1: "dirs_added m w w1" by (rule mkdir_one_dirs_added)
    show ?thesis
    proof (cases "r1 = OK")
      case False
      then show ?thesis using True m1 d1 "1.prems" by (simp add: ensure_loop.simps [of p m i w])
    next
      case ok: True
      then have "ensure_loop p m (skip_slashes p i + 1) w1 = (r, w')"
        using True m1 "1.prems" by (simp add: ensure_loop.simps [of p m i w])
      then have "dirs_added m w1 w'" using "1.IH"(2) [OF _ _ m1 [symmetric]] True ok by simp
      then show ?thesis using d1 dirs_added_trans by blast
    qed
  qed
qed

lemma ensure_loop_ok: "ensure_loop p m i w = (OK, w') \<Longrightarrow> \<exists>d. stat w' p = StatDir d"
proof (induction p m i w rule: ensure_loop.induct)
  case (1 p m i w)
  then show ?case
    by (subst (asm) (3) ensure_loop.simps)
      (auto dest: mkdir_one_ok split: if_splits prod.splits)
qed

lemma ensure_dir_dirs_added:
  "phronesis_paths_ensure_dir p m w = (r, w') \<Longrightarrow> dirs_added m w w'"
  by (auto simp: phronesis_paths_ensure_dir_def dest: ensure_loop_dirs_added split: if_splits)

lemma ensure_dir_ok:
  "phronesis_paths_ensure_dir (Some p) m w = (OK, w') \<Longrightarrow> \<exists>d. stat w' p = StatDir d"
  by (auto simp: phronesis_paths_ensure_dir_def dest: ensure_loop_ok split: if_splits)


section \<open>Properties\<close>

text \<open>C40: Creating a directory with its parents keeps what is there. Whatever the outcome,
  \<open>phronesis_paths_ensure_dir\<close> changes nothing but the file tree, keeps every existing node (an
  existing parent is never re-created or given another mode) and adds only directories whose
  permission bits are exactly the requested ones; when it returns OK, the path is a directory.\<close>

theorem ensure_dir_correct:
  "case phronesis_paths_ensure_dir (Some p) mode w of
     (r, w') \<Rightarrow> dirs_added mode w w' \<and> (r = OK \<longrightarrow> (\<exists>d. stat w' p = StatDir d))"
  by (auto dest: ensure_dir_dirs_added ensure_dir_ok split: prod.splits)

lemma ensure_dir_correct_witness:
  "\<exists>d. stat (snd (phronesis_paths_ensure_dir (Some ''/a//b'') 448 fresh_world)) ''/a//b'' = StatDir d"
proof -
  have "fst (phronesis_paths_ensure_dir (Some ''/a//b'') 448 fresh_world) = OK" by code_simp
  then show ?thesis
    using ensure_dir_correct [where p = "''/a//b''" and mode = 448 and w = fresh_world]
    by (auto split: prod.splits)
qed

lemma join3_length: "join3 n a b c = Some s \<Longrightarrow> length s < n"
  by (auto simp: join3_def Let_def snprintf_fits_def split: option.splits if_splits)

lemma copy_bounded_length: "copy_bounded n a = Inr s \<Longrightarrow> length s < n"
  by (auto simp: copy_bounded_def snprintf_fits_def split: if_splits)

lemma joined_length: "joined (join3 n a b c) = Inr s \<Longrightarrow> length s < n"
  by (auto simp: joined_def dest: join3_length split: option.splits)

lemma resolve_lengths:
  "resolve_state_dir e n so = Inr s \<Longrightarrow> length s < n"
  "resolve_runtime_dir e m s' ro = Inr r \<Longrightarrow> length r < m"
  "resolve_action_log e k s' = Inr l \<Longrightarrow> length l < k"
  by (auto simp: resolve_state_dir_def resolve_runtime_dir_def resolve_action_log_def
      dest: copy_bounded_length joined_length split: if_splits option.splits)

lemma ensure_state_tree_ok:
  assumes "ensure_state_tree s w = (OK, w')"
  shows "dirs_added mode_0700 w w'
    \<and> (\<forall>p \<in> {s, s @ ''/log'', s @ ''/phronesis''}. \<exists>d. stat w' p = StatDir d)"
proof -
  obtain w1 w2 where e1: "phronesis_paths_ensure_dir (Some s) mode_0700 w = (OK, w1)"
    and e2: "phronesis_paths_ensure_dir (Some (s @ ''/log'')) mode_0700 w1 = (OK, w2)"
    and e3: "phronesis_paths_ensure_dir (Some (s @ ''/phronesis'')) mode_0700 w2 = (OK, w')"
    using assms
    by (auto simp: ensure_state_tree_def join3_def Let_def split: prod.splits if_splits)
  note added = e1 [THEN ensure_dir_dirs_added] e2 [THEN ensure_dir_dirs_added] e3 [THEN ensure_dir_dirs_added]
  have "dirs_added mode_0700 w w'" using added dirs_added_trans by blast
  moreover have "\<exists>d. stat w' s = StatDir d"
    using ensure_dir_ok [OF e1] added(2,3) dirs_added_stat by blast
  moreover have "\<exists>d. stat w' (s @ ''/log'') = StatDir d"
    using ensure_dir_ok [OF e2] added(3) dirs_added_stat by blast
  moreover have "\<exists>d. stat w' (s @ ''/phronesis'') = StatDir d"
    using ensure_dir_ok [OF e3] by blast
  ultimately show ?thesis by blast
qed

text \<open>A successful set-up is usable. When the directories resolve, each result fits its buffer, the
  runtime directory is not \<open>/tmp\<close> itself, the tree has only gained directories of mode 0700, and
  the state directory, its \<open>log\<close> and \<open>phronesis\<close> children and the runtime directory are directories.\<close>

lemma paths_resolve_ok:
  assumes "phronesis_paths_resolve n m k so ro w = (Inr (s, r, l), w')"
  shows "length s < n \<and> length r < m \<and> length l < k \<and> r \<noteq> ''/tmp'' \<and> r \<noteq> ''/tmp/''
    \<and> dirs_added mode_0700 w w'
    \<and> (\<forall>p \<in> {s, s @ ''/log'', s @ ''/phronesis'', r}. \<exists>d. stat w' p = StatDir d)"
proof -
  obtain w1 where s: "resolve_state_dir (w_env w) n so = Inr s"
    and r: "resolve_runtime_dir (w_env w) m s ro = Inr r" "r \<noteq> ''/tmp''" "r \<noteq> ''/tmp/''"
    and l: "resolve_action_log (w_env w) k s = Inr l"
    and t: "ensure_state_tree s w = (OK, w1)"
    and e: "phronesis_paths_ensure_dir (Some r) mode_0700 w1 = (OK, w')"
    using assms
    by (auto simp: phronesis_paths_resolve_def split: sum.splits if_splits prod.splits)
  note tree = ensure_state_tree_ok [OF t] and rt = ensure_dir_dirs_added [OF e]
  have "dirs_added mode_0700 w w'" using tree rt dirs_added_trans by blast
  moreover have "\<forall>p \<in> {s, s @ ''/log'', s @ ''/phronesis'', r}. \<exists>d. stat w' p = StatDir d"
    using tree rt ensure_dir_ok [OF e] dirs_added_stat by blast
  ultimately show ?thesis using s r l resolve_lengths by blast
qed

definition home_world :: world where
  "home_world = fresh_world\<lparr>w_env := (\<lambda>v. if v = ''HOME'' then Some ''/h'' else None)\<rparr>"

lemma paths_resolve_ok_witness:
  "\<exists>d. stat (snd (phronesis_paths_resolve 512 512 512 None None home_world)) ''/h/.local/state/phronesis/run'' = StatDir d"
proof -
  have "fst (phronesis_paths_resolve 512 512 512 None None home_world) =
      Inr (''/h/.local/state/phronesis'', ''/h/.local/state/phronesis/run'',
           ''/h/.local/state/phronesis/log/actions.jsonl'')"
    by code_simp
  then show ?thesis
    using paths_resolve_ok [where n = 512 and m = 512 and k = 512 and so = None and ro = None and w = home_world]
    by (cases "phronesis_paths_resolve 512 512 512 None None home_world") auto
qed

text \<open>The refusal of \<open>/tmp\<close> is by name only: a runtime directory below \<open>/tmp\<close> is accepted, although
  the contract of \<open>phronesis_supervisor_open\<close> says that it must not resolve under \<open>/tmp\<close>.\<close>

lemma runtime_below_tmp_accepted:
  "fst (phronesis_paths_resolve 512 512 512 (Some ''/s'') (Some ''/tmp/x'') fresh_world)
     = Inr (''/s'', ''/tmp/x'', ''/s/log/actions.jsonl'')
   \<and> fst (phronesis_paths_resolve 512 512 512 (Some ''/s'') (Some ''/tmp'') fresh_world) = Inl ERR_STATE"
  by (intro conjI; code_simp)

end
