(* ===== verification/Numbers.thy ===== *)
theory Numbers
  imports Prelude
begin

text \<open>
  Numbers as the C library prints and scans them: \<open>%0<w>llx\<close>, \<open>%d\<close>, \<open>%lld\<close> and \<open>%u\<close> of \<open>printf\<close>, \<open>%d\<close>
  of \<open>scanf\<close>, with the round trip of the decimal pair.
\<close>

section \<open>Printing\<close>

definition hexdigit :: "nat \<Rightarrow> char" where
  "hexdigit n = ''0123456789abcdef'' ! (n mod 16)"

text \<open>\<open>%0<w>llx\<close> of a value below \<open>16 ^ w\<close>.\<close>

fun hex_fixed :: "nat \<Rightarrow> nat \<Rightarrow> string" where
  "hex_fixed 0 n = []"
| "hex_fixed (Suc w) n = hex_fixed w (n div 16) @ [hexdigit n]"

text \<open>\<open>%d\<close>, \<open>%lld\<close> and \<open>%u\<close>.\<close>

definition digit_char :: "nat \<Rightarrow> char" where
  "digit_char n = ''0123456789'' ! (n mod 10)"

fun show_nat :: "nat \<Rightarrow> string" where
  "show_nat n = (if n < 10 then [digit_char n] else show_nat (n div 10) @ [digit_char n])"

declare show_nat.simps [simp del]

definition show_int :: "int \<Rightarrow> string" where
  "show_int i = (if i < 0 then CHR ''-'' # show_nat (nat (- i)) else show_nat (nat i))"

section \<open>Scanning\<close>

definition is_digit :: "char \<Rightarrow> bool" where
  "is_digit c = (c \<in> set ''0123456789'')"

definition digit_val :: "char \<Rightarrow> nat" where
  "digit_val c = of_char c - 48"

definition nat_of_digits :: "string \<Rightarrow> nat" where
  "nat_of_digits ds = fold (\<lambda>d n. 10 * n + digit_val d) ds 0"

text \<open>White space in the C locale.\<close>

definition is_space :: "char \<Rightarrow> bool" where
  "is_space c = (c = CHR '' '' \<or> (9::nat) \<le> of_char c \<and> of_char c \<le> (13::nat))"

text \<open>\<open>%d\<close>: skip white space, an optional sign, then at least one digit. \<open>None\<close> is a matching failure.
  A value out of the range of \<open>int\<close> is undefined in C; here it is the mathematical integer.\<close>

definition scan_int :: "string \<Rightarrow> (int \<times> string) option" where
  "scan_int s =
     (let t = dropWhile is_space s;
          neg = (cstr_at t 0 = CHR ''-'');
          u = (if neg \<or> cstr_at t 0 = CHR ''+'' then tl t else t);
          ds = takeWhile is_digit u
      in if ds = [] then None
         else Some (if neg then - int (nat_of_digits ds) else int (nat_of_digits ds), dropWhile is_digit u))"

text \<open>\<open>%<w>s\<close>: skip white space, then at most \<open>w\<close> bytes that are not white space, at least one.\<close>

definition scan_word :: "nat \<Rightarrow> string \<Rightarrow> (string \<times> string) option" where
  "scan_word w s =
     (let t = dropWhile is_space s; x = take w (takeWhile (\<lambda>c. \<not> is_space c) t)
      in if x = [] then None else Some (x, drop (length x) t))"

section \<open>Hexadecimal\<close>

lemma length_hex_fixed [simp]: "length (hex_fixed w n) = w"
  by (induction w arbitrary: n) auto

lemma hexdigit_inj: "hexdigit m = hexdigit n \<Longrightarrow> m mod 16 = n mod 16"
proof -
  have d: "distinct ''0123456789abcdef''" by simp
  assume "hexdigit m = hexdigit n"
  then show ?thesis
    unfolding hexdigit_def by (subst (asm) nth_eq_iff_index_eq [OF d]) auto
qed

lemma hex_fixed_inj:
  "m < 16 ^ w \<Longrightarrow> n < 16 ^ w \<Longrightarrow> hex_fixed w m = hex_fixed w n \<Longrightarrow> m = n"
proof (induction w arbitrary: m n)
  case 0
  then show ?case by simp
next
  case (Suc w)
  from Suc.prems have "m div 16 < 16 ^ w" "n div 16 < 16 ^ w"
    by (simp_all add: less_mult_imp_div_less mult.commute)
  then have "m div 16 = n div 16" using Suc.IH Suc.prems(3) by simp
  moreover have "m mod 16 = n mod 16" using Suc.prems(3) by (auto dest: hexdigit_inj)
  ultimately show ?case by (metis div_mult_mod_eq)
qed

lemma hexdigit_mem: "hexdigit n \<in> set ''0123456789abcdef''"
  unfolding hexdigit_def by (rule nth_mem) simp

lemma set_hex_fixed: "set (hex_fixed w n) \<subseteq> set ''0123456789abcdef''"
  by (induction w arbitrary: n) (use hexdigit_mem in auto)

section \<open>Decimal\<close>

lemma digit_char_digit: "digit_char n \<in> set ''0123456789''"
  unfolding digit_char_def by (rule nth_mem) simp

lemma digit_val_char: "digit_val (digit_char n) = n mod 10"
proof -
  have "n mod 10 \<in> {0, 1, 2, 3, 4, 5, 6, 7, 8, 9}"
  proof -
    have "n mod 10 < 10" by simp
    then show ?thesis by (simp only: insert_iff empty_iff) presburger
  qed
  then show ?thesis unfolding digit_char_def digit_val_def by (elim insertE emptyE) simp_all
qed

lemma show_nat_digits: "set (show_nat n) \<subseteq> set ''0123456789''"
proof (induction n rule: show_nat.induct)
  case (1 n)
  then show ?case using digit_char_digit by (subst show_nat.simps) auto
qed

lemma show_nat_not_Nil [simp]: "show_nat n \<noteq> []"
  by (subst show_nat.simps) simp

lemma nat_of_digits_snoc: "nat_of_digits (ds @ [d]) = 10 * nat_of_digits ds + digit_val d"
  by (simp add: nat_of_digits_def)

lemma nat_of_show_nat [simp]: "nat_of_digits (show_nat n) = n"
proof (induction n rule: show_nat.induct)
  case (1 n)
  show ?case
  proof (cases "n < 10")
    case True
    then show ?thesis by (subst show_nat.simps) (simp add: nat_of_digits_def digit_val_char)
  next
    case False
    then have "show_nat n = show_nat (n div 10) @ [digit_char n]" by (simp add: show_nat.simps [of n])
    then have "nat_of_digits (show_nat n) = 10 * nat_of_digits (show_nat (n div 10)) + n mod 10"
      by (simp add: nat_of_digits_snoc digit_val_char)
    then show ?thesis using 1 False by simp
  qed
qed

lemma is_digit_show_nat: "c \<in> set (show_nat n) \<Longrightarrow> is_digit c"
  unfolding is_digit_def using show_nat_digits by blast

lemma digit_not_space: "is_digit c \<Longrightarrow> \<not> is_space c"
  by (auto simp: is_digit_def is_space_def)

lemma digit_not_sign: "is_digit c \<Longrightarrow> c \<noteq> CHR ''-'' \<and> c \<noteq> CHR ''+''"
  by (auto simp: is_digit_def)

lemma takeWhile_digits:
  "(r = [] \<or> \<not> is_digit (hd r)) \<Longrightarrow> takeWhile is_digit (show_nat n @ r) = show_nat n"
  by (subst takeWhile_append2) (auto dest: is_digit_show_nat simp: takeWhile_eq_Nil_iff)

lemma dropWhile_digits:
  "(r = [] \<or> \<not> is_digit (hd r)) \<Longrightarrow> dropWhile is_digit (show_nat n @ r) = r"
  by (subst dropWhile_append2) (auto dest: is_digit_show_nat simp: dropWhile_eq_self_iff)

lemma show_nat_Cons: "\<exists>d ds. show_nat n = d # ds \<and> is_digit d"
  by (cases "show_nat n") (auto intro: is_digit_show_nat [of _ n])

lemma scan_show_int:
  assumes "r = [] \<or> \<not> is_digit (hd r)"
  shows "scan_int (show_int i @ r) = Some (i, r)"
proof -
  obtain d ds where d: "show_nat (nat \<bar>i\<bar>) = d # ds" "is_digit d" using show_nat_Cons by blast
  have sp: "is_space CHR '' ''" "\<not> is_space CHR ''-''" "\<not> is_space d" "d \<noteq> CHR ''-''" "d \<noteq> CHR ''+''"
    using d digit_not_space digit_not_sign by (auto simp: is_space_def)
  have tw: "takeWhile is_digit (d # ds @ r) = d # ds" "dropWhile is_digit (d # ds @ r) = r"
    using takeWhile_digits [OF assms, of "nat \<bar>i\<bar>"] dropWhile_digits [OF assms, of "nat \<bar>i\<bar>"] d(1) by simp_all
  have val: "nat_of_digits (d # ds) = nat \<bar>i\<bar>" using nat_of_show_nat [of "nat \<bar>i\<bar>"] d(1) by simp
  show ?thesis
  proof (cases "i < 0")
    case True
    then have "show_int i = CHR ''-'' # d # ds" using d(1) by (simp add: show_int_def)
    then show ?thesis using True sp tw val by (simp add: scan_int_def Let_def)
  next
    case False
    then have "show_int i = d # ds" using d(1) by (simp add: show_int_def)
    then show ?thesis using False sp tw val by (simp add: scan_int_def Let_def)
  qed
qed

lemma scan_int_space [simp]: "scan_int (CHR '' '' # s) = scan_int s"
  by (simp add: scan_int_def is_space_def)

lemma scan_word_eq:
  assumes "x \<noteq> []" "\<forall>c \<in> set x. \<not> is_space c" "length x \<le> w" "r = [] \<or> is_space (hd r)"
    and "\<forall>c \<in> set sp. is_space c"
  shows "scan_word w (sp @ x @ r) = Some (x, r)"
proof -
  have "dropWhile is_space (sp @ x @ r) = x @ r"
    using assms(1,2,5) by (cases x) (auto simp: dropWhile_append2)
  moreover have "takeWhile (\<lambda>c. \<not> is_space c) (x @ r) = x"
    using assms(2,4) by (subst takeWhile_append2) (auto simp: takeWhile_eq_Nil_iff)
  moreover have "w \<noteq> 0" using assms(1,3) by (cases x) auto
  ultimately show ?thesis using assms(1,3) by (simp add: scan_word_def Let_def)
qed

end
