(* ===== verification/Cgroup.thy ===== *)
theory Cgroup
  imports Paths Numbers
begin

text \<open>
  src/cgroup.c, the Linux half: finding the supervisor's own cgroup, creating a child group for an
  agent, moving a pid into it, killing it and removing it. Writing a control file appends to the file
  tree like any other write, and hands the text to the kernel (\<open>w_cgroupfs\<close>), which may change the
  process table. The lemmas bound what each call touches: creation leaves the processes to the
  controller write, and a path that comes out fits the caller's buffer and is a directory.
\<close>

section \<open>The code\<close>

definition write_str :: "string \<Rightarrow> bytes \<Rightarrow> world \<Rightarrow> bool \<times> world" where
  "write_str path data w =
     (case fopen_wa True path w of
        (False, w1) \<Rightarrow> (False, w1)
      | (True, w1) \<Rightarrow>
          (case fput path data w1 of
             (PutOk, w2) \<Rightarrow> (True, w2\<lparr>w_procs := w_cgroupfs w2 path data (w_procs w2)\<rparr>)
           | (_, w2) \<Rightarrow> (False, w2)))"

text \<open>\<open>strstr\<close> as a pointer: the suffix that starts at the first match.\<close>

fun strstr_ptr :: "string \<Rightarrow> string \<Rightarrow> string option" where
  "strstr_ptr [] pat = (if pat = [] then Some [] else None)"
| "strstr_ptr (x # xs) pat = (if starts_with (x # xs) pat then Some (x # xs) else strstr_ptr xs pat)"

function cgroup_lines :: "nat \<Rightarrow> bytes \<Rightarrow> string option" where
  "cgroup_lines n s =
     (if s = [] then None
      else
        let chunk = fgets_chunk PHRONESIS_PATH_MAX s
        in case strstr_ptr (cstr chunk) ''::'' of
             None \<Rightarrow> cgroup_lines n (drop (length chunk) s)
           | Some p \<Rightarrow>
               let rel = strip_eol (drop 2 p) in if \<not> snprintf_fits n rel then None else Some rel)"
  by pat_completeness auto
termination
proof (relation "measure (\<lambda>(n, s). length s)", goal_cases)
  case (2 n s chunk)
  then show ?case using fgets_chunk_pos [of PHRONESIS_PATH_MAX s] by (simp add: PHRONESIS_PATH_MAX_def)
qed simp

declare cgroup_lines.simps [simp del]

definition self_cgroup_rel :: "world \<Rightarrow> nat \<Rightarrow> string option" where
  "self_cgroup_rel w n =
     (case fopen_r w ''/proc/self/cgroup'' of None \<Rightarrow> None | Some content \<Rightarrow> cgroup_lines n content)"

text \<open>The directory of the agent's group below the supervisor's own; \<open>None\<close> where the code gives up.\<close>

definition cgroup_base :: "string \<Rightarrow> string option" where
  "cgroup_base rel =
     (if rel = [] \<or> rel = ''/'' then Some ''/sys/fs/cgroup''
      else if length rel + 15 > PHRONESIS_PATH_MAX then None
      else if \<not> snprintf_fits PHRONESIS_PATH_MAX (''/sys/fs/cgroup'' @ rel) then None
      else Some (''/sys/fs/cgroup'' @ rel))"

definition mode_0755 :: nat where "mode_0755 = 493"

text \<open>Every path of \<open>phronesis_cgroup_create\<close> after the argument check returns \<open>PHRONESIS_OK\<close>; the
  result is the return code, the text of \<open>path_out\<close> and the world.\<close>

definition phronesis_cgroup_create ::
  "cstring_opt \<Rightarrow> cstring_opt \<Rightarrow> nat \<Rightarrow> world \<Rightarrow> rc \<times> string \<times> world" where
  "phronesis_cgroup_create runtime_dir agent_id path_len w =
     (if runtime_dir = None \<or> agent_id = None \<or> path_len = 0 then (ERR_INVAL, [], w)
      else
        (case self_cgroup_rel w PHRONESIS_PATH_MAX of
           None \<Rightarrow> (OK, [], w)
         | Some rel \<Rightarrow>
             (case cgroup_base rel of
                None \<Rightarrow> (OK, [], w)
              | Some base \<Rightarrow>
                  let path = base @ ''/phronesis-'' @ the agent_id;
                      controllers = base @ ''/cgroup.subtree_control''
                  in if length base + 1 + length (the agent_id) + 12 > PHRONESIS_PATH_MAX then (OK, [], w)
                     else if \<not> snprintf_fits PHRONESIS_PATH_MAX path then (OK, [], w)
                     else
                       let w1 = (if snprintf_fits PHRONESIS_PATH_MAX controllers
                                 then snd (write_str controllers ''+pids +memory'' w) else w)
                       in (case phronesis_paths_ensure_dir (Some path) mode_0755 w1 of
                             (r, w2) \<Rightarrow>
                               if r \<noteq> OK then (OK, [], w2)
                               else if \<not> snprintf_fits path_len path then (OK, [], w2)
                               else (OK, path, w2)))))"

definition phronesis_cgroup_attach :: "string \<Rightarrow> pid_t \<Rightarrow> world \<Rightarrow> rc \<times> world" where
  "phronesis_cgroup_attach cgroup_path pid w =
     (let procs = cgroup_path @ ''/cgroup.procs''; buf = show_int pid
      in if cgroup_path = [] \<or> pid \<le> 0 then (ERR_INVAL, w)
         else if \<not> snprintf_fits PHRONESIS_PATH_MAX procs then (ERR_INVAL, w)
         else if \<not> snprintf_fits 32 buf then (ERR_INVAL, w)
         else (case write_str procs buf w of (ok, w') \<Rightarrow> (if ok then OK else ERR_IO, w')))"

definition phronesis_cgroup_kill :: "string \<Rightarrow> world \<Rightarrow> rc \<times> world" where
  "phronesis_cgroup_kill cgroup_path w =
     (let killp = cgroup_path @ ''/cgroup.kill''
      in if cgroup_path = [] then (ERR_INVAL, w)
         else if \<not> snprintf_fits PHRONESIS_PATH_MAX killp then (ERR_INVAL, w)
         else (case write_str killp ''1'' w of (ok, w') \<Rightarrow> (if ok then OK else ERR_IO, w')))"

definition phronesis_cgroup_remove :: "string \<Rightarrow> world \<Rightarrow> world" where
  "phronesis_cgroup_remove cgroup_path w = (if cgroup_path \<noteq> [] then rmdir cgroup_path w else w)"

section \<open>What the calls touch\<close>

lemma write_str_frame: "host_frame w (snd (write_str p d w)) \<and> w_sent (snd (write_str p d w)) = w_sent w"
proof -
  obtain ok w1 where o: "fopen_wa True p w = (ok, w1)" by fastforce
  have f1: "fs_only w w1" using fs_only_ops(5) [of w True p] o by simp
  obtain r w2 where pt: "fput p d w1 = (r, w2)" by fastforce
  have f2: "fs_only w1 w2" using fs_only_ops(6) [of w1 p d] pt by simp
  have f: "fs_only w w2" using f1 f2 by (rule fs_only_trans)
  then have "host_frame w (w2\<lparr>w_procs := x\<rparr>)" for x by (simp add: host_frame_def fs_only_sel)
  then show ?thesis
    using f1 f o pt by (cases ok; cases r) (auto simp: write_str_def fs_only_host_frame fs_only_sel)
qed

lemma attach_frame: "host_frame w (snd (phronesis_cgroup_attach c p w))
    \<and> w_sent (snd (phronesis_cgroup_attach c p w)) = w_sent w"
  using write_str_frame by (auto simp: phronesis_cgroup_attach_def Let_def split: prod.splits) (metis snd_conv)+

lemma cgroup_kill_frame: "host_frame w (snd (phronesis_cgroup_kill c w))
    \<and> w_sent (snd (phronesis_cgroup_kill c w)) = w_sent w"
  using write_str_frame by (auto simp: phronesis_cgroup_kill_def Let_def split: prod.splits) (metis snd_conv)+

lemma cgroup_remove_fs_only: "fs_only w (phronesis_cgroup_remove c w)"
  by (simp add: phronesis_cgroup_remove_def)

lemma cgroup_create_INVAL: "phronesis_cgroup_create None a n w = (ERR_INVAL, [], w)"
  "phronesis_cgroup_create r None n w = (ERR_INVAL, [], w)" "phronesis_cgroup_create r a 0 w = (ERR_INVAL, [], w)"
  by (simp_all add: phronesis_cgroup_create_def)

text \<open>A path that comes out is the agent's own directory name below the base, fits the buffer, and was
  a directory when the call returned.\<close>

lemma cgroup_create_path:
  assumes "phronesis_cgroup_create r (Some a) n w = (c, p, w')" "p \<noteq> []"
  shows "c = OK \<and> length p < n \<and> suffix (''/phronesis-'' @ a) p \<and> (\<exists>d. stat w' p = StatDir d)"
  using assms
  by (auto simp: phronesis_cgroup_create_def Let_def snprintf_fits_def suffix_def dest: ensure_dir_ok
      split: if_splits option.splits prod.splits)

lemma cgroup_create_frame:
  "host_frame w (snd (snd (phronesis_cgroup_create r a n w)))
   \<and> w_sent (snd (snd (phronesis_cgroup_create r a n w))) = w_sent w"
proof -
  have e: "host_frame w (snd (phronesis_paths_ensure_dir q m w1)) \<and> w_sent (snd (phronesis_paths_ensure_dir q m w1)) = w_sent w"
    if "host_frame w w1 \<and> w_sent w1 = w_sent w" for q m w1
    using that ensure_dir_dirs_added [of q m w1, OF surjective_pairing]
    by (auto simp: dirs_added_def fs_only_sel intro: host_frame_trans fs_only_host_frame)
  have e1: "host_frame w (snd (phronesis_paths_ensure_dir q m w)) \<and> w_sent (snd (phronesis_paths_ensure_dir q m w)) = w_sent w"
    for q m by (rule e) simp
  note e2 = e [OF write_str_frame]
  show ?thesis
    by (auto simp: phronesis_cgroup_create_def Let_def case_prod_beta e1 e2 split: option.splits)
qed

end
