(* ===== verification/Slots.thy ===== *)
theory Slots
  imports Codes Cgroup
begin

text \<open>
  The agent slots of src/supervisor.c: the slot and supervisor structures, the checks on names, the
  slot file that persists a slot, and the table of sixteen slots in memory. A slot pointer of the
  code is an index into the table. Strings held in a slot are the contents of its fixed buffers.
\<close>

section \<open>Data\<close>

definition PHRONESIS_MAX_AGENTS :: nat where "PHRONESIS_MAX_AGENTS = 16"

record agent_slot =
  in_use :: bool
  slot_id :: string
  slot_state :: agent_state
  slot_pid :: pid_t
  slot_pgid :: pid_t
  exit_status :: int
  slot_mode :: string
  slot_workspace :: string
  cgroup_path :: string

definition zero_slot :: agent_slot where
  "zero_slot =
     \<lparr>in_use = False, slot_id = [], slot_state = AGENT_STOPPED, slot_pid = 0, slot_pgid = 0, exit_status = 0,
      slot_mode = [], slot_workspace = [], cgroup_path = []\<rparr>"

record supervisor =
  state_dir :: string
  runtime_dir :: string
  action_log :: string
  agents_dir :: string
  agents :: "agent_slot list"

section \<open>Names\<close>

definition id_char :: "char \<Rightarrow> bool" where
  "id_char c =
     (let n = (of_char c :: nat)
      in 97 \<le> n \<and> n \<le> 122 \<or> 65 \<le> n \<and> n \<le> 90 \<or> 48 \<le> n \<and> n \<le> 57 \<or> c = CHR ''-'' \<or> c = CHR ''_'')"

definition valid_id :: "cstring_opt \<Rightarrow> bool" where
  "valid_id aid =
     (case aid of
        None \<Rightarrow> False
      | Some s \<Rightarrow> s \<noteq> [] \<and> length s < PHRONESIS_ID_MAX \<and> list_all id_char s)"

definition valid_token :: "cstring_opt \<Rightarrow> nat \<Rightarrow> bool" where
  "valid_token s maxlen =
     (case s of
        None \<Rightarrow> False
      | Some t \<Rightarrow>
          t \<noteq> [] \<and> length t < maxlen
          \<and> list_all (\<lambda>c. \<not> ((of_char c :: nat) \<le> 32 \<or> (of_char c :: nat) = 127)) t)"

section \<open>Slot files\<close>

definition slot_path :: "supervisor \<Rightarrow> string \<Rightarrow> nat \<Rightarrow> string option" where
  "slot_path s aid n =
     (let p = agents_dir s @ ''/'' @ aid @ ''.slot'' in if \<not> snprintf_fits n p then None else Some p)"

definition or_dash :: "string \<Rightarrow> string" where
  "or_dash s = (if s \<noteq> [] then s else ''-'')"

definition slot_line :: "agent_slot \<Rightarrow> string" where
  "slot_line a =
     slot_id a @ '' '' @ show_int (agent_state_int (slot_state a)) @ '' '' @ show_int (slot_pid a) @ '' '' @
     show_int (slot_pgid a) @ '' '' @ show_int (exit_status a) @ '' '' @ or_dash (slot_mode a) @ '' '' @
     or_dash (slot_workspace a) @ [newline]"

text \<open>Opening the temporary file: a name left behind by an earlier writer is removed once.\<close>

definition open_tmp :: "string \<Rightarrow> world \<Rightarrow> bool \<times> world" where
  "open_tmp tmp w =
     (case fopen_wx tmp w of
        (None, w1) \<Rightarrow> (True, w1)
      | (Some EEXIST, w1) \<Rightarrow>
          (case fopen_wx tmp (unlink tmp w1) of (None, w2) \<Rightarrow> (True, w2) | (Some _, w2) \<Rightarrow> (False, w2))
      | (Some _, w1) \<Rightarrow> (False, w1))"

text \<open>The write itself: the line goes to the temporary file, which is renamed over the slot file; on a
  failure the temporary file is removed.\<close>

definition write_and_rename :: "string \<Rightarrow> string \<Rightarrow> bytes \<Rightarrow> world \<Rightarrow> rc \<times> world" where
  "write_and_rename tmp path line w =
     (case open_tmp tmp w of
        (False, w1) \<Rightarrow> (ERR_IO, w1)
      | (True, w1) \<Rightarrow>
          (case fput tmp line w1 of
             (PutOk, w2) \<Rightarrow>
               (case rename tmp path w2 of
                  (True, w3) \<Rightarrow> (OK, w3)
                | (False, w3) \<Rightarrow> (ERR_IO, unlink tmp w3))
           | (_, w2) \<Rightarrow> (ERR_IO, unlink tmp w2)))"

definition write_slot :: "supervisor \<Rightarrow> agent_slot \<Rightarrow> world \<Rightarrow> rc \<times> world" where
  "write_slot s a w =
     (case slot_path s (slot_id a) PHRONESIS_PATH_MAX of
        None \<Rightarrow> (ERR_INVAL, w)
      | Some path \<Rightarrow>
          let tmp = path @ ''.tmp.'' @ show_int (w_getpid w)
          in if \<not> snprintf_fits PHRONESIS_PATH_MAX tmp then (ERR_INVAL, w)
             else write_and_rename tmp path (slot_line a) w)"

text \<open>The seven conversions of \<open>fscanf\<close>; \<open>None\<close> when fewer match.\<close>

definition scan_slot :: "bytes \<Rightarrow> (string \<times> int \<times> int \<times> int \<times> int \<times> string \<times> string) option" where
  "scan_slot f =
     Option.bind (scan_word 63 f) (\<lambda>(got_id, f1).
     Option.bind (scan_int f1) (\<lambda>(state, f2).
     Option.bind (scan_int f2) (\<lambda>(pid, f3).
     Option.bind (scan_int f3) (\<lambda>(pgid, f4).
     Option.bind (scan_int f4) (\<lambda>(exit_st, f5).
     Option.bind (scan_word 31 f5) (\<lambda>(mode, f6).
     Option.bind (scan_word 511 f6) (\<lambda>(workspace, _).
       Some (got_id, state, pid, pgid, exit_st, mode, workspace))))))))"

definition read_slot_file :: "supervisor \<Rightarrow> string \<Rightarrow> world \<Rightarrow> rc + agent_slot" where
  "read_slot_file s aid w =
     (case slot_path s aid PHRONESIS_PATH_MAX of
        None \<Rightarrow> Inl ERR_INVAL
      | Some path \<Rightarrow>
          (case fopen_r w path of
             None \<Rightarrow> Inl ERR_NOTFOUND
           | Some f \<Rightarrow>
               (case scan_slot f of
                  None \<Rightarrow> Inl ERR_IO
                | Some (got_id, state, pid, pgid, exit_st, mode, workspace) \<Rightarrow>
                    if got_id \<noteq> aid then Inl ERR_IO
                    else
                      Inr (zero_slot\<lparr>in_use := True, slot_id := snprintf_buf PHRONESIS_ID_MAX got_id,
                             slot_state := agent_state_of_int state, slot_pid := pid, slot_pgid := pgid,
                             exit_status := exit_st,
                             slot_mode := (if mode \<noteq> ''-'' then snprintf_buf PHRONESIS_MODE_MAX mode else []),
                             slot_workspace :=
                               (if workspace \<noteq> ''-'' then snprintf_buf PHRONESIS_PATH_MAX workspace else [])\<rparr>))))"

section \<open>The table in memory\<close>

text \<open>The two searches over the array: the first index from \<open>i\<close> on that satisfies the test.\<close>

fun find_index :: "('a \<Rightarrow> bool) \<Rightarrow> nat \<Rightarrow> 'a list \<Rightarrow> nat option" where
  "find_index P i [] = None"
| "find_index P i (x # xs) = (if P x then Some i else find_index P (Suc i) xs)"

definition find_mem :: "supervisor \<Rightarrow> string \<Rightarrow> nat option" where
  "find_mem s aid = find_index (\<lambda>a. in_use a \<and> slot_id a = aid) 0 (agents s)"

definition set_slot :: "nat \<Rightarrow> agent_slot \<Rightarrow> supervisor \<Rightarrow> supervisor" where
  "set_slot i a s = s\<lparr>agents := (agents s)[i := a]\<rparr>"

definition alloc_mem :: "supervisor \<Rightarrow> (nat \<times> supervisor) option" where
  "alloc_mem s =
     (case find_index (\<lambda>a. \<not> in_use a) 0 (agents s) of
        None \<Rightarrow> None
      | Some i \<Rightarrow> Some (i, set_slot i (zero_slot\<lparr>in_use := True, exit_status := -1\<rparr>) s))"

definition load_agent :: "supervisor \<Rightarrow> string \<Rightarrow> world \<Rightarrow> (rc + nat) \<times> supervisor" where
  "load_agent s aid w =
     (case find_mem s aid of
        Some i \<Rightarrow> (Inr i, s)
      | None \<Rightarrow>
          (case read_slot_file s aid w of
             Inl rc \<Rightarrow> (Inl rc, s)
           | Inr disk \<Rightarrow>
               (case alloc_mem s of
                  None \<Rightarrow> (Inl ERR_STATE, s)
                | Some (i, s1) \<Rightarrow> (Inr i, set_slot i disk s1))))"

text \<open>The allocation that \<open>start\<close> and \<open>bind\<close> make for an agent with no slot: \<open>alloc_mem\<close> and the copy of
  the id.\<close>

definition alloc_named :: "supervisor \<Rightarrow> string \<Rightarrow> (nat \<times> supervisor) option" where
  "alloc_named s aid =
     (case alloc_mem s of
        None \<Rightarrow> None
      | Some (i, s1) \<Rightarrow> Some (i, set_slot i ((agents s1 ! i)\<lparr>slot_id := snprintf_buf PHRONESIS_ID_MAX aid\<rparr>) s1))"

section \<open>The slot file round trip\<close>

text \<open>What every slot in use satisfies: its texts fit their buffers and hold no white space, and its
  state is a value the enum cast can produce.\<close>

definition text_ok :: "nat \<Rightarrow> string \<Rightarrow> bool" where
  "text_ok n t \<longleftrightarrow> length t < n \<and> (\<forall>c \<in> set t. \<not> is_space c)"

definition slot_ok :: "agent_slot \<Rightarrow> bool" where
  "slot_ok a \<longleftrightarrow>
     valid_id (Some (slot_id a)) \<and> text_ok PHRONESIS_MODE_MAX (slot_mode a)
     \<and> text_ok PHRONESIS_PATH_MAX (slot_workspace a) \<and> length (cgroup_path a) < PHRONESIS_PATH_MAX
     \<and> agent_state_of_int (agent_state_int (slot_state a)) = slot_state a"

lemma id_char_not_space: "id_char c \<Longrightarrow> \<not> is_space c"
  by (auto simp: id_char_def is_space_def Let_def)

lemma valid_id_text_ok: "valid_id (Some s) \<Longrightarrow> s \<noteq> [] \<and> text_ok PHRONESIS_ID_MAX s"
  by (auto simp: valid_id_def text_ok_def list_all_iff dest: id_char_not_space)

lemma valid_token_text_ok: "valid_token (Some s) n \<Longrightarrow> text_ok n s"
  by (auto simp: valid_token_def text_ok_def list_all_iff is_space_def)

lemma text_ok_Nil [simp]: "0 < n \<Longrightarrow> text_ok n []"
  by (simp add: text_ok_def)

lemma text_ok_or_dash: "text_ok n s \<Longrightarrow> 1 < n \<Longrightarrow> or_dash s \<noteq> [] \<and> text_ok n (or_dash s)"
  by (auto simp: text_ok_def or_dash_def is_space_def)

lemma scan_word_text:
  "x \<noteq> [] \<Longrightarrow> text_ok (Suc w) x \<Longrightarrow> r = [] \<or> is_space (hd r) \<Longrightarrow> scan_word w (x @ r) = Some (x, r)"
  using scan_word_eq [of x w r "[]"] by (simp add: text_ok_def)

lemma scan_word_space_text:
  "x \<noteq> [] \<Longrightarrow> text_ok (Suc w) x \<Longrightarrow> r = [] \<or> is_space (hd r) \<Longrightarrow> scan_word w (CHR '' '' # x @ r) = Some (x, r)"
  using scan_word_eq [of x w r "'' ''"] by (simp add: text_ok_def is_space_def)

lemma is_space_consts [simp]: "is_space CHR '' ''" "is_space newline" "\<not> is_digit CHR '' ''"
  by (simp_all add: is_space_def newline_def is_digit_def)

lemma scan_slot_line:
  assumes "slot_ok a"
  shows "scan_slot (slot_line a) =
    Some (slot_id a, agent_state_int (slot_state a), slot_pid a, slot_pgid a, exit_status a,
          or_dash (slot_mode a), or_dash (slot_workspace a))"
proof -
  have aid: "slot_id a \<noteq> []" "text_ok (Suc 63) (slot_id a)"
    using assms valid_id_text_ok by (auto simp: slot_ok_def PHRONESIS_ID_MAX_def)
  have m: "or_dash (slot_mode a) \<noteq> []" "text_ok (Suc 31) (or_dash (slot_mode a))"
    using assms text_ok_or_dash [of 32] by (auto simp: slot_ok_def PHRONESIS_MODE_MAX_def)
  have ws: "or_dash (slot_workspace a) \<noteq> []" "text_ok (Suc 511) (or_dash (slot_workspace a))"
    using assms text_ok_or_dash [of 512] by (auto simp: slot_ok_def PHRONESIS_PATH_MAX_def)
  show ?thesis
    by (simp add: scan_slot_def slot_line_def scan_word_text [OF aid] scan_word_space_text [OF m]
        scan_word_space_text [OF ws] scan_show_int)
qed

lemma slot_path_Some: "slot_path s aid n = Some p \<Longrightarrow> p = agents_dir s @ ''/'' @ aid @ ''.slot''"
  by (auto simp: slot_path_def Let_def split: if_splits)

lemma open_tmp_ok:
  "open_tmp tmp w = (True, w') \<Longrightarrow> fs_only w w' \<and> w_fs w' (w_canon w tmp) = Some (Reg [])"
  by (auto simp: open_tmp_def fopen_wx_def unlink_def
      split: if_splits option.splits node.splits errno.splits prod.splits)

lemma open_tmp_fs_only: "fs_only w (snd (open_tmp tmp w))"
proof -
  obtain e w1 where o: "fopen_wx tmp w = (e, w1)" by fastforce
  then have f: "fs_only w w1" using fs_only_ops(4) [of w tmp] by simp
  have g: "fs_only w (snd (fopen_wx tmp (unlink tmp w1)))"
    using f fs_only_trans [OF _ fs_only_trans [OF fs_only_ops(3) fs_only_ops(4)]] by blast
  show ?thesis using f g o
    by (auto simp: open_tmp_def split: option.splits errno.splits prod.splits)
qed

lemma fput_fs_only: "fput p d w = (r, w') \<Longrightarrow> fs_only w w'"
  using fs_only_ops(6) [of w p d] by simp

lemma rename_fs_only: "rename p q w = (r, w') \<Longrightarrow> fs_only w w'"
  using fs_only_rename [of w p q] by simp

lemma write_and_rename_fs_only: "fs_only w (snd (write_and_rename tmp path line w))"
proof -
  obtain ok w1 where o: "open_tmp tmp w = (ok, w1)" by fastforce
  have f1: "fs_only w w1" using open_tmp_fs_only [of w tmp] o by simp
  obtain r w2 where p: "fput tmp line w1 = (r, w2)" by fastforce
  have f2: "fs_only w w2" using f1 fput_fs_only [OF p] by (rule fs_only_trans)
  obtain b w3 where q: "rename tmp path w2 = (b, w3)" by fastforce
  have f3: "fs_only w w3" using f2 rename_fs_only [OF q] by (rule fs_only_trans)
  have u: "fs_only w v \<longrightarrow> fs_only w (unlink tmp v)" for v using fs_only_trans fs_only_ops(3) by blast
  show ?thesis using f1 f2 f3 u o p q by (cases ok; cases r; cases b) (simp_all add: write_and_rename_def)
qed

lemma write_slot_fs_only: "fs_only w (snd (write_slot s a w))"
  using write_and_rename_fs_only by (simp add: write_slot_def Let_def split: option.split)

lemma write_and_rename_ok:
  assumes "write_and_rename tmp path line w = (OK, w')"
  shows "w_fs w' (w_canon w path) = Some (Reg line)"
proof -
  obtain ok w1 where o: "open_tmp tmp w = (ok, w1)" by fastforce
  obtain r w2 where p: "fput tmp line w1 = (r, w2)" by fastforce
  obtain b w3 where q: "rename tmp path w2 = (b, w3)" by fastforce
  have ok: "ok" "r = PutOk" "b" "w3 = w'"
    using assms o p q by (cases ok; cases r; cases b; simp add: write_and_rename_def)+
  have f1: "fs_only w w1" "w_fs w1 (w_canon w tmp) = Some (Reg [])" using open_tmp_ok [of tmp w w1] o ok(1) by simp_all
  have c: "w_canon w1 = w_canon w" "w_canon w2 = w_canon w"
    using fs_only_sel(1) f1(1) fput_fs_only [OF p] by metis+
  have "w_fs w2 (w_canon w tmp) = Some (Reg line)"
    using p ok(2) f1(2) c by (auto simp: fput_def put_bytes_def split: if_splits)
  then show ?thesis
    using q ok(3,4) c by (auto simp: rename_def split: if_splits option.splits node.splits)
qed

lemma write_slot_ok:
  assumes "write_slot s a w = (OK, w')"
  shows "\<exists>p. slot_path s (slot_id a) PHRONESIS_PATH_MAX = Some p \<and> w_fs w' (w_canon w p) = Some (Reg (slot_line a))"
  using assms write_and_rename_ok by (auto simp: write_slot_def Let_def split: option.splits if_splits)

text \<open>What a slot becomes when it goes through its file: the cgroup path is not stored, and a mode or
  workspace that is the placeholder itself reads back as empty.\<close>

definition undash :: "string \<Rightarrow> string" where
  "undash s = (if s = ''-'' then [] else s)"

definition stored :: "agent_slot \<Rightarrow> agent_slot" where
  "stored a = a\<lparr>in_use := True, slot_mode := undash (slot_mode a), slot_workspace := undash (slot_workspace a), cgroup_path := []\<rparr>"

lemma undash_or_dash: "(if or_dash s \<noteq> ''-'' then or_dash s else []) = undash s"
  by (simp add: or_dash_def undash_def)

lemma text_ok_snprintf: "text_ok n s \<Longrightarrow> snprintf_buf n s = s"
  by (auto simp: text_ok_def snprintf_buf_def)

lemma read_stored:
  assumes "slot_ok a" "slot_path s (slot_id a) PHRONESIS_PATH_MAX = Some p" "fopen_r w p = Some (slot_line a)"
  shows "read_slot_file s (slot_id a) w = Inr (stored a)"
proof -
  have t: "text_ok 64 (slot_id a)" "text_ok 32 (or_dash (slot_mode a))" "text_ok 512 (or_dash (slot_workspace a))"
    using assms(1) valid_id_text_ok text_ok_or_dash [of 32 "slot_mode a"] text_ok_or_dash [of 512 "slot_workspace a"]
    by (auto simp: slot_ok_def PHRONESIS_ID_MAX_def PHRONESIS_MODE_MAX_def PHRONESIS_PATH_MAX_def)
  have st: "agent_state_of_int (agent_state_int (slot_state a)) = slot_state a" using assms(1) by (simp add: slot_ok_def)
  show ?thesis
    using assms(2,3) scan_slot_line [OF assms(1)] t st
    by (simp add: read_slot_file_def text_ok_snprintf PHRONESIS_ID_MAX_def PHRONESIS_MODE_MAX_def
        PHRONESIS_PATH_MAX_def undash_or_dash stored_def zero_slot_def cong: if_cong)
qed

section \<open>The table as a map\<close>

definition view :: "supervisor \<Rightarrow> string \<Rightarrow> agent_slot option" where
  "view s k = map_option (\<lambda>i. agents s ! i) (find_mem s k)"

definition slot_ref :: "supervisor \<Rightarrow> string \<Rightarrow> nat \<Rightarrow> bool" where
  "slot_ref s k i \<longleftrightarrow> i < length (agents s) \<and> in_use (agents s ! i) \<and> slot_id (agents s ! i) = k"

definition sup_ok :: "supervisor \<Rightarrow> bool" where
  "sup_ok s \<longleftrightarrow>
     length (agents s) = PHRONESIS_MAX_AGENTS
     \<and> (\<forall>k i. slot_ref s k i \<longrightarrow> slot_ok (agents s ! i))
     \<and> (\<forall>k i j. slot_ref s k i \<longrightarrow> slot_ref s k j \<longrightarrow> i = j)"

lemma find_index_None: "find_index P i xs = None \<longleftrightarrow> (\<forall>x \<in> set xs. \<not> P x)"
  by (induction xs arbitrary: i) auto

lemma find_index_Some:
  "find_index P i xs = Some j \<Longrightarrow> i \<le> j \<and> j < i + length xs \<and> P (xs ! (j - i))"
proof (induction xs arbitrary: i)
  case Nil
  then show ?case by simp
next
  case (Cons x xs)
  show ?case
  proof (cases "P x")
    case True
    with Cons.prems show ?thesis by simp
  next
    case False
    with Cons.prems have "Suc i \<le> j \<and> j < Suc i + length xs \<and> P (xs ! (j - Suc i))"
      by (intro Cons.IH) simp
    then show ?thesis by (auto simp: nth_Cons')
  qed
qed

lemma find_mem_ref: "find_mem s k = Some i \<Longrightarrow> slot_ref s k i"
  using find_index_Some [of _ 0 "agents s" i] by (auto simp: find_mem_def slot_ref_def)

lemma find_mem_None: "find_mem s k = None \<longleftrightarrow> (\<forall>i. \<not> slot_ref s k i)"
  by (auto simp: find_mem_def find_index_None slot_ref_def all_set_conv_all_nth)

lemma sup_ok_find: "sup_ok s \<Longrightarrow> find_mem s k = Some i \<longleftrightarrow> slot_ref s k i"
  by (metis find_mem_None find_mem_ref not_Some_eq sup_ok_def)

lemma view_ref: "sup_ok s \<Longrightarrow> slot_ref s k i \<Longrightarrow> view s k = Some (agents s ! i)"
  by (simp add: view_def sup_ok_find [symmetric])

lemma view_SomeD: "sup_ok s \<Longrightarrow> view s k = Some a \<Longrightarrow> slot_ok a \<and> slot_id a = k \<and> in_use a"
  by (auto simp: view_def sup_ok_def slot_ref_def dest!: find_mem_ref)

lemma view_None: "view s k = None \<longleftrightarrow> (\<forall>i. \<not> slot_ref s k i)"
  by (simp add: view_def find_mem_None)

lemma set_slot_simps [simp]:
  "agents (set_slot i a s) = (agents s)[i := a]" "agents_dir (set_slot i a s) = agents_dir s"
  "action_log (set_slot i a s) = action_log s" "runtime_dir (set_slot i a s) = runtime_dir s"
  "state_dir (set_slot i a s) = state_dir s" "set_slot i a (set_slot i b s) = set_slot i a s"
  by (simp_all add: set_slot_def)

lemma slot_ref_set:
  "slot_ref (set_slot i a s) k j \<longleftrightarrow>
     (if i = j then i < length (agents s) \<and> in_use a \<and> slot_id a = k else slot_ref s k j)"
  by (auto simp: slot_ref_def)

text \<open>Writing a slot through a reference: the entry is free or already belongs to the same agent.\<close>

lemma set_slot_update:
  assumes ok: "sup_ok s" and i: "i < length (agents s)" and a: "slot_ok a" "in_use a" "slot_id a = k"
    and own: "\<And>j. slot_ref s k j \<Longrightarrow> j = i" and free: "\<And>k'. slot_ref s k' i \<Longrightarrow> k' = k"
  shows "sup_ok (set_slot i a s)" "view (set_slot i a s) = (view s)(k \<mapsto> a)" "slot_ref (set_slot i a s) k i"
proof -
  show ref: "slot_ref (set_slot i a s) k i" using i a by (simp add: slot_ref_set)
  show ok': "sup_ok (set_slot i a s)"
    unfolding sup_ok_def
  proof (intro conjI allI impI)
    show "length (agents (set_slot i a s)) = PHRONESIS_MAX_AGENTS" using ok by (simp add: sup_ok_def)
    show "slot_ok (agents (set_slot i a s) ! j)" if "slot_ref (set_slot i a s) k' j" for k' j
      using that ok a i by (cases "i = j") (auto simp: slot_ref_set sup_ok_def)
    show "j = l" if "slot_ref (set_slot i a s) k' j" "slot_ref (set_slot i a s) k' l" for k' j l
      using that ok own a by (auto simp: slot_ref_set sup_ok_def split: if_splits)
  qed
  show "view (set_slot i a s) = (view s)(k \<mapsto> a)"
  proof
    fix k'
    show "view (set_slot i a s) k' = ((view s)(k \<mapsto> a)) k'"
    proof (cases "k' = k")
      case True
      then show ?thesis using view_ref [OF ok' ref] i by simp
    next
      case ne: False
      show ?thesis
      proof (cases "view s k'")
        case None
        then have "view (set_slot i a s) k' = None" using ne a by (auto simp: view_None slot_ref_set)
        then show ?thesis using None ne by simp
      next
        case (Some b)
        then obtain j where j: "slot_ref s k' j" using view_None by (metis option.distinct(1))
        then have "j \<noteq> i" using free ne by blast
        then have "slot_ref (set_slot i a s) k' j" using j by (simp add: slot_ref_set)
        then have "view (set_slot i a s) k' = Some (agents s ! j)" using view_ref [OF ok'] \<open>j \<noteq> i\<close> by simp
        then show ?thesis using ne view_ref [OF ok j] by simp
      qed
    qed
  qed
qed

text \<open>The interface the supervisor operations use: load an agent's slot, then write through the
  reference. The laws say that both act on the entry of that agent only.\<close>

locale keyed_table =
  fixes inv :: "'s \<Rightarrow> bool"
    and look :: "'s \<Rightarrow> string \<Rightarrow> 'a option"
    and ref :: "'s \<Rightarrow> string \<Rightarrow> nat \<Rightarrow> bool"
    and good :: "string \<Rightarrow> 'a \<Rightarrow> bool"
    and key_ok :: "string \<Rightarrow> bool"
    and load :: "'s \<Rightarrow> string \<Rightarrow> 'w \<Rightarrow> (rc + nat) \<times> 's"
    and put :: "nat \<Rightarrow> 'a \<Rightarrow> 's \<Rightarrow> 's"
  assumes load_found: "inv s \<Longrightarrow> key_ok k \<Longrightarrow> load s k w = (Inr i, s') \<Longrightarrow>
      inv s' \<and> ref s' k i \<and> (\<exists>a. good k a \<and> look s' = (look s)(k \<mapsto> a))"
    and load_failed: "load s k w = (Inl e, s') \<Longrightarrow> s' = s"
    and load_hit: "inv s \<Longrightarrow> look s k = Some a \<Longrightarrow> \<exists>i. load s k w = (Inr i, s)"
    and put_law: "inv s \<Longrightarrow> ref s k i \<Longrightarrow> good k a \<Longrightarrow>
      inv (put i a s) \<and> ref (put i a s) k i \<and> look (put i a s) = (look s)(k \<mapsto> a)"
begin

text \<open>A load followed by a write is an update of the map at that key, whatever the table held.\<close>

lemma load_put:
  assumes "inv s" "key_ok k" "load s k w = (Inr i, s')" "good k a"
  shows "inv (put i a s') \<and> look (put i a s') = (look s)(k \<mapsto> a)"
  using load_found [OF assms(1-3)] put_law [OF _ _ assms(4), of s' i] by auto

text \<open>No load touches the entry of another agent, and a second load finds the slot at once.\<close>

lemma load_frame: "inv s \<Longrightarrow> key_ok k \<Longrightarrow> load s k w = (r, s') \<Longrightarrow> k' \<noteq> k \<Longrightarrow> look s' k' = look s k'"
  using load_found [of s k w _ s'] load_failed [of s k w _ s'] by (cases r) auto

lemma load_again: "inv s \<Longrightarrow> key_ok k \<Longrightarrow> load s k w = (Inr i, s') \<Longrightarrow> \<exists>j. load s' k w' = (Inr j, s')"
  using load_found load_hit by (metis fun_upd_same)

lemma load_inv: "inv s \<Longrightarrow> key_ok k \<Longrightarrow> load s k w = (r, s') \<Longrightarrow> inv s'"
  using load_found [of s k w _ s'] load_failed [of s k w _ s'] by (cases r) auto

end

definition good_slot :: "string \<Rightarrow> agent_slot \<Rightarrow> bool" where
  "good_slot k a \<longleftrightarrow> slot_ok a \<and> in_use a \<and> slot_id a = k"

lemma sup_ok_own: "sup_ok s \<Longrightarrow> slot_ref s k i \<Longrightarrow> slot_ref s k j \<Longrightarrow> j = i"
  by (auto simp: sup_ok_def)

lemma slot_ref_key: "slot_ref s k i \<Longrightarrow> slot_ref s k' i \<Longrightarrow> k' = k"
  by (simp add: slot_ref_def)

lemma put_slot:
  assumes "sup_ok s" "slot_ref s k i" "good_slot k a"
  shows "sup_ok (set_slot i a s)" "view (set_slot i a s) = (view s)(k \<mapsto> a)" "slot_ref (set_slot i a s) k i"
proof -
  have i: "i < length (agents s)" using assms(2) by (simp add: slot_ref_def)
  have g: "slot_ok a" "in_use a" "slot_id a = k" using assms(3) by (simp_all add: good_slot_def)
  show "sup_ok (set_slot i a s)" "view (set_slot i a s) = (view s)(k \<mapsto> a)" "slot_ref (set_slot i a s) k i"
    by (rule set_slot_update [OF assms(1) i g sup_ok_own [OF assms(1,2)] slot_ref_key [OF assms(2)]]; assumption)+
qed

lemma alloc_mem_free:
  assumes "alloc_mem s = Some (i, s1)"
  shows "i < length (agents s) \<and> \<not> in_use (agents s ! i) \<and> s1 = set_slot i (zero_slot\<lparr>in_use := True, exit_status := -1\<rparr>) s"
  using assms find_index_Some [of _ 0 "agents s" i] by (auto simp: alloc_mem_def split: option.splits)

text \<open>Filling a freshly allocated entry.\<close>

lemma alloc_put:
  assumes ok: "sup_ok s" and none: "find_mem s k = None" and al: "alloc_mem s = Some (i, s1)" and a: "good_slot k a"
  shows "sup_ok (set_slot i a s1)" "view (set_slot i a s1) = (view s)(k \<mapsto> a)" "slot_ref (set_slot i a s1) k i"
proof -
  have f: "i < length (agents s)" "\<not> in_use (agents s ! i)" "set_slot i a s1 = set_slot i a s"
    using alloc_mem_free [OF al] by simp_all
  have own: "\<And>j. slot_ref s k j \<Longrightarrow> j = i" using none by (simp add: find_mem_None)
  have free: "\<And>k'. slot_ref s k' i \<Longrightarrow> k' = k" using f(2) by (simp add: slot_ref_def)
  have g: "slot_ok a" "in_use a" "slot_id a = k" using a by (simp_all add: good_slot_def)
  show "sup_ok (set_slot i a s1)" "view (set_slot i a s1) = (view s)(k \<mapsto> a)" "slot_ref (set_slot i a s1) k i"
    unfolding f(3) by (rule set_slot_update [OF ok f(1) g own free]; assumption)+
qed

lemma scan_word_bound: "scan_word n f = Some (x, r) \<Longrightarrow> x \<noteq> [] \<and> text_ok (Suc n) x"
proof -
  let ?t = "takeWhile (\<lambda>c. \<not> is_space c) (dropWhile is_space f)"
  assume "scan_word n f = Some (x, r)"
  then have x: "x = take n ?t" "x \<noteq> []" by (auto simp: scan_word_def Let_def split: if_splits)
  have "\<not> is_space c" if "c \<in> set (take n ?t)" for c
    using set_takeWhileD [OF in_set_takeD [OF that]] by (rule conjunct2)
  then have "\<forall>c \<in> set x. \<not> is_space c" unfolding x(1) by blast
  moreover have "length x < Suc n" unfolding x(1) by simp
  ultimately show ?thesis using x(2) unfolding text_ok_def by blast
qed

lemma scan_slot_bound:
  assumes "scan_slot f = Some (x, st, p, g, e, m, ws)"
  shows "text_ok 64 x" "text_ok 32 m" "text_ok 512 ws"
proof -
  have "\<exists>f0 r0 f1 r1 f2 r2. scan_word 63 f0 = Some (x, r0) \<and> scan_word 31 f1 = Some (m, r1) \<and> scan_word 511 f2 = Some (ws, r2)"
    using assms by (simp add: scan_slot_def bind_eq_Some_conv split_beta) (metis prod.collapse)
  then show "text_ok 64 x" "text_ok 32 m" "text_ok 512 ws" by (auto dest!: scan_word_bound)
qed

lemma agent_state_of_int_stable [simp]:
  "agent_state_of_int (agent_state_int (agent_state_of_int n)) = agent_state_of_int n"
  by simp

lemma read_slot_good:
  assumes "read_slot_file s k w = Inr a" "valid_id (Some k)"
  shows "good_slot k a"
proof -
  obtain f x st p g e m ws where sc: "scan_slot f = Some (x, st, p, g, e, m, ws)" and x: "x = k"
    and a: "a = zero_slot\<lparr>in_use := True, slot_id := snprintf_buf PHRONESIS_ID_MAX x,
        slot_state := agent_state_of_int st, slot_pid := p, slot_pgid := g, exit_status := e,
        slot_mode := (if m \<noteq> ''-'' then snprintf_buf PHRONESIS_MODE_MAX m else []),
        slot_workspace := (if ws \<noteq> ''-'' then snprintf_buf PHRONESIS_PATH_MAX ws else [])\<rparr>"
    using assms(1) by (auto simp: read_slot_file_def split: option.splits if_splits)
  note b = scan_slot_bound [OF sc]
  have i: "snprintf_buf 64 k = k" "snprintf_buf 32 m = m" "snprintf_buf 512 ws = ws"
    using b x by (auto intro: text_ok_snprintf)
  show ?thesis
    using assms(2) b i unfolding a x
    by (simp add: good_slot_def slot_ok_def zero_slot_def PHRONESIS_ID_MAX_def PHRONESIS_MODE_MAX_def PHRONESIS_PATH_MAX_def)
qed

lemma load_slot_found:
  assumes ok: "sup_ok s" and k: "valid_id (Some k)" and ld: "load_agent s k w = (Inr i, s')"
  shows "sup_ok s' \<and> slot_ref s' k i \<and> (\<exists>a. good_slot k a \<and> view s' = (view s)(k \<mapsto> a))"
proof (cases "find_mem s k")
  case (Some j)
  then have j: "i = j" "s' = s" "slot_ref s k i" using ld by (auto simp: load_agent_def dest: find_mem_ref)
  have v: "view s k = Some (agents s ! i)" using view_ref [OF ok j(3)] .
  have "good_slot k (agents s ! i)" using view_SomeD [OF ok v] by (simp add: good_slot_def)
  moreover have "view s = (view s)(k \<mapsto> agents s ! i)" using v by (metis fun_upd_triv)
  ultimately show ?thesis using j ok by blast
next
  case None
  then obtain a s1 where a: "read_slot_file s k w = Inr a" and al: "alloc_mem s = Some (i, s1)" and s': "s' = set_slot i a s1"
    using ld by (auto simp: load_agent_def split: sum.splits option.splits)
  show ?thesis using alloc_put [OF ok None al read_slot_good [OF a k]] read_slot_good [OF a k] s' by blast
qed

interpretation table: keyed_table sup_ok view slot_ref good_slot "\<lambda>k. valid_id (Some k)" load_agent set_slot
proof
  fix s s' :: supervisor and k :: string and w :: world and i :: nat and a :: agent_slot and e :: rc
  show "sup_ok s \<Longrightarrow> valid_id (Some k) \<Longrightarrow> load_agent s k w = (Inr i, s') \<Longrightarrow>
      sup_ok s' \<and> slot_ref s' k i \<and> (\<exists>a. good_slot k a \<and> view s' = (view s)(k \<mapsto> a))"
    by (rule load_slot_found)
  show "load_agent s k w = (Inl e, s') \<Longrightarrow> s' = s"
    by (auto simp: load_agent_def split: option.splits sum.splits)
  show "sup_ok s \<Longrightarrow> view s k = Some a \<Longrightarrow> \<exists>i. load_agent s k w = (Inr i, s)"
    by (auto simp: view_def load_agent_def)
  show "sup_ok s \<Longrightarrow> slot_ref s k i \<Longrightarrow> good_slot k a \<Longrightarrow>
      sup_ok (set_slot i a s) \<and> slot_ref (set_slot i a s) k i \<and> view (set_slot i a s) = (view s)(k \<mapsto> a)"
    using put_slot by blast
qed

lemma set_slot_dirs: "load_agent s k w = (r, s') \<Longrightarrow>
    agents_dir s' = agents_dir s \<and> action_log s' = action_log s \<and> runtime_dir s' = runtime_dir s \<and> state_dir s' = state_dir s"
  by (auto simp: load_agent_def dest!: alloc_mem_free split: option.splits sum.splits)

section \<open>Properties\<close>

text \<open>C33: A slot survives its file. Whatever \<open>write_slot\<close> writes with success for a well-formed slot,
  \<open>read_slot_file\<close> reads back as the same slot: id, state, pid, group, exit status, mode and workspace.
  Two things are not kept: the cgroup path, and a mode or workspace whose text is a single dash.\<close>

theorem slot_file_round_trip:
  assumes a: "slot_ok a" and wr: "write_slot s a w = (OK, w')"
    and rd: "\<not> w_fault w' IoOpen (agents_dir s @ ''/'' @ slot_id a @ ''.slot'')"
  shows "read_slot_file s (slot_id a) w' = Inr (stored a)"
proof -
  obtain p where p: "slot_path s (slot_id a) PHRONESIS_PATH_MAX = Some p" "w_fs w' (w_canon w p) = Some (Reg (slot_line a))"
    using write_slot_ok [OF wr] by blast
  have "w_canon w' = w_canon w" using fs_only_sel(1) [OF write_slot_fs_only [of w s a]] wr by simp
  then have "fopen_r w' p = Some (slot_line a)" using p rd slot_path_Some [OF p(1)] by (simp add: fopen_r_def)
  then show ?thesis by (rule read_stored [OF a p(1)])
qed

definition file_sup :: supervisor where
  "file_sup = \<lparr>state_dir = ''/s'', runtime_dir = ''/r'', action_log = ''/log'', agents_dir = ''/agents'', agents = []\<rparr>"

definition file_world :: world where
  "file_world = fresh_world\<lparr>w_fs := (\<lambda>k. if k = [] \<or> k = [''agents''] then Some (Dir 448) else None)\<rparr>"

definition file_slot :: agent_slot where
  "file_slot = zero_slot\<lparr>in_use := True, slot_id := ''a1'', slot_state := AGENT_RUNNING, slot_pid := 42, slot_pgid := 42,
     exit_status := -1, slot_mode := ''agent'', slot_workspace := ''/home/u/w'', cgroup_path := ''/sys/fs/cgroup/x''\<rparr>"

lemma slot_file_round_trip_witness:
  "read_slot_file file_sup ''a1'' (snd (write_slot file_sup file_slot file_world)) = Inr (file_slot\<lparr>cgroup_path := []\<rparr>)"
proof -
  have a: "slot_ok file_slot" by code_simp
  have "fst (write_slot file_sup file_slot file_world) = OK" by code_simp
  then have wr: "write_slot file_sup file_slot file_world = (OK, snd (write_slot file_sup file_slot file_world))" by (metis prod.collapse)
  have "w_fault (snd (write_slot file_sup file_slot file_world)) = w_fault file_world"
    using fs_only_sel(2) [OF write_slot_fs_only] by blast
  then have f: "\<not> w_fault (snd (write_slot file_sup file_slot file_world)) x y" for x y
    by (simp add: file_world_def fresh_world_def)
  have "stored file_slot = file_slot\<lparr>cgroup_path := []\<rparr>" "slot_id file_slot = ''a1''"
    by (simp_all add: stored_def file_slot_def undash_def)
  then show ?thesis using slot_file_round_trip [OF a wr f] by simp
qed

end
