(* ===== verification/Policy.thy ===== *)
theory Policy
  imports Codes Lexical Numbers
begin

text \<open>
  src/policy.c: the identity key of an agent, the admit kinds, the lexical path rules, the
  environment gates and the decision table \<open>phronesis_policy_eval\<close>. The process environment is an
  argument (\<open>getenv\<close>). \<open>phronesis_policy_require_running_agent\<close> of the same file needs the
  supervisor and is in theory Supervisor. Out-parameters are results; the trace macros, which
  expand to nothing in a product build, are left out.

  The lexical rules are related to the path components: \<open>is_clean_abs_path\<close> accepts exactly the
  absolute paths with no empty, dot or dot-dot component, and \<open>path_under_workspace\<close> is the prefix
  order on components.
\<close>

section \<open>Agent identity and admit kinds\<close>

definition phronesis_agent_id_to_hex :: "64 word \<Rightarrow> 64 word \<Rightarrow> string" where
  "phronesis_agent_id_to_hex hi lo =
     (if hi = 0 \<and> lo = 0 then []
      else snprintf_buf PHRONESIS_ID_MAX (hex_fixed 16 (unat hi) @ hex_fixed 16 (unat lo)))"

definition phronesis_map_admit_kind :: "cstring_opt \<Rightarrow> (string \<times> string) option" where
  "phronesis_map_admit_kind kind =
     (case kind of
        None \<Rightarrow> None
      | Some k \<Rightarrow>
          if k = ''seat'' then Some (''seat'', ''publish_run'')
          else if k = [] \<or> k = ''model'' \<or> k = ''agent'' then Some (''model'', ''start'')
          else None)"

section \<open>Lexical path rules\<close>

text \<open>The loop of \<open>is_clean_abs_path\<close> from the current byte on.\<close>

fun clean_loop :: "string \<Rightarrow> bool" where
  "clean_loop [] = True"
| "clean_loop (x # cp) =
     (if x = slash \<and> cstr_at cp 0 = slash then False
      else if x = slash then
        (if cstr_at cp 0 = NUL then True
         else if cstr_at cp 0 = dot \<and> (cstr_at cp 1 = slash \<or> cstr_at cp 1 = NUL) then False
         else if cstr_at cp 0 = dot \<and> cstr_at cp 1 = dot
              \<and> (cstr_at cp 2 = slash \<or> cstr_at cp 2 = NUL) then False
         else clean_loop cp)
      else clean_loop cp)"

definition is_clean_abs_path :: "cstring_opt \<Rightarrow> bool" where
  "is_clean_abs_path path =
     (case path of
        None \<Rightarrow> False
      | Some p \<Rightarrow> if cstr_at p 0 \<noteq> slash then False else clean_loop p)"

definition path_under_workspace :: "cstring_opt \<Rightarrow> cstring_opt \<Rightarrow> bool" where
  "path_under_workspace workspace path =
     (case (workspace, path) of
        (Some w, Some p) \<Rightarrow>
          if w = [] \<or> p = [] then False
          else if \<not> is_clean_abs_path (Some w) \<or> \<not> is_clean_abs_path (Some p) then False
          else
            let wl = trim_len 1 w (length w)
            in if \<not> strncmp_eq p w wl then False
               else cstr_at p wl = NUL \<or> cstr_at p wl = slash
      | _ \<Rightarrow> False)"

definition sensitive_bases :: "string list" where
  "sensitive_bases =
     [''.netrc'', ''.npmrc'', ''.pypirc'', ''id_rsa'', ''id_ed25519'', ''id_ecdsa'', ''id_dsa'',
      ''credentials'', ''credentials.json'', ''service-account.json'', ''token'',
      ''secrets.yaml'', ''secrets.yml'', ''secrets.json'']"

definition sensitive_parts :: "string list" where
  "sensitive_parts =
     [''/.ssh/'', ''/.gnupg/'', ''/.aws/'', ''/.kube/'', ''/.docker/'', ''/.password-store/'',
      ''/.config/gcloud/'', ''/private_dot_'', ''/.vault/'']"

definition sensitive_suffixes :: "string list" where
  "sensitive_suffixes = [''.pem'', ''.key'', ''.p12'', ''.pfx'']"

definition path_is_sensitive :: "cstring_opt \<Rightarrow> bool" where
  "path_is_sensitive path =
     (case path of
        None \<Rightarrow> False
      | Some p \<Rightarrow>
          if p = [] then False
          else
            let base = (case strrchr p slash of Some r \<Rightarrow> tl r | None \<Rightarrow> p)
            in if base = ''.env'' \<or> strncmp_eq base ''.env.'' 5 \<or> base \<in> set sensitive_bases then True
               else if list_ex (strstr p) sensitive_parts then True
               else (case strrchr p dot of Some r \<Rightarrow> r \<in> set sensitive_suffixes | None \<Rightarrow> False))"

definition phronesis_resolve_script :: "cstring_opt \<Rightarrow> cstring_opt \<Rightarrow> nat \<Rightarrow> string option" where
  "phronesis_resolve_script cwd script out_n =
     (case script of
        None \<Rightarrow> None
      | Some sc \<Rightarrow>
          if sc = [] \<or> out_n = 0 then None
          else if cstr_at sc 0 = slash then
            (if length sc + 1 > out_n then None else Some sc)
          else
            (case cwd of
               None \<Rightarrow> None
             | Some c \<Rightarrow>
                 if cstr_at c 0 \<noteq> slash then None
                 else
                   let cl = trim_len 1 c (length c); sl = length sc
                   in if cl + 1 + sl + 1 > out_n then None
                      else Some (take cl c @ [slash] @ sc)))"

section \<open>Environment gates\<close>

definition phronesis_env_truthy :: "env \<Rightarrow> string \<Rightarrow> bool" where
  "phronesis_env_truthy getenv name =
     (case getenv name of
        None \<Rightarrow> False
      | Some v \<Rightarrow>
          if v = [] then False
          else v = ''1'' \<or> v = ''true'' \<or> v = ''yes'' \<or> v = ''TRUE'' \<or> v = ''YES'')"

definition phronesis_policy_deny_all :: "env \<Rightarrow> bool" where
  "phronesis_policy_deny_all getenv = phronesis_env_truthy getenv ''PHRONESIS_DENY_ALL''"

section \<open>The decision table\<close>

definition phronesis_policy_eval ::
  "env \<Rightarrow> cstring_opt \<Rightarrow> cstring_opt \<Rightarrow> cstring_opt \<Rightarrow> cstring_opt \<Rightarrow> policy_result" where
  "phronesis_policy_eval getenv workspace tool action path =
     (if phronesis_policy_deny_all getenv then phronesis_policy_result_set DENY DENY_ALL
      else if \<not> nonempty tool \<or> \<not> nonempty action then
        phronesis_policy_result_set DENY MISSING_TOOL_ACTION
      else if tool = Some ''seat'' then
        (if action = Some ''publish_run'' \<or> action = Some ''read_run''
            \<or> action = Some ''list_runs'' \<or> action = Some ''list_events''
         then phronesis_policy_result_set ALLOW SEAT_BOARD_ALLOW
         else phronesis_policy_result_set DENY UNKNOWN_SEAT_ACTION)
      else if tool = Some ''model'' \<and> action = Some ''start'' then
        phronesis_policy_result_set ALLOW MODEL_START_ALLOW
      else if action = Some ''secret_export'' then
        phronesis_policy_result_set DENY SECRET_EXPORT_DENIED
      else if nonempty path \<and> path_is_sensitive path
           \<and> (action = Some ''read'' \<or> action = Some ''write'' \<or> action = Some ''delete''
              \<or> action = Some ''exec'') then
        phronesis_policy_result_set DENY PATH_SENSITIVE_DENY
      else if action = Some ''delete'' \<or> action = Some ''network'' \<or> action = Some ''sudo'' then
        phronesis_policy_result_set PROMPT HIGH_RISK_PROMPT
      else if (action = Some ''read'' \<or> action = Some ''write'')
           \<and> nonempty path \<and> path_under_workspace workspace path then
        phronesis_policy_result_set ALLOW PATH_UNDER_WORKSPACE_ALLOW
      else if tool = Some ''shell'' \<and> action = Some ''exec''
           \<and> nonempty path \<and> path_under_workspace workspace path then
        phronesis_policy_result_set ALLOW SHELL_EXEC_ALLOW
      else if nonempty path \<and> \<not> path_under_workspace workspace path then
        phronesis_policy_result_set DENY PATH_OUTSIDE_WORKSPACE
      else phronesis_policy_result_set DENY TOOLS_DEFAULT_DENY)"

section \<open>Hexadecimal keys\<close>

lemma agent_id_to_hex_nonzero:
  "hi \<noteq> 0 \<or> lo \<noteq> 0 \<Longrightarrow>
     phronesis_agent_id_to_hex hi lo = hex_fixed 16 (unat hi) @ hex_fixed 16 (unat lo)"
  by (auto simp: phronesis_agent_id_to_hex_def snprintf_fits_def PHRONESIS_ID_MAX_def)

lemma unat_lt_16_16: "unat (w :: 64 word) < 16 ^ 16"
  using unsigned_less [of w] by simp

section \<open>Clean absolute paths\<close>

fun good_tail :: "string list \<Rightarrow> bool" where
  "good_tail [] = True"
| "good_tail (d # ds) = (d \<noteq> ''.'' \<and> d \<noteq> ''..'' \<and> (d = [] \<longrightarrow> ds = []) \<and> good_tail ds)"

lemma split_on_Cons_obtain:
  obtains d ds where "split_on slash s = d # ds"
  by (cases "split_on slash s") auto

lemma hd_split_on_dots:
  assumes "NUL \<notin> set s" "split_on slash s = d # ds"
  shows "d = [] \<and> ds \<noteq> [] \<longleftrightarrow> cstr_at s 0 = slash"
    and "d = [] \<and> ds = [] \<longleftrightarrow> cstr_at s 0 = NUL"
    and "d = ''.'' \<longleftrightarrow> cstr_at s 0 = dot \<and> (cstr_at s 1 = slash \<or> cstr_at s 1 = NUL)"
    and "d = ''..'' \<longleftrightarrow>
      cstr_at s 0 = dot \<and> cstr_at s 1 = dot \<and> (cstr_at s 2 = slash \<or> cstr_at s 2 = NUL)"
proof -
  consider "s = []" | a where "s = [a]" | a b where "s = [a, b]" | a b c r where "s = a # b # c # r"
    by (metis list.exhaust)
  then have "(d = [] \<and> ds \<noteq> [] \<longleftrightarrow> cstr_at s 0 = slash) \<and> (d = [] \<and> ds = [] \<longleftrightarrow> cstr_at s 0 = NUL)
    \<and> (d = ''.'' \<longleftrightarrow> cstr_at s 0 = dot \<and> (cstr_at s 1 = slash \<or> cstr_at s 1 = NUL))
    \<and> (d = ''..'' \<longleftrightarrow>
      cstr_at s 0 = dot \<and> cstr_at s 1 = dot \<and> (cstr_at s 2 = slash \<or> cstr_at s 2 = NUL))"
    using assms by cases (auto split: list.splits if_splits)
  then show "d = [] \<and> ds \<noteq> [] \<longleftrightarrow> cstr_at s 0 = slash"
    and "d = [] \<and> ds = [] \<longleftrightarrow> cstr_at s 0 = NUL"
    and "d = ''.'' \<longleftrightarrow> cstr_at s 0 = dot \<and> (cstr_at s 1 = slash \<or> cstr_at s 1 = NUL)"
    and "d = ''..'' \<longleftrightarrow>
      cstr_at s 0 = dot \<and> cstr_at s 1 = dot \<and> (cstr_at s 2 = slash \<or> cstr_at s 2 = NUL)"
    by blast+
qed

lemma clean_loop_iff:
  "NUL \<notin> set s \<Longrightarrow> clean_loop s \<longleftrightarrow> good_tail (tl (split_on slash s))"
proof (induction s)
  case Nil
  then show ?case by simp
next
  case (Cons x s)
  obtain d ds where sp: "split_on slash s = d # ds" by (rule split_on_Cons_obtain)
  have n: "NUL \<notin> set s" using Cons.prems by simp
  note dots = hd_split_on_dots [OF n sp]
  show ?case
  proof (cases "x = slash")
    case True
    then show ?thesis using Cons.IH [OF n] sp dots by (auto simp del: clean_loop.simps(1))
  next
    case False
    then show ?thesis using Cons.IH [OF n] sp by simp
  qed
qed

lemma good_tail_append:
  "good_tail (cs @ [t]) \<longleftrightarrow> list_all (\<lambda>c. c \<noteq> [] \<and> c \<noteq> ''.'' \<and> c \<noteq> ''..'') cs \<and> t \<noteq> ''.'' \<and> t \<noteq> ''..''"
  by (induction cs) auto

lemma good_tail_plain: "list_all plain_comp cs \<Longrightarrow> good_tail cs"
  by (induction cs) (auto simp: plain_comp_def)

lemma good_tail_plain_slash: "list_all plain_comp cs \<Longrightarrow> good_tail (cs @ [[]])"
  by (auto simp: good_tail_append list_all_iff plain_comp_def)

text \<open>A clean absolute path is its components in order, with at most one slash at the end.\<close>

lemma is_clean_abs_path_iff:
  assumes "NUL \<notin> set p"
  shows "is_clean_abs_path (Some p) \<longleftrightarrow>
    p = ''/'' \<or> (\<exists>cs t. cs \<noteq> [] \<and> list_all plain_comp cs \<and> p = render cs @ t \<and> (t = [] \<or> t = ''/''))"
    (is "_ \<longleftrightarrow> ?r")
proof
  assume c: "is_clean_abs_path (Some p)"
  then obtain q where p: "p = slash # q"
    by (cases p) (auto simp: is_clean_abs_path_def split: if_splits)
  obtain ds e where ds: "split_on slash q = ds @ [e]" by (metis rev_exhaust split_on_not_Nil)
  have "good_tail (ds @ [e])"
    using c p ds clean_loop_iff [OF assms] by (simp add: is_clean_abs_path_def split: if_splits)
  then have g: "list_all (\<lambda>c. c \<noteq> [] \<and> c \<noteq> ''.'' \<and> c \<noteq> ''..'') ds" "e \<noteq> ''.''" "e \<noteq> ''..''"
    by (simp_all add: good_tail_append)
  have r: "p = render ds @ slash # e" using render_split_on [of q] p ds by (simp add: render_append)
  have sl: "slash \<notin> set c" if "c \<in> set (ds @ [e])" for c using that ds split_on_notin by metis
  have pl: "list_all plain_comp ds"
    using g(1) sl assms r by (auto simp: list_all_iff plain_comp_def dest: render_mem)
  show ?r
  proof (cases "e = []")
    case True
    then show ?thesis using r pl by (cases ds) auto
  next
    case False
    then have "plain_comp e" using g sl assms r by (auto simp: plain_comp_def)
    then have "list_all plain_comp (ds @ [e])" "p = render (ds @ [e]) @ []"
      using pl r by (simp_all add: render_append)
    then show ?thesis by blast
  qed
next
  assume ?r
  then show "is_clean_abs_path (Some p)"
  proof
    assume "p = ''/''"
    then show ?thesis by (simp add: is_clean_abs_path_def)
  next
    assume "\<exists>cs t. cs \<noteq> [] \<and> list_all plain_comp cs \<and> p = render cs @ t \<and> (t = [] \<or> t = ''/'')"
    then obtain cs t where cs: "cs \<noteq> []" "list_all plain_comp cs" "p = render cs @ t" "t = [] \<or> t = ''/''"
      by blast
    have "good_tail (tl (split_on slash p))"
      using cs(4) good_tail_plain [OF cs(2)] good_tail_plain_slash [OF cs(2)]
      by (auto simp: cs(3) split_on_render [OF cs(2)] split_on_render_slash [OF cs(2)])
    then show ?thesis
      using cs(1,3) clean_loop_iff [OF assms] by (cases cs) (auto simp: is_clean_abs_path_def)
  qed
qed

section \<open>Containment in the workspace\<close>

lemma path_under_workspace_split:
  assumes "NUL \<notin> set p"
  shows "path_under_workspace (Some w) (Some p) \<longleftrightarrow>
    is_clean_abs_path (Some w) \<and> is_clean_abs_path (Some p)
    \<and> (\<exists>rest. p = trim_root 1 w @ rest \<and> (rest = [] \<or> hd rest = slash))"
  using boundary_iff [OF assms, of w 1]
  by (auto simp: path_under_workspace_def Let_def is_clean_abs_path_def)

interpretation ws: rooted_scope "\<lambda>w p. path_under_workspace (Some w) (Some p)" "trim_root 1"
  by unfold_locales (simp_all add: path_under_workspace_split)

lemma is_clean_abs_path_slash: "is_clean_abs_path (Some p) \<Longrightarrow> \<exists>q. p = slash # q"
  by (cases p) (auto simp: is_clean_abs_path_def split: if_splits)

lemma trim_root_clean:
  assumes "cs \<noteq> []" "list_all plain_comp cs" "t = [] \<or> t = ''/''"
  shows "trim_root 1 (render cs @ t) = render cs"
proof -
  obtain bs c where cs: "cs = bs @ [c]" using assms(1) by (metis rev_exhaust)
  then have "plain_comp c" using assms(2) by simp
  then obtain d x where c: "c = d @ [x]" "x \<noteq> slash"
    by (metis plain_comp_def rev_exhaust in_set_conv_decomp)
  have last: "cstr_at (render cs @ t) (length (render cs) - 1) = x"
    using cs c by (simp add: render_append cstr_at_def nth_append)
  have len: "1 < length (render cs)" using cs c by (simp add: render_append)
  have "trim_len 1 (render cs @ t) (length (render cs @ t)) = length (render cs)"
  proof (rule trim_len_eq)
    show "1 < length (render cs) \<longrightarrow> cstr_at (render cs @ t) (length (render cs) - 1) \<noteq> slash"
      using last c(2) by simp
  next
    fix i
    assume "length (render cs) \<le> i" "i < length (render cs @ t)"
    then show "cstr_at (render cs @ t) i = slash"
      using assms(3) by (auto simp: cstr_at_append)
  qed (use len in auto)
  then show ?thesis by (simp add: trim_root_def)
qed

lemma trim_root_slash [simp]: "trim_root (Suc 0) ''/'' = ''/''"
  by (simp add: trim_root_def)

lemma render_boundary:
  assumes "cs \<noteq> []" "list_all plain_comp cs" "t = [] \<or> t = ''/''" "prefix ds cs"
  shows "\<exists>rest. render cs @ t = render ds @ rest \<and> (rest = [] \<or> hd rest = slash)"
proof -
  obtain es where "cs = ds @ es" using assms(4) by (auto simp: prefix_def)
  then have "render cs @ t = render ds @ (render es @ t)" by (simp add: render_append)
  moreover have "render es @ t = [] \<or> hd (render es @ t) = slash"
    using assms(3) by (cases es) auto
  ultimately show ?thesis by blast
qed

text \<open>C2: Containment is the prefix order on path components. For strings with no NUL,
  \<open>path_under_workspace\<close> holds exactly when workspace and path are clean absolute paths and the
  components of the workspace are a prefix of those of the path; the workspace \<open>/\<close> is the
  exception, it contains only itself. The byte comparison with its boundary test therefore never
  takes \<open>/ws-other\<close> for a child of \<open>/ws\<close>, and never misses a child.\<close>

theorem path_under_workspace_spec:
  assumes "NUL \<notin> set w" "NUL \<notin> set p"
  shows "path_under_workspace (Some w) (Some p) \<longleftrightarrow>
    is_clean_abs_path (Some w) \<and> is_clean_abs_path (Some p)
    \<and> (if w = ''/'' then p = ''/'' else prefix (path_comps w) (path_comps p))"
proof (cases "is_clean_abs_path (Some w) \<and> is_clean_abs_path (Some p)")
  case False
  then show ?thesis by (auto simp: path_under_workspace_split [OF assms(2)])
next
  case clean: True
  show ?thesis
  proof (cases "w = ''/''")
    case True
    have "p = ''/''" if p: "p = ''/'' @ rest" "rest = [] \<or> hd rest = slash" for rest
    proof (cases rest)
      case (Cons x xs)
      then have "p = ''//'' @ xs" using p by simp
      then have "\<not> is_clean_abs_path (Some p)" by (simp add: is_clean_abs_path_def)
      then show ?thesis using clean by simp
    qed (use p in simp)
    then have "(\<exists>rest. p = ''/'' @ rest \<and> (rest = [] \<or> hd rest = slash)) \<longleftrightarrow> p = ''/''"
      by (metis append_Nil2)
    then show ?thesis using True clean by (simp add: path_under_workspace_split [OF assms(2)])
  next
    case False
    then obtain ws wt where w: "ws \<noteq> []" "list_all plain_comp ws" "w = render ws @ wt" "wt = [] \<or> wt = ''/''"
      using clean is_clean_abs_path_iff [OF assms(1)] by blast
    have cw: "path_comps w = ws" using w(3) path_comps_clean [OF w(2,4)] by simp
    have "path_under_workspace (Some w) (Some p)" if pre: "prefix ws (path_comps p)"
    proof -
      have "p \<noteq> ''/''" using pre w(1) by auto
      then obtain ps pt where p: "ps \<noteq> []" "list_all plain_comp ps" "p = render ps @ pt" "pt = [] \<or> pt = ''/''"
        using clean is_clean_abs_path_iff [OF assms(2)] by blast
      have "path_comps p = ps" using p(3) path_comps_clean [OF p(2,4)] by simp
      then have "\<exists>rest. p = render ws @ rest \<and> (rest = [] \<or> hd rest = slash)"
        using render_boundary [OF p(1,2,4)] pre p(3) by simp
      then show ?thesis
        using clean trim_root_clean [OF w(1,2,4)] w(3) by (simp add: path_under_workspace_split [OF assms(2)])
    qed
    moreover have "prefix ws (path_comps p)" if "path_under_workspace (Some w) (Some p)"
      using ws.under_comps [OF assms(2) that] cw by simp
    ultimately show ?thesis using False clean cw by auto
  qed
qed

lemma path_under_workspace_spec_witness:
  "path_under_workspace (Some ''/home/u/ws'') (Some ''/home/u/ws/src/a.c'')
   \<and> \<not> path_under_workspace (Some ''/home/u/ws'') (Some ''/home/u/ws-evil/a.c'')"
  using path_under_workspace_spec [of "''/home/u/ws''" "''/home/u/ws/src/a.c''"]
    path_under_workspace_spec [of "''/home/u/ws''" "''/home/u/ws-evil/a.c''"]
  by (simp add: is_clean_abs_path_def path_comps_def)

section \<open>The decision table\<close>

definition board_action :: "cstring_opt \<Rightarrow> bool" where
  "board_action a \<longleftrightarrow> a \<in> Some ` {''publish_run'', ''read_run'', ''list_runs'', ''list_events''}"

text \<open>The table, one lemma per group of branches.\<close>

lemma policy_eval_locked:
  "phronesis_policy_deny_all e \<Longrightarrow>
     phronesis_policy_eval e w tool action path = phronesis_policy_result_set DENY DENY_ALL"
  by (simp add: phronesis_policy_eval_def)

lemma policy_eval_missing:
  "\<not> phronesis_policy_deny_all e \<Longrightarrow> \<not> nonempty tool \<or> \<not> nonempty action \<Longrightarrow>
     phronesis_policy_eval e w tool action path = phronesis_policy_result_set DENY MISSING_TOOL_ACTION"
  by (simp add: phronesis_policy_eval_def)

lemma policy_eval_seat:
  "\<not> phronesis_policy_deny_all e \<Longrightarrow> nonempty action \<Longrightarrow>
     phronesis_policy_eval e w (Some ''seat'') action path =
       (if board_action action then phronesis_policy_result_set ALLOW SEAT_BOARD_ALLOW
        else phronesis_policy_result_set DENY UNKNOWN_SEAT_ACTION)"
  by (simp add: phronesis_policy_eval_def board_action_def)

lemma policy_eval_start:
  "\<not> phronesis_policy_deny_all e \<Longrightarrow> t \<noteq> [] \<Longrightarrow> t \<noteq> ''seat'' \<Longrightarrow>
     phronesis_policy_eval e w (Some t) (Some ''start'') path =
       (if t = ''model'' then phronesis_policy_result_set ALLOW MODEL_START_ALLOW
        else if nonempty path \<and> \<not> path_under_workspace w path
        then phronesis_policy_result_set DENY PATH_OUTSIDE_WORKSPACE
        else phronesis_policy_result_set DENY TOOLS_DEFAULT_DENY)"
  by (simp add: phronesis_policy_eval_def)

lemma policy_eval_read_write:
  "\<not> phronesis_policy_deny_all e \<Longrightarrow> t \<noteq> [] \<Longrightarrow> t \<noteq> ''seat'' \<Longrightarrow> a = ''read'' \<or> a = ''write'' \<Longrightarrow>
     phronesis_policy_eval e w (Some t) (Some a) path =
       (if \<not> nonempty path then phronesis_policy_result_set DENY TOOLS_DEFAULT_DENY
        else if path_is_sensitive path then phronesis_policy_result_set DENY PATH_SENSITIVE_DENY
        else if path_under_workspace w path then phronesis_policy_result_set ALLOW PATH_UNDER_WORKSPACE_ALLOW
        else phronesis_policy_result_set DENY PATH_OUTSIDE_WORKSPACE)"
  by (elim disjE; cases "nonempty path") (simp_all add: phronesis_policy_eval_def)

lemma policy_eval_exec:
  "\<not> phronesis_policy_deny_all e \<Longrightarrow> t \<noteq> [] \<Longrightarrow> t \<noteq> ''seat'' \<Longrightarrow>
     phronesis_policy_eval e w (Some t) (Some ''exec'') path =
       (if \<not> nonempty path then phronesis_policy_result_set DENY TOOLS_DEFAULT_DENY
        else if path_is_sensitive path then phronesis_policy_result_set DENY PATH_SENSITIVE_DENY
        else if \<not> path_under_workspace w path then phronesis_policy_result_set DENY PATH_OUTSIDE_WORKSPACE
        else if t = ''shell'' then phronesis_policy_result_set ALLOW SHELL_EXEC_ALLOW
        else phronesis_policy_result_set DENY TOOLS_DEFAULT_DENY)"
  by (cases "nonempty path"; cases "path_under_workspace w path") (simp_all add: phronesis_policy_eval_def)

lemma policy_eval_risk:
  "\<not> phronesis_policy_deny_all e \<Longrightarrow> t \<noteq> [] \<Longrightarrow> t \<noteq> ''seat'' \<Longrightarrow> a \<in> {''delete'', ''network'', ''sudo''} \<Longrightarrow>
     phronesis_policy_eval e w (Some t) (Some a) path =
       (if a = ''delete'' \<and> nonempty path \<and> path_is_sensitive path
        then phronesis_policy_result_set DENY PATH_SENSITIVE_DENY
        else phronesis_policy_result_set PROMPT HIGH_RISK_PROMPT)"
  by (elim insertE emptyE) (simp_all add: phronesis_policy_eval_def)

lemma policy_eval_other:
  "\<not> phronesis_policy_deny_all e \<Longrightarrow> t \<noteq> [] \<Longrightarrow> t \<noteq> ''seat'' \<Longrightarrow> a \<noteq> [] \<Longrightarrow>
   a \<notin> {''start'', ''read'', ''write'', ''exec'', ''delete'', ''network'', ''sudo''} \<Longrightarrow>
     phronesis_policy_eval e w (Some t) (Some a) path =
       (if a = ''secret_export'' then phronesis_policy_result_set DENY SECRET_EXPORT_DENIED
        else if nonempty path \<and> \<not> path_under_workspace w path
        then phronesis_policy_result_set DENY PATH_OUTSIDE_WORKSPACE
        else phronesis_policy_result_set DENY TOOLS_DEFAULT_DENY)"
  by (simp add: phronesis_policy_eval_def)

lemma under_nonempty: "path_under_workspace w path \<Longrightarrow> nonempty path"
  by (auto simp: path_under_workspace_def nonempty_def split: option.splits)

lemma sensitive_nonempty: "path_is_sensitive path \<Longrightarrow> nonempty path"
  by (auto simp: path_is_sensitive_def nonempty_def split: option.splits)

lemma seven_cases:
  fixes a :: string
  obtains "a = s" | "a = r \<or> a = w" | "a = x" | "a \<in> {d, n, u}" | "a \<notin> {s, r, w, x, d, n, u}"
  by blast

lemma request_cases:
  obtains (locked) "phronesis_policy_deny_all e"
  | (missing) "\<not> phronesis_policy_deny_all e" "\<not> nonempty tool \<or> \<not> nonempty action"
  | (seat) a where "\<not> phronesis_policy_deny_all e" "tool = Some ''seat''" "action = Some a" "a \<noteq> []"
  | (start) t where "\<not> phronesis_policy_deny_all e" "tool = Some t" "t \<noteq> []" "t \<noteq> ''seat''" "action = Some ''start''"
  | (read_write) t a where "\<not> phronesis_policy_deny_all e" "tool = Some t" "t \<noteq> []" "t \<noteq> ''seat''"
      "action = Some a" "a = ''read'' \<or> a = ''write''"
  | (exec) t where "\<not> phronesis_policy_deny_all e" "tool = Some t" "t \<noteq> []" "t \<noteq> ''seat''" "action = Some ''exec''"
  | (risk) t a where "\<not> phronesis_policy_deny_all e" "tool = Some t" "t \<noteq> []" "t \<noteq> ''seat''"
      "action = Some a" "a \<in> {''delete'', ''network'', ''sudo''}"
  | (other) t a where "\<not> phronesis_policy_deny_all e" "tool = Some t" "t \<noteq> []" "t \<noteq> ''seat''"
      "action = Some a" "a \<noteq> []" "a \<notin> {''start'', ''read'', ''write'', ''exec'', ''delete'', ''network'', ''sudo''}"
proof (cases "phronesis_policy_deny_all e")
  case True
  then show ?thesis by (rule locked)
next
  case d: False
  show ?thesis
  proof (cases "nonempty tool \<and> nonempty action")
    case False
    with d show ?thesis by (intro missing) auto
  next
    case True
    then obtain t a where ta: "tool = Some t" "t \<noteq> []" "action = Some a" "a \<noteq> []"
      by (auto simp: nonempty_iff)
    show ?thesis
    proof (cases "t = ''seat''")
      case True
      with d ta show ?thesis by (intro seat) auto
    next
      case nt: False
      show ?thesis
        by (rule seven_cases [where a = a and s = "''start''" and r = "''read''" and w = "''write''"
              and x = "''exec''" and d = "''delete''" and n = "''network''" and u = "''sudo''"])
          (use start [OF d ta(1,2) nt] read_write [OF d ta(1,2) nt ta(3)] exec [OF d ta(1,2) nt]
            risk [OF d ta(1,2) nt ta(3)] other [OF d ta(1,2) nt ta(3,4)] ta(3) in simp_all)
    qed
  qed
qed

lemma allow_table:
  "pr_decision (phronesis_policy_eval e w tool action path) = ALLOW \<longleftrightarrow>
     \<not> phronesis_policy_deny_all e
     \<and> (tool = Some ''seat'' \<and> board_action action
        \<or> tool = Some ''model'' \<and> action = Some ''start''
        \<or> nonempty tool \<and> tool \<noteq> Some ''seat''
          \<and> (action = Some ''read'' \<or> action = Some ''write'' \<or> tool = Some ''shell'' \<and> action = Some ''exec'')
          \<and> path_under_workspace w path \<and> \<not> path_is_sensitive path)"
proof (cases rule: request_cases [where e = e and tool = tool and action = action])
  case (read_write t a)
  then show ?thesis
    by (elim disjE; cases "path_under_workspace w path")
      (simp_all add: policy_eval_read_write board_action_def under_nonempty)
next
  case (exec t)
  then show ?thesis
    by (cases "path_under_workspace w path")
      (simp_all add: policy_eval_exec board_action_def under_nonempty)
next
  case (risk t a)
  then show ?thesis by (elim insertE emptyE) (simp_all add: policy_eval_risk board_action_def)
next
  case missing
  then show ?thesis by (cases tool; cases action) (auto simp: policy_eval_missing board_action_def)
qed (simp_all add: policy_eval_locked policy_eval_missing policy_eval_seat policy_eval_start
      policy_eval_other board_action_def image_iff split: if_splits)

text \<open>C24: Exactly when the string bridge allows. Outside lockdown, \<open>phronesis_policy_eval\<close> returns
  allow for the four board actions of the seat tool, for a model start, for reading or writing a
  path inside the workspace that is not credential material, and for a shell spawn in such a
  directory; in every other case the answer is deny or prompt.\<close>

theorem policy_eval_allow_iff:
  "pr_decision (phronesis_policy_eval e w tool action path) = ALLOW \<longleftrightarrow>
     \<not> phronesis_policy_deny_all e
     \<and> (tool = Some ''seat'' \<and> board_action action
        \<or> tool = Some ''model'' \<and> action = Some ''start''
        \<or> nonempty tool \<and> tool \<noteq> Some ''seat''
          \<and> (action = Some ''read'' \<or> action = Some ''write'' \<or> tool = Some ''shell'' \<and> action = Some ''exec'')
          \<and> path_under_workspace w path \<and> \<not> path_is_sensitive path)"
  by (rule allow_table)

text \<open>Lockdown is total on the string bridge: with \<open>PHRONESIS_DENY_ALL\<close> set to a truthy value the
  answer is deny with the reason denyAll, whatever the request.\<close>

lemma policy_eval_deny_all:
  "phronesis_policy_eval e w tool action path = phronesis_policy_result_set DENY DENY_ALL
   \<longleftrightarrow> phronesis_policy_deny_all e"
proof (cases rule: request_cases [where e = e and tool = tool and action = action])
  case (read_write t a)
  then show ?thesis by (elim disjE) (simp_all add: policy_eval_read_write)
next
  case (risk t a)
  then show ?thesis by (elim insertE emptyE) (simp_all add: policy_eval_risk)
qed (simp_all add: policy_eval_locked policy_eval_missing policy_eval_seat policy_eval_start
      policy_eval_exec policy_eval_other)

text \<open>A prompt means a high-risk action and nothing else: the answer is prompt exactly for
  delete, network and sudo requests of a tool other than seat, outside lockdown, unless the delete
  names credential material.\<close>

lemma policy_eval_prompt_iff:
  "pr_decision (phronesis_policy_eval e w tool action path) = PROMPT \<longleftrightarrow>
     \<not> phronesis_policy_deny_all e \<and> nonempty tool \<and> tool \<noteq> Some ''seat''
     \<and> (action = Some ''network'' \<or> action = Some ''sudo''
        \<or> action = Some ''delete'' \<and> \<not> path_is_sensitive path)"
proof (cases rule: request_cases [where e = e and tool = tool and action = action])
  case (risk t a)
  then show ?thesis
    by (cases "path_is_sensitive path"; elim insertE emptyE)
      (simp_all add: policy_eval_risk sensitive_nonempty)
next
  case (read_write t a)
  then show ?thesis by (elim disjE) (simp_all add: policy_eval_read_write)
next
  case missing
  then show ?thesis by (cases tool; cases action) (auto simp: policy_eval_missing)
qed (simp_all add: policy_eval_locked policy_eval_missing policy_eval_seat policy_eval_start
      policy_eval_exec policy_eval_other)

section \<open>Credential material\<close>

definition credential_dirs :: "string list" where
  "credential_dirs = [''.ssh'', ''.gnupg'', ''.aws'', ''.kube'', ''.docker'', ''.password-store'', ''.vault'']"

lemma sensitive_part_sublist:
  "part \<in> set sensitive_parts \<Longrightarrow> sublist part p \<Longrightarrow> path_is_sensitive (Some p)"
proof -
  assume part: "part \<in> set sensitive_parts" "sublist part p"
  then have "list_ex (strstr p) sensitive_parts" by (auto simp: list_ex_iff strstr_sublist)
  moreover have "p \<noteq> []" using part by (auto simp: sensitive_parts_def)
  ultimately show ?thesis by (simp add: path_is_sensitive_def Let_def)
qed

lemma credential_dir_sensitive:
  assumes "d \<in> set credential_dirs" "bs \<noteq> []"
  shows "path_is_sensitive (Some (render (as @ d # bs) @ t))"
proof (rule sensitive_part_sublist)
  show "slash # d @ [slash] \<in> set sensitive_parts"
    using assms(1) by (auto simp: credential_dirs_def sensitive_parts_def)
  obtain b cs where bs: "bs = b # cs" using assms(2) by (cases bs) auto
  have "render (as @ d # bs) @ t = render as @ (slash # d @ [slash]) @ (b @ render cs @ t)"
    by (simp add: bs render_append)
  then show "sublist (slash # d @ [slash]) (render (as @ d # bs) @ t)"
    unfolding sublist_def by blast
qed

text \<open>Nothing below a credential directory leaves the seat: for a path with a component such as
  \<open>.ssh\<close>, \<open>.gnupg\<close> or \<open>.aws\<close> before its last one, no tool but the path-less seat board gets allow or
  prompt for read, write, delete or exec, inside the workspace or not.\<close>

lemma credential_dir_denied:
  assumes "d \<in> set credential_dirs" "bs \<noteq> []"
    and "action \<in> {''read'', ''write'', ''delete'', ''exec''}"
  shows "pr_decision (phronesis_policy_eval e w tool (Some action)
           (Some (render (as @ d # bs) @ t))) = DENY"
proof -
  let ?p = "render (as @ d # bs) @ t"
  have p: "path_is_sensitive (Some ?p)" "nonempty (Some ?p)"
    using credential_dir_sensitive [OF assms(1,2), of as t] sensitive_nonempty by blast+
  show ?thesis
  proof (cases rule: request_cases [where e = e and tool = tool and action = "Some action"])
    case (seat a)
    then have "\<not> board_action (Some action)" using assms(3) by (auto simp: board_action_def)
    then show ?thesis using seat by (simp add: policy_eval_seat)
  next
    case (read_write t a)
    then show ?thesis using p by (elim disjE) (simp_all add: policy_eval_read_write)
  next
    case (risk t a)
    then show ?thesis using p assms(3) by (elim insertE emptyE) (simp_all add: policy_eval_risk)
  qed (use p assms(3) in \<open>simp_all add: policy_eval_locked policy_eval_missing policy_eval_exec policy_eval_other policy_eval_start\<close>)
qed

lemma credential_dir_denied_witness:
  "pr_decision (phronesis_policy_eval (\<lambda>_. None) (Some ''/home/u'') (Some ''fs'') (Some ''read'')
     (Some ''/home/u/.ssh/known_hosts'')) = DENY"
  using credential_dir_denied [of "''.ssh''" "[''known_hosts'']" "''read''" "\<lambda>_. None"
      "Some ''/home/u''" "Some ''fs''" "[''home'', ''u'']" "[]"]
  by (simp add: credential_dirs_def)

section \<open>Identity keys and scripts\<close>

text \<open>The slot key identifies the agent: two 128-bit ids map to the same hexadecimal key only if
  they are equal, the null id maps to the empty key, and every other key has 32 lower-case
  hexadecimal digits and fits the id buffer.\<close>

lemma agent_id_to_hex_inj:
  "(phronesis_agent_id_to_hex hi lo = phronesis_agent_id_to_hex hi' lo' \<longleftrightarrow> hi = hi' \<and> lo = lo')
   \<and> (phronesis_agent_id_to_hex hi lo = [] \<longleftrightarrow> hi = 0 \<and> lo = 0)
   \<and> length (phronesis_agent_id_to_hex hi lo) \<in> {0, 32}
   \<and> set (phronesis_agent_id_to_hex hi lo) \<subseteq> set ''0123456789abcdef''"
proof -
  note unat_lt_16_16 [simp]
  have zero: "phronesis_agent_id_to_hex 0 0 = []" by (simp add: phronesis_agent_id_to_hex_def)
  have ne: "hex_fixed 16 m @ hex_fixed 16 n \<noteq> []" for m n
    using length_hex_fixed [of 16 m] by (metis append_is_Nil_conv length_0_conv zero_neq_numeral)
  have inj: "hi = hi' \<and> lo = lo'"
    if "hex_fixed 16 (unat hi) @ hex_fixed 16 (unat lo) = hex_fixed 16 (unat hi') @ hex_fixed 16 (unat lo')"
    for hi lo hi' lo' :: "64 word"
    using that hex_fixed_inj [OF unat_lt_16_16 unat_lt_16_16]
    by (simp add: append_eq_append_conv word_unat_eq_iff del: hex_fixed.simps)
  have A: "phronesis_agent_id_to_hex hi lo = phronesis_agent_id_to_hex hi' lo' \<longleftrightarrow> hi = hi' \<and> lo = lo'"
    using inj [of hi lo hi' lo'] ne agent_id_to_hex_nonzero zero by metis
  have B: "phronesis_agent_id_to_hex hi lo = [] \<longleftrightarrow> hi = 0 \<and> lo = 0"
    using ne agent_id_to_hex_nonzero zero by metis
  have "length (phronesis_agent_id_to_hex hi lo) \<in> {0, 32}
    \<and> set (phronesis_agent_id_to_hex hi lo) \<subseteq> set ''0123456789abcdef''"
  proof (cases "hi = 0 \<and> lo = 0")
    case True
    then show ?thesis by (simp add: zero)
  next
    case False
    then have "phronesis_agent_id_to_hex hi lo = hex_fixed 16 (unat hi) @ hex_fixed 16 (unat lo)"
      using agent_id_to_hex_nonzero by blast
    then show ?thesis using set_hex_fixed [of 16 "unat hi"] set_hex_fixed [of 16 "unat lo"]
      by (simp del: hex_fixed.simps)
  qed
  then show ?thesis using A B by blast
qed

text \<open>A resolved script is an absolute path that fits the caller's buffer; a relative script
  keeps its components below those of the working directory.\<close>

lemma resolve_script_ok:
  assumes "phronesis_resolve_script cwd script n = Some out"
  shows "length out < n \<and> cstr_at out 0 = slash
    \<and> (\<exists>sc. script = Some sc
        \<and> (if cstr_at sc 0 = slash then out = sc
            else \<exists>c. cwd = Some c \<and> path_comps out = path_comps c @ path_comps sc))"
proof -
  obtain sc where sc: "script = Some sc" "sc \<noteq> []" "n \<noteq> 0"
    using assms by (auto simp: phronesis_resolve_script_def split: option.splits if_splits)
  show ?thesis
  proof (cases "cstr_at sc 0 = slash")
    case True
    then show ?thesis
      using assms sc by (auto simp: phronesis_resolve_script_def split: if_splits)
  next
    case False
    then obtain c where c: "cwd = Some c" "cstr_at c 0 = slash"
      and out: "out = trim_root 1 c @ slash # sc"
      and fits: "trim_len 1 c (length c) + 1 + length sc + 1 \<le> n"
      using assms sc
      by (auto simp: phronesis_resolve_script_def Let_def trim_root_def split: option.splits if_splits)
    have "path_comps out = path_comps c @ path_comps sc"
      using out path_comps_append_slash [of "trim_root 1 c" sc] by simp
    moreover have "length out < n" using out fits by (simp add: length_trim_root)
    moreover have "cstr_at out 0 = slash"
    proof -
      have "c \<noteq> []" using c(2) by auto
      then have "1 \<le> trim_len 1 c (length c)" by (intro trim_len_ge) (cases c, auto)
      then show ?thesis using out c(2) by (auto simp: cstr_at_def trim_root_def nth_append)
    qed
    ultimately show ?thesis using False sc c by auto
  qed
qed

lemma resolve_script_ok_witness:
  "phronesis_resolve_script (Some ''/ws/'') (Some ''t/a.py'') 512 = Some ''/ws/t/a.py''
   \<and> length ''/ws/t/a.py'' < 512"
proof -
  have r: "phronesis_resolve_script (Some ''/ws/'') (Some ''t/a.py'') 512 = Some ''/ws/t/a.py''"
    by (simp add: phronesis_resolve_script_def)
  show ?thesis using resolve_script_ok [OF r] r by simp
qed

end
