(* ===== verification/Json.thy ===== *)
theory Json
  imports Numbers
begin

text \<open>
  The contract of a JSON string escaper, as a locale over the text it emits for one byte. Two
  routines of the sources escape bytes (\<open>json_escape\<close> of src/action\_log.c and
  \<open>json_escape_append\<close> of src/policy\_trace.c). The reader \<open>json_body\<close> is the JSON grammar of a
  string up to its closing quote, for the escapes the two emit.
\<close>

definition quote_char :: char where "quote_char = CHR 0x22"
definition backslash :: char where "backslash = CHR 0x5C"
definition tab_char :: char where "tab_char = CHR 0x09"

lemmas json_chars = quote_char_def backslash_def newline_def carriage_def tab_char_def

definition hex_value :: "char \<Rightarrow> nat option" where
  "hex_value c =
     (if is_digit c then Some (of_char c - 48)
      else if c \<in> set ''abcdef'' then Some (of_char c - 87) else None)"

text \<open>One character of a JSON string: the byte it stands for and the text after it.\<close>

fun unesc1 :: "string \<Rightarrow> (char \<times> string) option" where
  "unesc1 [] = None"
| "unesc1 (c # r) =
     (if c = quote_char then None
      else if c = backslash then
        (case r of
           [] \<Rightarrow> None
         | d # r' \<Rightarrow>
             if d = quote_char \<or> d = backslash then Some (d, r')
             else if d = CHR ''n'' then Some (newline, r')
             else if d = CHR ''r'' then Some (carriage, r')
             else if d = CHR ''t'' then Some (tab_char, r')
             else if d = CHR ''u'' then
               (case r' of
                  x1 # x2 # x3 # x4 # r'' \<Rightarrow>
                    (case (hex_value x1, hex_value x2, hex_value x3, hex_value x4) of
                       (Some h1, Some h2, Some h3, Some h4) \<Rightarrow>
                         Some (char_of (h1 * 4096 + h2 * 256 + h3 * 16 + h4), r'')
                     | _ \<Rightarrow> None)
                | _ \<Rightarrow> None)
             else None)
      else if of_char c < (32::nat) then None
      else Some (c, r))"

lemma unesc1_shorter: "unesc1 s = Some (c, r) \<Longrightarrow> length r < length s"
  by (cases s) (auto split: if_splits list.splits option.splits)

text \<open>A string body up to its closing quote.\<close>

function json_body :: "string \<Rightarrow> (string \<times> string) option" where
  "json_body s =
     (case s of
        [] \<Rightarrow> None
      | c # r \<Rightarrow>
          if c = quote_char then Some ([], r)
          else (case unesc1 s of
                  None \<Rightarrow> None
                | Some (d, r') \<Rightarrow> (case json_body r' of None \<Rightarrow> None | Some (t, u) \<Rightarrow> Some (d # t, u))))"
  by pat_completeness auto
termination
  by (relation "measure length") (auto simp del: unesc1.simps dest!: unesc1_shorter)

declare json_body.simps [simp del]

locale json_escaper =
  fixes esc :: "char \<Rightarrow> string"
  assumes esc_start: "esc c \<noteq> [] \<and> hd (esc c) \<noteq> quote_char"
    and unesc1_esc: "unesc1 (esc c @ r) = Some (c, r)"
    and esc_printable: "d \<in> set (esc c) \<Longrightarrow> 32 \<le> (of_char d :: nat)"
begin

text \<open>Reading back the escaped text, closed by a quote, gives the text.\<close>

lemma json_body_esc: "json_body (concat (map esc s) @ quote_char # r) = Some (s, r)"
proof (induction s)
  case Nil
  then show ?case by (simp add: json_body.simps)
next
  case (Cons c s)
  let ?rest = "concat (map esc s) @ quote_char # r"
  obtain d ds where d: "esc c = d # ds" "d \<noteq> quote_char" using esc_start [of c] by (cases "esc c") auto
  have u: "unesc1 (d # ds @ ?rest) = Some (c, ?rest)" using unesc1_esc [of c ?rest] d by simp
  have "json_body (d # ds @ ?rest) = Some (c # s, r)"
    by (subst json_body.simps) (use d u Cons.IH in simp)
  then show ?case using d by simp
qed

text \<open>The escaped text has no control byte: it never breaks a line.\<close>

lemma esc_no_control: "d \<in> set (concat (map esc s)) \<Longrightarrow> 32 \<le> (of_char d :: nat)"
  using esc_printable by auto

lemma esc_no_newline: "newline \<notin> set (concat (map esc s))"
  using esc_no_control [of newline s] by (auto simp: newline_def)

end

section \<open>Escapes of control bytes\<close>

text \<open>\<open>\uXXXX\<close> of a byte.\<close>

definition u_escape :: "char \<Rightarrow> string" where
  "u_escape c = backslash # CHR ''u'' # hex_fixed 4 (of_char c)"

lemma hex_value_hexdigit: "hex_value (hexdigit n) = Some (n mod 16)"
proof -
  have "list_all (\<lambda>m. hex_value (''0123456789abcdef'' ! m) = Some m) [0..<16]" by code_simp
  moreover have "n mod 16 \<in> set [0..<16]" by simp
  ultimately have "hex_value (''0123456789abcdef'' ! (n mod 16)) = Some (n mod 16)"
    unfolding list_all_iff by blast
  then show ?thesis by (simp only: hexdigit_def)
qed

lemma hex_fixed_4: "hex_fixed 4 n = [hexdigit (n div 4096), hexdigit (n div 256), hexdigit (n div 16), hexdigit n]"
proof -
  have "hex_fixed (Suc (Suc (Suc (Suc 0)))) n = [hexdigit (n div 4096), hexdigit (n div 256), hexdigit (n div 16), hexdigit n]"
    by (simp add: div_mult2_eq [symmetric])
  moreover have "(4::nat) = Suc (Suc (Suc (Suc 0)))" by simp
  ultimately show ?thesis by (simp only:)
qed

lemma u_escape_length [simp]: "length (u_escape c) = 6"
  by (simp add: u_escape_def hex_fixed_4)

lemma unesc1_u_escape: "unesc1 (u_escape c @ r) = Some (c, r)"
proof -
  let ?n = "of_char c :: nat"
  have n: "?n < 256" by simp
  have z: "?n div 4096 = 0" "?n div 256 = 0" using n by (simp_all only: div_less)
  have v: "?n div 16 mod 16 * 16 + ?n mod 16 = ?n"
  proof -
    have "?n div 16 < 16" using n by (simp add: less_mult_imp_div_less)
    then have "?n div 16 mod 16 = ?n div 16" by (rule mod_less)
    then show ?thesis by (simp only: div_mult_mod_eq)
  qed
  show ?thesis
    by (simp add: u_escape_def hex_fixed_4 hex_value_hexdigit json_chars z v)
qed

lemma hexdigit_printable: "32 \<le> (of_char (hexdigit n) :: nat)"
  using hexdigit_mem [of n] by auto

lemma u_escape_printable: "d \<in> set (u_escape c) \<Longrightarrow> 32 \<le> (of_char d :: nat)"
  using hexdigit_printable by (auto simp: u_escape_def hex_fixed_4 json_chars)

lemma u_escape_start: "u_escape c \<noteq> [] \<and> hd (u_escape c) \<noteq> quote_char"
  by (simp add: u_escape_def json_chars)

end
