(* ===== verification/Action_Log.thy ===== *)
theory Action_Log
  imports Host Json
begin

text \<open>
  src/action\_log.c: the JSON escape with its bounded buffer, the append of one record and the read of
  the last one. The escape is related to a reference definition byte by byte (\<open>esc_log\<close>), which
  meets the contract \<open>json_escaper\<close>.
\<close>

section \<open>The code\<close>

text \<open>The loop of \<open>json_escape\<close>: \<open>out\<close> is the text written so far, \<open>j\<close> its length.\<close>

fun json_escape_loop :: "nat \<Rightarrow> string \<Rightarrow> string \<Rightarrow> string option" where
  "json_escape_loop outlen out [] = (if length out \<ge> outlen then None else Some out)"
| "json_escape_loop outlen out (c # cs) =
     (if c = quote_char \<or> c = backslash then
        (if length out + 2 \<ge> outlen then None else json_escape_loop outlen (out @ [backslash, c]) cs)
      else if of_char c < (32::nat) then
        (if length out + 6 \<ge> outlen then None else json_escape_loop outlen (out @ u_escape c) cs)
      else if length out + 1 \<ge> outlen then None
      else json_escape_loop outlen (out @ [c]) cs)"

definition json_escape :: "cstring_opt \<Rightarrow> nat \<Rightarrow> string option" where
  "json_escape s outlen = json_escape_loop outlen [] (case s of None \<Rightarrow> [] | Some t \<Rightarrow> t)"

definition log_line :: "int \<Rightarrow> string \<Rightarrow> string \<Rightarrow> string \<Rightarrow> string" where
  "log_line ts ea ek ed =
     ''{'' @ [quote_char] @ ''ts'' @ [quote_char] @ '':'' @ show_int ts @ '','' @
     [quote_char] @ ''agent'' @ [quote_char] @ '':'' @ [quote_char] @ ea @ [quote_char] @ '','' @
     [quote_char] @ ''kind'' @ [quote_char] @ '':'' @ [quote_char] @ ek @ [quote_char] @ '','' @
     [quote_char] @ ''detail'' @ [quote_char] @ '':'' @ [quote_char] @ ed @ [quote_char] @ ''}''"

definition phronesis_action_log_append ::
  "cstring_opt \<Rightarrow> cstring_opt \<Rightarrow> cstring_opt \<Rightarrow> cstring_opt \<Rightarrow> world \<Rightarrow> rc \<times> world" where
  "phronesis_action_log_append path agent_id kind detail w =
     (if path = None \<or> \<not> nonempty kind then (ERR_INVAL, w)
      else
        (case json_escape kind (PHRONESIS_DETAIL_MAX * 2) of
           None \<Rightarrow> (ERR_INVAL, w)
         | Some ek \<Rightarrow>
             (case json_escape detail (PHRONESIS_DETAIL_MAX * 2) of
                None \<Rightarrow> (ERR_INVAL, w)
              | Some ed \<Rightarrow>
                  (case json_escape agent_id (PHRONESIS_ID_MAX * 2) of
                     None \<Rightarrow> (ERR_INVAL, w)
                   | Some ea \<Rightarrow>
                       (case fopen_wa False (the path) w of
                          (False, w1) \<Rightarrow> (ERR_IO, w1)
                        | (True, w1) \<Rightarrow>
                            (case fput (the path) (log_line (w_time w) ea ek ed @ [newline]) w1 of
                               (PutOk, w2) \<Rightarrow> (OK, w2)
                             | (_, w2) \<Rightarrow> (ERR_IO, w2)))))))"

definition LINE_MAX :: nat where "LINE_MAX = 2048"

text \<open>The read loop of \<open>phronesis_action_log_last\<close>: each chunk as a C string without its line end;
  a chunk that is not empty replaces the last one.\<close>

function last_loop :: "string \<Rightarrow> bytes \<Rightarrow> string" where
  "last_loop lst s =
     (if s = [] then lst
      else
        let chunk = fgets_chunk LINE_MAX s; line = strip_eol (cstr chunk)
        in last_loop (if line \<noteq> [] then snprintf_buf LINE_MAX line else lst) (drop (length chunk) s))"
  by pat_completeness auto
termination
proof (relation "measure (\<lambda>(l, s). length s)", goal_cases)
  case (2 lst s chunk line)
  then show ?case using fgets_chunk_pos [of LINE_MAX s] by (simp add: LINE_MAX_def)
qed simp

declare last_loop.simps [simp del]

definition phronesis_action_log_last :: "world \<Rightarrow> cstring_opt \<Rightarrow> nat \<Rightarrow> rc \<times> string" where
  "phronesis_action_log_last w path buflen =
     (if path = None \<or> buflen = 0 then (ERR_INVAL, [])
      else
        (case fopen_r w (the path) of
           None \<Rightarrow> (ERR_IO, [])
         | Some content \<Rightarrow>
             let lst = last_loop [] content
             in if lst = [] then (ERR_NOTFOUND, [])
                else if \<not> snprintf_fits buflen lst then (ERR_INVAL, snprintf_buf buflen lst)
                else (OK, lst)))"

section \<open>The escape\<close>

definition esc_log :: "char \<Rightarrow> string" where
  "esc_log c =
     (if c = quote_char \<or> c = backslash then [backslash, c]
      else if of_char c < (32::nat) then u_escape c
      else [c])"

interpretation log_esc: json_escaper esc_log
proof
  fix c :: char and r :: string
  show "esc_log c \<noteq> [] \<and> hd (esc_log c) \<noteq> quote_char"
    using u_escape_start by (auto simp: esc_log_def json_chars)
  show "unesc1 (esc_log c @ r) = Some (c, r)"
    using unesc1_u_escape by (auto simp: esc_log_def json_chars)
  show "32 \<le> (of_char d :: nat)" if "d \<in> set (esc_log c)" for d
    using that u_escape_printable by (auto simp: esc_log_def json_chars split: if_splits)
qed

lemma json_escape_loop_eq:
  "json_escape_loop n out s =
     (let r = out @ concat (map esc_log s) in if length r < n then Some r else None)"
proof (induction n out s rule: json_escape_loop.induct)
  case (1 n out)
  then show ?case by simp
next
  case (2 n out c cs)
  consider (q) "c = quote_char \<or> c = backslash" | (u) "\<not> (c = quote_char \<or> c = backslash)" "of_char c < (32::nat)"
    | (p) "\<not> (c = quote_char \<or> c = backslash)" "\<not> of_char c < (32::nat)" by blast
  then show ?case
  proof cases
    case q
    then have "esc_log c = [backslash, c]" by (simp add: esc_log_def)
    then show ?thesis using q "2.IH"(1) by (auto simp: Let_def)
  next
    case u
    then have "esc_log c = u_escape c" by (simp add: esc_log_def)
    then show ?thesis using u "2.IH"(2) by (auto simp: Let_def)
  next
    case p
    then have "esc_log c = [c]" by (simp add: esc_log_def)
    then show ?thesis using p "2.IH"(3) by (auto simp: Let_def)
  qed
qed

lemma json_escape_eq:
  "json_escape (Some s) n =
     (let r = concat (map esc_log s) in if length r < n then Some r else None)"
  by (simp add: json_escape_def json_escape_loop_eq)

text \<open>C34: The bounded JSON escape loses nothing and never overruns. For a C string, \<open>json_escape\<close>
  succeeds exactly when the escaped text with its NUL fits the buffer; on success a JSON reader
  gets the original bytes back from the text up to a closing quote, and the text has no control
  byte, so it cannot break a line of the log.\<close>

theorem json_escape_roundtrip:
  assumes "NUL \<notin> set s"
  shows "(json_escape (Some s) n = None \<longleftrightarrow> n \<le> length (concat (map esc_log s)))
    \<and> (\<forall>e. json_escape (Some s) n = Some e \<longrightarrow>
         length e < n \<and> json_body (e @ quote_char # r) = Some (s, r) \<and> newline \<notin> set e)"
  using log_esc.json_body_esc log_esc.esc_no_newline
  by (auto simp: json_escape_eq Let_def)

lemma json_escape_roundtrip_witness:
  "json_body (the (json_escape (Some [CHR ''a'', CHR 0x0A, CHR 0x22]) 64) @ quote_char # ''}'')
   = Some ([CHR ''a'', CHR 0x0A, CHR 0x22], ''}'')"
proof -
  have "json_escape (Some [CHR ''a'', CHR 0x0A, CHR 0x22]) 64
      = Some (CHR ''a'' # u_escape CHR 0x0A @ [CHR 0x5C, CHR 0x22])" by code_simp
  then show ?thesis
    using json_escape_roundtrip [of "[CHR ''a'', CHR 0x0A, CHR 0x22]" 64 "''}''"] by simp
qed

section \<open>One record per line\<close>

definition log_text :: "cstring_opt \<Rightarrow> string" where
  "log_text p = (case p of None \<Rightarrow> [] | Some s \<Rightarrow> s)"

lemma json_escape_Some:
  "json_escape p n = Some e \<longleftrightarrow> e = concat (map esc_log (log_text p)) \<and> length e < n"
  by (auto simp: json_escape_def json_escape_loop_eq log_text_def Let_def split: option.splits)

lemma append_ok_iff:
  "phronesis_action_log_append (Some path) agent kind detail w = (OK, w') \<longleftrightarrow>
     nonempty kind
     \<and> (\<exists>ea ek ed w1. json_escape kind 1024 = Some ek \<and> json_escape detail 1024 = Some ed
         \<and> json_escape agent 128 = Some ea \<and> fopen_wa False path w = (True, w1)
         \<and> fput path (log_line (w_time w) ea ek ed @ [newline]) w1 = (PutOk, w'))"
  by (auto simp: phronesis_action_log_append_def PHRONESIS_DETAIL_MAX_def PHRONESIS_ID_MAX_def
      split: option.splits bool.splits prod.splits put_result.splits)

text \<open>The bytes of a regular file, the empty text when there is none.\<close>

definition file_text :: "world \<Rightarrow> string \<Rightarrow> bytes" where
  "file_text w p = (case w_fs w (w_canon w p) of Some (Reg b) \<Rightarrow> b | _ \<Rightarrow> [])"

lemma open_append:
  assumes "fopen_wa False path w = (True, w1)" "fput path d w1 = (PutOk, w2)"
  shows "fopen_r w2 path = Some (file_text w path @ d)"
    and "k \<noteq> w_canon w path \<Longrightarrow> w_fs w2 k = w_fs w k"
  using assms
  by (auto simp: fopen_wa_def fput_def put_bytes_def fopen_r_def file_text_def split: if_splits option.splits node.splits)

lemma show_int_no_newline: "newline \<notin> set (show_int i)"
  using is_digit_show_nat [of newline] by (auto simp: show_int_def newline_def is_digit_def)

lemma log_line_no_newline:
  "newline \<notin> set ea \<Longrightarrow> newline \<notin> set ek \<Longrightarrow> newline \<notin> set ed \<Longrightarrow> newline \<notin> set (log_line ts ea ek ed)"
  using show_int_no_newline [of ts] by (simp add: log_line_def) (simp add: json_chars)

section \<open>Reading the last record\<close>

lemma fgets_chunk_line:
  assumes "newline \<notin> set l" "length l + 1 < n"
  shows "fgets_chunk n (l @ newline # r) = l @ [newline]"
proof -
  have "take (n - 1) (l @ newline # r) = l @ newline # take (n - 2 - length l) r"
    using assms(2) by (simp add: take_Cons' numeral_2_eq_2)
  then show ?thesis using assms(1) by (auto simp: fgets_chunk_def Let_def takeWhile_append)
qed

lemma fgets_chunk_append:
  assumes "s = a @ [newline]"
  shows "\<exists>u. s = fgets_chunk n s @ u \<and> fgets_chunk n (s @ r) = fgets_chunk n s \<and> (u = [] \<or> last u = newline)"
proof -
  let ?t = "take (n - 1) s"
  show ?thesis
  proof (cases "newline \<in> set ?t")
    case True
    then obtain b c where t: "?t = b @ newline # c" "newline \<notin> set b" by (metis split_list_first)
    have p: "\<exists>z. take (n - 1) (s @ r) = ?t @ z" by simp
    then have "fgets_chunk n s = b @ [newline]" "fgets_chunk n (s @ r) = b @ [newline]"
      using t by (auto simp: fgets_chunk_def Let_def takeWhile_append)
    moreover have "s = b @ [newline] @ (c @ drop (n - 1) s)"
      using t by (metis append.assoc append_Cons append_Nil append_take_drop_id)
    ultimately show ?thesis using assms
      by (intro exI [of _ "c @ drop (n - 1) s"]) (metis append.assoc append_is_Nil_conv last_append last_snoc)
  next
    case False
    then have "n - 1 < length s" using assms by (metis in_set_conv_decomp linorder_not_less take_all)
    then have t: "take (n - 1) (s @ r) = ?t" by simp
    have "fgets_chunk n s = ?t" using False by (simp add: fgets_chunk_def Let_def)
    moreover have "fgets_chunk n (s @ r) = ?t" unfolding fgets_chunk_def Let_def t using False by simp
    moreover have "drop (n - 1) s = [] \<or> last (drop (n - 1) s) = newline"
      using assms by (metis last_drop last_snoc linorder_not_less drop_all)
    ultimately show ?thesis by (metis append_take_drop_id)
  qed
qed

lemma last_loop_Nil [simp]: "last_loop l [] = l"
  by (subst last_loop.simps) simp

lemma last_loop_append:
  "a = [] \<or> last a = newline \<Longrightarrow> last_loop l (a @ r) = last_loop (last_loop l a) r"
proof (induction a arbitrary: l rule: length_induct)
  case (1 a)
  show ?case
  proof (cases "a = []")
    case False
    then obtain b where a: "a = b @ [newline]" using "1.prems" by (metis append_butlast_last_id)
    let ?ch = "fgets_chunk LINE_MAX a"
    obtain u where u: "a = ?ch @ u" "fgets_chunk LINE_MAX (a @ r) = ?ch" "u = [] \<or> last u = newline"
      using fgets_chunk_append [OF a] by blast
    have "0 < length ?ch" using False by (intro fgets_chunk_pos) (auto simp: LINE_MAX_def)
    then have len: "length u < length a" using u(1) by (metis length_append less_add_same_cancel2)
    have dr: "drop (length ?ch) a = u" using u(1) by (metis append_eq_conv_conj)
    have dr2: "drop (length ?ch) (a @ r) = u @ r" using u(1) by (metis append.assoc append_eq_conv_conj)
    let ?l = "if strip_eol (cstr ?ch) \<noteq> [] then snprintf_buf LINE_MAX (strip_eol (cstr ?ch)) else l"
    have "last_loop l (a @ r) = last_loop ?l (u @ r)"
      by (subst last_loop.simps) (use False u(2) dr2 in \<open>simp add: Let_def\<close>)
    also have "\<dots> = last_loop (last_loop ?l u) r" using "1.IH" len u(3) by blast
    also have "last_loop ?l u = last_loop l a"
      by (subst (2) last_loop.simps) (use False dr in \<open>simp add: Let_def\<close>)
    finally show ?thesis .
  qed simp
qed

lemma strip_eol_line: "l = b @ [c] \<Longrightarrow> c \<noteq> newline \<Longrightarrow> c \<noteq> carriage \<Longrightarrow> strip_eol (l @ [newline]) = l \<and> strip_eol l = l"
  by (simp add: strip_eol_def)

lemma last_loop_one_chunk:
  assumes "s \<noteq> []" "fgets_chunk LINE_MAX s = ch" "strip_eol (cstr ch) = line" "line \<noteq> []" "length line < LINE_MAX"
  shows "last_loop x s = last_loop line (drop (length ch) s)"
  by (subst last_loop.simps) (use assms in \<open>simp add: Let_def snprintf_fits_def\<close>)

lemma last_loop_newline: "last_loop x [newline] = x"
proof -
  have "strip_eol (cstr [newline]) = []" by (simp add: strip_eol_def cstr_def json_chars)
  then show ?thesis
    by (subst last_loop.simps) (simp add: Let_def fgets_chunk_def LINE_MAX_def)
qed

lemma last_loop_line:
  assumes l: "l = b @ [c]" "c \<noteq> newline" "c \<noteq> carriage" "newline \<notin> set l" "NUL \<notin> set l" "length l \<le> 2047"
  shows "last_loop x (l @ [newline]) = l"
proof (cases "length l = 2047")
  case True
  then have "take 2047 (l @ [newline]) = l" by simp
  then have ch: "fgets_chunk LINE_MAX (l @ [newline]) = l" using l(4) by (simp add: fgets_chunk_def LINE_MAX_def)
  have "strip_eol (cstr l) = l" using strip_eol_line [OF l(1-3)] cstr_id [OF l(5)] by simp
  then have "last_loop x (l @ [newline]) = last_loop l (drop (length l) (l @ [newline]))"
    using True l(1) by (intro last_loop_one_chunk [OF _ ch]) (auto simp: LINE_MAX_def)
  then show ?thesis by (simp add: last_loop_newline)
next
  case False
  then have ch: "fgets_chunk LINE_MAX (l @ [newline]) = l @ [newline]"
    using fgets_chunk_line [OF l(4), of LINE_MAX "[]"] l(6) by (simp add: LINE_MAX_def)
  have "NUL \<notin> set (l @ [newline])" using l(5) by (simp add: newline_def)
  then have "strip_eol (cstr (l @ [newline])) = l" using strip_eol_line [OF l(1-3)] cstr_id by metis
  then have "last_loop x (l @ [newline]) = last_loop l (drop (length (l @ [newline])) (l @ [newline]))"
    using l(1,6) by (intro last_loop_one_chunk [OF _ ch]) (auto simp: LINE_MAX_def)
  then show ?thesis by simp
qed

text \<open>A line of more than 2047 bytes comes in two chunks; the second one wins.\<close>

lemma last_loop_long_line:
  assumes l: "l = b @ [c]" "c \<noteq> newline" "c \<noteq> carriage" "newline \<notin> set l" "NUL \<notin> set l"
    and len: "2047 < length l" "length l \<le> 4094"
  shows "last_loop x (l @ [newline]) = drop 2047 l"
proof -
  let ?h = "take 2047 l" and ?t = "drop 2047 l"
  have "take 2047 (l @ [newline]) = ?h" using len by simp
  moreover have "newline \<notin> set ?h" using l(4) by (meson in_set_takeD)
  ultimately have ch: "fgets_chunk LINE_MAX (l @ [newline]) = ?h" by (simp add: fgets_chunk_def LINE_MAX_def)
  define y where "y = (if strip_eol (cstr ?h) \<noteq> [] then snprintf_buf LINE_MAX (strip_eol (cstr ?h)) else x)"
  have "last_loop x (l @ [newline]) = last_loop y (?t @ [newline])"
    by (subst last_loop.simps) (use len ch in \<open>simp add: Let_def y_def\<close>)
  also have "\<dots> = ?t"
  proof (rule last_loop_line)
    show "?t = drop 2047 b @ [c]" using l(1) len by simp
  qed (use l len in \<open>auto dest: in_set_dropD\<close>)
  finally show ?thesis .
qed

definition log_record :: "world \<Rightarrow> cstring_opt \<Rightarrow> cstring_opt \<Rightarrow> cstring_opt \<Rightarrow> string" where
  "log_record w agent kind detail =
     log_line (w_time w) (concat (map esc_log (log_text agent))) (concat (map esc_log (log_text kind)))
       (concat (map esc_log (log_text detail)))"

definition c_string_opt :: "cstring_opt \<Rightarrow> bool" where
  "c_string_opt p \<longleftrightarrow> NUL \<notin> set (log_text p)"

lemma NUL_not_printable: "NUL \<notin> set s \<Longrightarrow> NUL \<notin> set (concat (map esc_log s))"
  using log_esc.esc_no_control [of NUL s] by auto

lemma log_line_snoc: "\<exists>b. log_line ts ea ek ed = b @ ''}''"
  unfolding log_line_def by (metis append.assoc)

lemma show_int_no_NUL: "NUL \<notin> set (show_int i)"
  using is_digit_show_nat [of NUL] by (auto simp: show_int_def is_digit_def)

lemma log_record_shape:
  assumes "c_string_opt agent" "c_string_opt kind" "c_string_opt detail"
  shows "\<exists>b. log_record w agent kind detail = b @ ''}''"
    and "newline \<notin> set (log_record w agent kind detail)"
    and "NUL \<notin> set (log_record w agent kind detail)"
proof -
  note parts = assms [unfolded c_string_opt_def]
  note nn = parts [THEN NUL_not_printable]
  show "\<exists>b. log_record w agent kind detail = b @ ''}''" unfolding log_record_def by (rule log_line_snoc)
  show "newline \<notin> set (log_record w agent kind detail)"
    unfolding log_record_def by (rule log_line_no_newline) (rule log_esc.esc_no_newline)+
  show "NUL \<notin> set (log_record w agent kind detail)"
    using nn show_int_no_NUL [of "w_time w"] unfolding log_record_def log_line_def json_chars by simp
qed

text \<open>A reader of one record, written for the format and not from the code that prints it: an object with the four keys
  in their order, a number with an optional minus sign, and three JSON strings.\<close>

definition expect :: "string \<Rightarrow> string \<Rightarrow> string option" where
  "expect p s = (if prefix p s then Some (drop (length p) s) else None)"

definition json_key :: "string \<Rightarrow> string" where
  "json_key k = [quote_char] @ k @ [quote_char] @ '':''"

definition read_number :: "string \<Rightarrow> (int \<times> string) option" where
  "read_number s = (if s \<noteq> [] \<and> (is_digit (hd s) \<or> hd s = CHR ''-'') then scan_int s else None)"

definition read_text :: "string \<Rightarrow> string \<Rightarrow> (string \<times> string) option" where
  "read_text k s = Option.bind (expect ('','' @ json_key k @ [quote_char]) s) json_body"

definition read_record :: "string \<Rightarrow> (int \<times> string \<times> string \<times> string) option" where
  "read_record s =
     Option.bind (expect (''{'' @ json_key ''ts'') s) (\<lambda>s1.
     Option.bind (read_number s1) (\<lambda>(ts, s2).
     Option.bind (read_text ''agent'' s2) (\<lambda>(agent, s3).
     Option.bind (read_text ''kind'' s3) (\<lambda>(kind, s4).
     Option.bind (read_text ''detail'' s4) (\<lambda>(detail, s5).
     if s5 = ''}'' then Some (ts, agent, kind, detail) else None)))))"

lemma expect_append: "expect p (p @ s) = Some s"
  by (simp add: expect_def)

lemma read_number_show: "s \<noteq> [] \<Longrightarrow> \<not> is_digit (hd s) \<Longrightarrow> read_number (show_int i @ s) = Some (i, s)"
proof -
  obtain d ds where "show_nat (nat \<bar>i\<bar>) = d # ds" "is_digit d" using show_nat_Cons by blast
  then have "show_int i \<noteq> [] \<and> (is_digit (hd (show_int i)) \<or> hd (show_int i) = CHR ''-'')" by (auto simp: show_int_def)
  then show "s \<noteq> [] \<Longrightarrow> \<not> is_digit (hd s) \<Longrightarrow> read_number (show_int i @ s) = Some (i, s)"
    by (simp add: read_number_def scan_show_int)
qed

lemma read_text_esc: "read_text k ('','' @ json_key k @ [quote_char] @ concat (map esc_log t) @ quote_char # s) = Some (t, s)"
  using expect_append [of "'','' @ json_key k @ [quote_char]"] log_esc.json_body_esc by (simp add: read_text_def)

text \<open>What the append prints is one line, and the reader gets the time and the three texts back from it.\<close>

lemma read_log_record: "read_record (log_record w agent kind detail) = Some (w_time w, log_text agent, log_text kind, log_text detail)"
proof -
  let ?e = "\<lambda>p. concat (map esc_log (log_text p))"
  let ?d = "'','' @ json_key ''detail'' @ [quote_char] @ ?e detail @ quote_char # ''}''"
  let ?k = "'','' @ json_key ''kind'' @ [quote_char] @ ?e kind @ quote_char # ?d"
  let ?a = "'','' @ json_key ''agent'' @ [quote_char] @ ?e agent @ quote_char # ?k"
  have "log_record w agent kind detail = (''{'' @ json_key ''ts'') @ show_int (w_time w) @ ?a"
    unfolding log_record_def log_line_def json_key_def by (simp only: append_assoc append_Cons append_Nil)
  moreover have "read_number (show_int (w_time w) @ ?a) = Some (w_time w, ?a)" by (rule read_number_show) (simp_all add: is_digit_def)
  ultimately show ?thesis
    unfolding read_record_def by (simp only: expect_append Option.bind.bind_lunit prod.case read_text_esc) simp
qed

lemma log_record_line: "newline \<notin> set (log_record w agent kind detail)"
  unfolding log_record_def by (rule log_line_no_newline) (rule log_esc.esc_no_newline)+

lemma append_ok_file:
  assumes "phronesis_action_log_append (Some path) agent kind detail w = (OK, w')"
  shows "fopen_r w' path = Some (file_text w path @ log_record w agent kind detail @ [newline])"
proof -
  obtain ea ek ed w1 where e: "json_escape kind 1024 = Some ek" "json_escape detail 1024 = Some ed"
      "json_escape agent 128 = Some ea"
    and o: "fopen_wa False path w = (True, w1)" "fput path (log_line (w_time w) ea ek ed @ [newline]) w1 = (PutOk, w')"
    using assms unfolding append_ok_iff by blast
  have "log_line (w_time w) ea ek ed = log_record w agent kind detail"
    using e by (simp add: json_escape_Some log_record_def)
  then show ?thesis using open_append(1) [OF o] by simp
qed

section \<open>Properties\<close>

text \<open>What was appended last is what is read back. When an append succeeds on a log that is empty
  or ends with a newline, and the record is at most 2047 bytes long, reading the last line returns
  exactly that record, whatever the log held before, provided the caller's buffer can hold it.\<close>

lemma action_log_append_last:
  assumes ok: "phronesis_action_log_append (Some path) agent kind detail w = (OK, w')"
    and strs: "c_string_opt agent" "c_string_opt kind" "c_string_opt detail"
    and tail: "file_text w path = [] \<or> last (file_text w path) = newline"
    and len: "length (log_record w agent kind detail) \<le> 2047"
    and buf: "length (log_record w agent kind detail) < n"
  shows "phronesis_action_log_last w' (Some path) n = (OK, log_record w agent kind detail)"
proof -
  let ?l = "log_record w agent kind detail"
  obtain b where b: "?l = b @ ''}''" using log_record_shape(1) [OF strs] by blast
  have "last_loop [] (file_text w path @ ?l @ [newline]) = ?l"
    using last_loop_append [OF tail] last_loop_line [OF b _ _ log_record_shape(2,3) [OF strs] len]
    by (simp add: json_chars)
  then show ?thesis
    using append_ok_file [OF ok] buf b
    by (simp add: phronesis_action_log_last_def Let_def snprintf_fits_def)
qed

definition log_world :: world where
  "log_world = fresh_world\<lparr>w_fs := (\<lambda>k. if k = [] then Some (Dir 493)
     else if k = [''log''] then Some (Reg (''{}'' @ [newline])) else None)\<rparr>"

lemma action_log_append_last_witness:
  "phronesis_action_log_last
     (snd (phronesis_action_log_append (Some ''/log'') (Some ''a1'') (Some ''stop'') (Some ''idempotent'') log_world))
     (Some ''/log'') 512
   = (OK, log_record log_world (Some ''a1'') (Some ''stop'') (Some ''idempotent''))"
proof -
  let ?r = "phronesis_action_log_append (Some ''/log'') (Some ''a1'') (Some ''stop'') (Some ''idempotent'') log_world"
  have ok: "fst ?r = OK" by code_simp
  have len: "length (log_record log_world (Some ''a1'') (Some ''stop'') (Some ''idempotent'')) = 58" by code_simp
  have tail_text: "file_text log_world ''/log'' = ''{}'' @ [newline]" by code_simp
  have eq: "?r = (OK, snd ?r)" using ok by (metis prod.collapse)
  show ?thesis
    by (rule action_log_append_last [OF eq]) (simp_all add: c_string_opt_def log_text_def len tail_text)
qed

text \<open>A record longer than 2047 bytes is not read back: the reader takes the line in chunks of 2047
  bytes and returns the part after the first chunk as if it were the last record.\<close>

lemma action_log_last_long_record:
  assumes ok: "phronesis_action_log_append (Some path) agent kind detail w = (OK, w')"
    and strs: "c_string_opt agent" "c_string_opt kind" "c_string_opt detail"
    and tail: "file_text w path = [] \<or> last (file_text w path) = newline"
    and len: "2047 < length (log_record w agent kind detail)" "length (log_record w agent kind detail) \<le> 4094"
  shows "phronesis_action_log_last w' (Some path) 2048 = (OK, drop 2047 (log_record w agent kind detail))"
proof -
  let ?l = "log_record w agent kind detail"
  obtain b where b: "?l = b @ ''}''" using log_record_shape(1) [OF strs] by blast
  have "last_loop [] (file_text w path @ ?l @ [newline]) = drop 2047 ?l"
    using last_loop_append [OF tail] last_loop_long_line [OF b _ _ log_record_shape(2,3) [OF strs] len]
    by (simp add: json_chars)
  then show ?thesis
    using append_ok_file [OF ok] len
    by (simp add: phronesis_action_log_last_def Let_def snprintf_fits_def)
qed

lemma esc_log_replicate: "esc_log c = [c] \<Longrightarrow> concat (map esc_log (replicate n c)) = replicate n c"
  by (induction n) auto

lemma action_log_last_long_record_witness:
  "phronesis_action_log_last
     (snd (phronesis_action_log_append (Some ''/log'') (Some ''a1'') (Some (replicate 1010 CHR ''k''))
        (Some (replicate 1010 CHR ''d'')) log_world))
     (Some ''/log'') 2048
   = (OK, drop 2047 (log_record log_world (Some ''a1'') (Some (replicate 1010 CHR ''k'')) (Some (replicate 1010 CHR ''d''))))"
proof -
  let ?k = "replicate 1010 CHR ''k''" and ?d = "replicate 1010 CHR ''d''"
  let ?r = "phronesis_action_log_append (Some ''/log'') (Some ''a1'') (Some ?k) (Some ?d) log_world"
  have e: "concat (map esc_log ?k) = ?k" "concat (map esc_log ?d) = ?d" "concat (map esc_log ''a1'') = ''a1''"
    by (rule esc_log_replicate; simp add: esc_log_def json_chars)+ (simp add: esc_log_def json_chars)
  have o: "fopen_wa False ''/log'' log_world = (True, log_world)"
    by (simp add: fopen_wa_def log_world_def fresh_world_def path_comps_def)
  have p: "\<exists>w2. fput ''/log'' x log_world = (PutOk, w2)" for x
    by (simp add: fput_def put_bytes_def log_world_def fresh_world_def path_comps_def)
  have "\<exists>w2. ?r = (OK, w2)"
    unfolding append_ok_iff json_escape_Some log_text_def option.case using e o p by simp
  then have eq: "?r = (OK, snd ?r)" by auto
  have t: "show_int (w_time log_world) = ''17''" by code_simp
  have tail_text: "file_text log_world ''/log'' = ''{}'' @ [newline]" by code_simp
  have len: "length (log_record log_world (Some ''a1'') (Some ?k) (Some ?d)) = 2064"
    unfolding log_record_def log_text_def option.case e log_line_def t by simp
  show ?thesis
    by (rule action_log_last_long_record [OF eq]) (simp_all add: c_string_opt_def log_text_def len tail_text)
qed

end
