(* ===== verification/Supervisor.thy ===== *)
theory Supervisor
  imports Slots Policy Action_Log
begin

text \<open>
  The operations of src/supervisor.c on the slots of theory Slots, and the identity check
  \<open>phronesis_policy_require_running_agent\<close> of src/policy.c that calls them. Each operation takes the
  supervisor and the world and returns its code, the supervisor and the world; \<open>with_sup\<close> adds the NULL
  check every entry point makes. Pointers to results are always given by the callers in the sources,
  so their NULL checks are left out.
\<close>

section \<open>Processes\<close>

definition reap_slot :: "agent_slot \<Rightarrow> world \<Rightarrow> agent_slot \<times> world" where
  "reap_slot a w =
     (if slot_state a \<noteq> AGENT_RUNNING \<or> slot_pid a \<le> 0 then (a, w)
      else if kill0 w (slot_pid a) = Some ESRCH then
        (case waitpid (slot_pid a) w of
           (r, w1) \<Rightarrow>
             (a\<lparr>exit_status := (case r of Reaped p st \<Rightarrow> if p = slot_pid a then st else -1 | _ \<Rightarrow> -1),
                slot_state := AGENT_STOPPED, slot_pid := 0\<rparr>, w1))
      else
        (case waitpid (slot_pid a) w of
           (Reaped p st, w1) \<Rightarrow>
             (if p = slot_pid a then (a\<lparr>exit_status := st, slot_state := AGENT_STOPPED, slot_pid := 0\<rparr>, w1)
              else (a, w1))
         | (_, w1) \<Rightarrow> (a, w1)))"

text \<open>\<open>for (tries = 0; tries < 50; tries++)\<close> of \<open>kill_tree\<close>, with the tries that are left.\<close>

fun wait_gone :: "nat \<Rightarrow> pid_t \<Rightarrow> world \<Rightarrow> world" where
  "wait_gone 0 pgid w = w"
| "wait_gone (Suc n) pgid w =
     (if kill0 w (- pgid) = Some ESRCH then w
      else wait_gone n pgid (usleep (snd (waitpid (- pgid) w))))"

text \<open>\<open>while (waitpid(-pgid, &st, WNOHANG) > 0)\<close>: every turn takes a process out of the table.\<close>

function drain :: "pid_t \<Rightarrow> world \<Rightarrow> world" where
  "drain pgid w =
     (case waitpid (- pgid) w of
        (Reaped p st, w1) \<Rightarrow> if p > 0 then drain pgid w1 else w1
      | (_, w1) \<Rightarrow> w1)"
  by pat_completeness auto
termination
  by (relation "measure (\<lambda>(g, w). length (w_procs w))") (auto dest: waitpid_length [OF sym])

declare drain.simps [simp del]

definition kill_tree :: "pid_t \<Rightarrow> world \<Rightarrow> rc \<times> world" where
  "kill_tree pgid w =
     (if pgid \<le> 1 then (ERR_INVAL, w)
      else
        let w1 = wait_gone 50 pgid (kill_sig (- pgid) SIGTERM w);
            w2 = (if kill0 w1 (- pgid) = None then wait_gone 50 pgid (kill_sig (- pgid) SIGKILL w1) else w1)
        in (OK, drain pgid w2))"

section \<open>Opening\<close>

definition with_sup ::
  "(supervisor \<Rightarrow> world \<Rightarrow> rc \<times> supervisor \<times> world) \<Rightarrow> supervisor option \<Rightarrow> world \<Rightarrow> rc \<times> supervisor option \<times> world" where
  "with_sup f so w =
     (case so of
        None \<Rightarrow> (ERR_INVAL, None, w)
      | Some s \<Rightarrow> (case f s w of (r, s', w') \<Rightarrow> (r, Some s', w')))"

text \<open>\<open>calloc\<close> zeroes the structure. Whether it succeeds is the caller's \<open>mem\<close>.\<close>

definition phronesis_supervisor_open ::
  "bool \<Rightarrow> cstring_opt \<Rightarrow> cstring_opt \<Rightarrow> world \<Rightarrow> (rc + supervisor) \<times> world" where
  "phronesis_supervisor_open mem st rt w =
     (if \<not> mem then (Inl ERR_IO, w)
      else
        (case phronesis_paths_resolve PHRONESIS_PATH_MAX PHRONESIS_PATH_MAX PHRONESIS_PATH_MAX st rt w of
           (Inl e, w1) \<Rightarrow> (Inl e, w1)
         | (Inr (sd, rd, lg), w1) \<Rightarrow>
             let ad = rd @ ''/agents''
             in if \<not> snprintf_fits PHRONESIS_PATH_MAX ad then (Inl ERR_INVAL, w1)
                else
                  (case phronesis_paths_ensure_dir (Some ad) mode_0700 w1 of
                     (r, w2) \<Rightarrow>
                       if r \<noteq> OK then (Inl ERR_IO, w2)
                       else
                         (Inr \<lparr>state_dir = sd, runtime_dir = rd, action_log = lg, agents_dir = ad,
                               agents = replicate PHRONESIS_MAX_AGENTS zero_slot\<rparr>, w2))))"

definition phronesis_supervisor_action_log_path :: "supervisor option \<Rightarrow> cstring_opt" where
  "phronesis_supervisor_action_log_path so = map_option action_log so"

definition phronesis_supervisor_state_dir :: "supervisor option \<Rightarrow> cstring_opt" where
  "phronesis_supervisor_state_dir so = map_option state_dir so"

definition phronesis_supervisor_runtime_dir :: "supervisor option \<Rightarrow> cstring_opt" where
  "phronesis_supervisor_runtime_dir so = map_option runtime_dir so"

section \<open>Start and bind\<close>

definition log_event :: "supervisor \<Rightarrow> cstring_opt \<Rightarrow> string \<Rightarrow> string \<Rightarrow> world \<Rightarrow> world" where
  "log_event s aid kind detail w =
     snd (phronesis_action_log_append (Some (action_log s)) aid (Some kind)
            (Some (snprintf_buf PHRONESIS_DETAIL_MAX detail)) w)"

text \<open>The slot after \<open>start\<close> has a pid: mode and workspace from the arguments or their defaults.\<close>

definition started_slot :: "agent_slot \<Rightarrow> cstring_opt \<Rightarrow> cstring_opt \<Rightarrow> pid_t \<Rightarrow> agent_slot" where
  "started_slot a mode workspace pid =
     a\<lparr>slot_pid := pid, slot_pgid := pid, slot_state := AGENT_RUNNING, exit_status := -1, cgroup_path := [],
       slot_mode := (if nonempty mode then snprintf_buf PHRONESIS_MODE_MAX (the mode) else ''develop''),
       slot_workspace := (if nonempty workspace then snprintf_buf PHRONESIS_PATH_MAX (the workspace) else [])\<rparr>"

text \<open>From the fork on: \<open>i\<close> is the slot.\<close>

definition spawn :: "nat \<Rightarrow> string \<Rightarrow> cstring_opt \<Rightarrow> cstring_opt \<Rightarrow> string \<Rightarrow> supervisor \<Rightarrow> world \<Rightarrow> rc \<times> supervisor \<times> world" where
  "spawn i aid mode workspace cmd s w =
     (case fork_group w of
        (None, w1) \<Rightarrow> (ERR_SPAWN, s, w1)
      | (Some pid, w1) \<Rightarrow>
          let a = started_slot (agents s ! i) mode workspace pid
          in (case phronesis_cgroup_create (Some (runtime_dir s)) (Some aid) PHRONESIS_PATH_MAX w1 of
                (r2, cg, w2) \<Rightarrow>
                  (case (if r2 = OK \<and> cg \<noteq> [] then phronesis_cgroup_attach cg pid w2 else (OK, w2)) of
                     (r3, w3) \<Rightarrow>
                       let a1 = a\<lparr>cgroup_path := (if r3 = OK then cg else [])\<rparr>
                       in (case write_slot s a1 w3 of
                             (r4, w4) \<Rightarrow>
                               if r4 \<noteq> OK then
                                 let w5 = snd (kill_tree pid w4);
                                     w6 = phronesis_cgroup_remove (cgroup_path a1) w5;
                                     a2 = a1\<lparr>slot_state := AGENT_FAILED, slot_pid := 0, cgroup_path := []\<rparr>
                                 in (ERR_IO, set_slot i a2 s, snd (write_slot s a2 w6))
                               else
                                 (OK, set_slot i a1 s,
                                  log_event s (Some aid) ''start''
                                    (''pid='' @ show_int pid @ '' pgid='' @ show_int pid @ '' cmd='' @ take 64 cmd @
                                     '' cgroup='' @ take 128 (if cgroup_path a1 \<noteq> [] then cgroup_path a1 else ''none''))
                                    w4)))))"

definition start_body ::
  "cstring_opt \<Rightarrow> cstring_opt \<Rightarrow> cstring_opt \<Rightarrow> string list option \<Rightarrow> supervisor \<Rightarrow> world \<Rightarrow> rc \<times> supervisor \<times> world" where
  "start_body agent_id mode workspace argv s w =
     (if argv = None \<or> the argv = [] \<or> \<not> valid_id agent_id then (ERR_INVAL, s, w)
      else if nonempty mode \<and> \<not> valid_token mode PHRONESIS_MODE_MAX then (ERR_INVAL, s, w)
      else if nonempty workspace \<and> \<not> valid_token workspace PHRONESIS_PATH_MAX then (ERR_INVAL, s, w)
      else
        (case load_agent s (the agent_id) w of
           (Inr i, s1) \<Rightarrow>
             (case reap_slot (agents s1 ! i) w of
                (a, w1) \<Rightarrow>
                  if slot_state a = AGENT_RUNNING then (ERR_EXISTS, set_slot i a s1, w1)
                  else spawn i (the agent_id) mode workspace (hd (the argv)) (set_slot i a s1) w1)
         | (Inl e, s1) \<Rightarrow>
             if e = ERR_NOTFOUND then
               (case alloc_named s1 (the agent_id) of
                  None \<Rightarrow> (ERR_STATE, s1, w)
                | Some (i, s2) \<Rightarrow> spawn i (the agent_id) mode workspace (hd (the argv)) s2 w)
             else (e, s1, w)))"

definition phronesis_supervisor_start ::
  "supervisor option \<Rightarrow> cstring_opt \<Rightarrow> cstring_opt \<Rightarrow> cstring_opt \<Rightarrow> string list option \<Rightarrow> world
   \<Rightarrow> rc \<times> supervisor option \<times> world" where
  "phronesis_supervisor_start so agent_id mode workspace argv w =
     with_sup (start_body agent_id mode workspace argv) so w"

text \<open>The last part of \<open>bind\<close>: an empty incoming workspace leaves the committed one in place.\<close>

definition bound_slot :: "agent_slot \<Rightarrow> cstring_opt \<Rightarrow> cstring_opt \<Rightarrow> pid_t \<Rightarrow> agent_slot" where
  "bound_slot a mode workspace pid =
     a\<lparr>slot_pid := pid, slot_pgid := (if pid > 1 then pid else 0), slot_state := AGENT_RUNNING, exit_status := -1,
       cgroup_path := [],
       slot_mode := (if nonempty mode then snprintf_buf PHRONESIS_MODE_MAX (the mode) else ''develop''),
       slot_workspace :=
         (if nonempty workspace then snprintf_buf PHRONESIS_PATH_MAX (the workspace) else slot_workspace a)\<rparr>"

definition bind_slot :: "nat \<Rightarrow> string \<Rightarrow> agent_slot \<Rightarrow> string \<Rightarrow> supervisor \<Rightarrow> world \<Rightarrow> rc \<times> supervisor \<times> world" where
  "bind_slot i aid a detail s w =
     (case write_slot s a w of
        (r, w1) \<Rightarrow>
          if r \<noteq> OK then (ERR_IO, set_slot i a s, w1)
          else (OK, set_slot i a s, log_event s (Some aid) ''bind'' detail w1))"

definition filled_slot :: "agent_slot \<Rightarrow> cstring_opt \<Rightarrow> pid_t \<Rightarrow> agent_slot" where
  "filled_slot a workspace pid =
     a\<lparr>slot_workspace := snprintf_buf PHRONESIS_PATH_MAX (the workspace),
       slot_pid := (if pid > 0 then pid else slot_pid a),
       slot_pgid := (if pid > 1 then pid else slot_pgid a)\<rparr>"

definition bind_body ::
  "cstring_opt \<Rightarrow> cstring_opt \<Rightarrow> cstring_opt \<Rightarrow> pid_t \<Rightarrow> supervisor \<Rightarrow> world \<Rightarrow> rc \<times> supervisor \<times> world" where
  "bind_body agent_id mode workspace pid s w =
     (if \<not> valid_id agent_id then (ERR_INVAL, s, w)
      else if nonempty mode \<and> \<not> valid_token mode PHRONESIS_MODE_MAX then (ERR_INVAL, s, w)
      else if nonempty workspace \<and> \<not> valid_token workspace PHRONESIS_PATH_MAX then (ERR_INVAL, s, w)
      else if pid < 0 then (ERR_INVAL, s, w)
      else
        (case load_agent s (the agent_id) w of
           (Inr i, s1) \<Rightarrow>
             (case reap_slot (agents s1 ! i) w of
                (a, w1) \<Rightarrow>
                  if slot_state a = AGENT_RUNNING then
                    (if slot_workspace a = [] \<and> nonempty workspace then
                       let a' = filled_slot a workspace pid
                       in bind_slot i (the agent_id) a' (''bind fill-workspace pid='' @ show_int (slot_pid a')) s1 w1
                     else (ERR_EXISTS, set_slot i a s1, w1))
                  else bind_slot i (the agent_id) (bound_slot a mode workspace pid) (''bind pid='' @ show_int pid) s1 w1)
         | (Inl e, s1) \<Rightarrow>
             if e = ERR_NOTFOUND then
               (case alloc_named s1 (the agent_id) of
                  None \<Rightarrow> (ERR_STATE, s1, w)
                | Some (i, s2) \<Rightarrow>
                    bind_slot i (the agent_id) (bound_slot (agents s2 ! i) mode workspace pid)
                      (''bind pid='' @ show_int pid) s2 w)
             else (e, s1, w)))"

definition phronesis_supervisor_bind ::
  "supervisor option \<Rightarrow> cstring_opt \<Rightarrow> cstring_opt \<Rightarrow> cstring_opt \<Rightarrow> pid_t \<Rightarrow> world \<Rightarrow> rc \<times> supervisor option \<times> world" where
  "phronesis_supervisor_bind so agent_id mode workspace pid w = with_sup (bind_body agent_id mode workspace pid) so w"

section \<open>Status and stop\<close>

record agent_status =
  st_id :: string
  st_state :: agent_state
  st_pid :: pid_t
  st_pgid :: pid_t
  st_exit_status :: int
  st_mode :: string
  st_workspace :: string
  st_has_cgroup :: bool

definition status_of :: "agent_slot \<Rightarrow> agent_status" where
  "status_of a =
     \<lparr>st_id = snprintf_buf PHRONESIS_ID_MAX (slot_id a), st_state = slot_state a, st_pid = slot_pid a,
      st_pgid = slot_pgid a, st_exit_status = exit_status a,
      st_mode = snprintf_buf PHRONESIS_MODE_MAX (slot_mode a),
      st_workspace = snprintf_buf PHRONESIS_PATH_MAX (slot_workspace a), st_has_cgroup = (cgroup_path a \<noteq> [])\<rparr>"

definition phronesis_supervisor_status ::
  "supervisor option \<Rightarrow> cstring_opt \<Rightarrow> world \<Rightarrow> (rc + agent_status) \<times> supervisor option \<times> world" where
  "phronesis_supervisor_status so agent_id w =
     (case so of
        None \<Rightarrow> (Inl ERR_INVAL, None, w)
      | Some s \<Rightarrow>
          if \<not> valid_id agent_id then (Inl ERR_INVAL, so, w)
          else
            (case load_agent s (the agent_id) w of
               (Inl e, s1) \<Rightarrow> (Inl e, Some s1, w)
             | (Inr i, s1) \<Rightarrow>
                 (case reap_slot (agents s1 ! i) w of
                    (a, w1) \<Rightarrow> (Inr (status_of a), Some (set_slot i a s1), snd (write_slot s1 a w1)))))"

text \<open>The part of \<open>stop\<close> that finds the agent running with a process group.\<close>

definition stop_group :: "nat \<Rightarrow> string \<Rightarrow> agent_slot \<Rightarrow> pid_t \<Rightarrow> supervisor \<Rightarrow> world \<Rightarrow> rc \<times> supervisor \<times> world" where
  "stop_group i aid a pgid s w =
     (case (if cgroup_path a \<noteq> [] then phronesis_cgroup_kill (cgroup_path a) w else (ERR_STATE, w)) of
        (r, w1) \<Rightarrow>
          let detail = (if r = OK then ''cgroup.kill path='' @ take 200 (cgroup_path a) @ '' pgid='' @ show_int pgid
                        else ''process-group pgid='' @ show_int pgid);
              w2 = snd (kill_tree pgid w1);
              w3 = phronesis_cgroup_remove (cgroup_path a) w2;
              a1 = a\<lparr>cgroup_path := [], slot_state := AGENT_STOPPED, slot_pid := 0, exit_status := -1\<rparr>
          in (OK, set_slot i a1 s, log_event s (Some aid) ''stop'' detail (snd (write_slot s a1 w3))))"

definition stop_body :: "cstring_opt \<Rightarrow> supervisor \<Rightarrow> world \<Rightarrow> rc \<times> supervisor \<times> world" where
  "stop_body agent_id s w =
     (if \<not> valid_id agent_id then (ERR_INVAL, s, w)
      else
        (case load_agent s (the agent_id) w of
           (Inl e, s1) \<Rightarrow> (e, s1, w)
         | (Inr i, s1) \<Rightarrow>
             (case reap_slot (agents s1 ! i) w of
                (a, w1) \<Rightarrow>
                  if slot_state a \<noteq> AGENT_RUNNING then
                    (OK, set_slot i a s1, log_event s1 agent_id ''stop'' ''idempotent'' (snd (write_slot s1 a w1)))
                  else
                    let pgid = (if slot_pgid a > 0 then slot_pgid a else slot_pid a)
                    in if pgid \<le> 1 then
                         let a1 = a\<lparr>slot_state := AGENT_STOPPED, slot_pid := 0, slot_pgid := 0\<rparr>
                         in (OK, set_slot i a1 s1, log_event s1 agent_id ''stop'' ''bind-only'' (snd (write_slot s1 a1 w1)))
                       else stop_group i (the agent_id) a pgid s1 w1)))"

definition phronesis_supervisor_stop ::
  "supervisor option \<Rightarrow> cstring_opt \<Rightarrow> world \<Rightarrow> rc \<times> supervisor option \<times> world" where
  "phronesis_supervisor_stop so agent_id w = with_sup (stop_body agent_id) so w"

section \<open>Log and policy\<close>

definition phronesis_supervisor_log ::
  "supervisor option \<Rightarrow> cstring_opt \<Rightarrow> cstring_opt \<Rightarrow> cstring_opt \<Rightarrow> world \<Rightarrow> rc \<times> world" where
  "phronesis_supervisor_log so agent_id kind detail w =
     (case so of
        None \<Rightarrow> (ERR_INVAL, w)
      | Some s \<Rightarrow>
          if nonempty agent_id \<and> \<not> valid_id agent_id then (ERR_INVAL, w)
          else phronesis_action_log_append (Some (action_log s)) agent_id kind detail w)"

definition phronesis_supervisor_log_last :: "supervisor option \<Rightarrow> nat \<Rightarrow> world \<Rightarrow> rc \<times> string" where
  "phronesis_supervisor_log_last so buflen w =
     (case so of None \<Rightarrow> (ERR_INVAL, []) | Some s \<Rightarrow> phronesis_action_log_last w (Some (action_log s)) buflen)"

text \<open>\<open>Some code\<close>: the caller must deny with it. \<open>None\<close>: the slot is running.\<close>

definition phronesis_policy_require_running_agent ::
  "supervisor option \<Rightarrow> cstring_opt \<Rightarrow> world \<Rightarrow> reason option \<times> supervisor option \<times> world" where
  "phronesis_policy_require_running_agent so agent_id w =
     (if \<not> nonempty agent_id then (Some INVALID_MESSAGE, so, w)
      else
        (case phronesis_supervisor_status so agent_id w of
           (Inl e, so1, w1) \<Rightarrow> (Some TOOLS_DEFAULT_DENY, so1, w1)
         | (Inr st, so1, w1) \<Rightarrow>
             (if st_state st \<noteq> AGENT_RUNNING then Some TOOLS_DEFAULT_DENY else None, so1, w1)))"

definition or_empty :: "cstring_opt \<Rightarrow> string" where
  "or_empty p = (case p of None \<Rightarrow> [] | Some s \<Rightarrow> s)"

text \<open>From the workspace lookup of \<open>phronesis_policy_check\<close> on.\<close>

definition policy_check_eval ::
  "cstring_opt \<Rightarrow> cstring_opt \<Rightarrow> cstring_opt \<Rightarrow> cstring_opt \<Rightarrow> supervisor \<Rightarrow> world \<Rightarrow> (rc + policy_result) \<times> supervisor \<times> world" where
  "policy_check_eval agent_id tool action path s w =
     (case (if nonempty agent_id then
              (if \<not> valid_id agent_id then (Inl ERR_INVAL, s, w)
               else
                 (case load_agent s (the agent_id) w of
                    (Inr i, s1) \<Rightarrow>
                      (case reap_slot (agents s1 ! i) w of
                         (a, w1) \<Rightarrow>
                           (Inr (if slot_workspace a \<noteq> [] then Some (slot_workspace a) else None),
                            set_slot i a s1, snd (write_slot s1 a w1)))
                  | (Inl e, s1) \<Rightarrow> if e \<noteq> ERR_NOTFOUND then (Inl e, s1, w) else (Inr None, s1, w)))
            else (Inr None, s, w)) of
        (Inl e, s2, w2) \<Rightarrow> (Inl e, s2, w2)
      | (Inr ws, s2, w2) \<Rightarrow>
          let out = phronesis_policy_eval (w_env w2) ws tool action path
          in (Inr out, s2,
              log_event s2 agent_id ''policy''
                (''tool='' @ or_empty tool @ '' action='' @ or_empty action @ '' decision='' @
                 show_nat (decision_ord (pr_decision out)) @ '' '' @ pr_reason out) w2))"

definition phronesis_policy_check ::
  "supervisor option \<Rightarrow> cstring_opt \<Rightarrow> cstring_opt \<Rightarrow> cstring_opt \<Rightarrow> cstring_opt \<Rightarrow> world
   \<Rightarrow> (rc + policy_result) \<times> supervisor option \<times> world" where
  "phronesis_policy_check so agent_id tool action path w =
     (case so of
        None \<Rightarrow> (Inl ERR_INVAL, None, w)
      | Some s \<Rightarrow>
          (case (if \<not> phronesis_policy_deny_all (w_env w) \<and> (tool = Some ''seat'' \<or> tool = Some ''model'')
                 then phronesis_policy_require_running_agent so agent_id w else (None, so, w)) of
             (Some id_code, so1, w1) \<Rightarrow>
               (Inr (phronesis_policy_result_set DENY id_code), so1,
                log_event s agent_id ''policy''
                  (''tool='' @ or_empty tool @ '' action='' @ or_empty action @ '' decision='' @
                   show_nat (decision_ord DENY)) w1)
           | (None, so1, w1) \<Rightarrow>
               (case policy_check_eval agent_id tool action path (the so1) w1 of
                  (r, s2, w2) \<Rightarrow> (r, Some s2, w2))))"

section \<open>Reaping\<close>

text \<open>Reaping changes nothing, or stops a running slot and clears its pid.\<close>

lemma reap_slot_result:
  assumes "reap_slot a w = (a', w')"
  shows "a' = a \<or> slot_state a = AGENT_RUNNING \<and> 0 < slot_pid a
    \<and> (\<exists>st. a' = a\<lparr>exit_status := st, slot_state := AGENT_STOPPED, slot_pid := 0\<rparr>)"
proof -
  obtain r v where r: "waitpid (slot_pid a) w = (r, v)" by fastforce
  show ?thesis
  proof (cases "slot_state a \<noteq> AGENT_RUNNING \<or> slot_pid a \<le> 0")
    case True
    then show ?thesis using assms by (simp add: reap_slot_def)
  next
    case run: False
    then show ?thesis
      using assms unfolding reap_slot_def r by (cases r) (auto split: if_splits)
  qed
qed

lemma reap_slot_cases:
  assumes "reap_slot a w = (a', w')"
  obtains (kept) "a' = a" | (reaped) st where "slot_state a = AGENT_RUNNING" "0 < slot_pid a"
    "a' = a\<lparr>exit_status := st, slot_state := AGENT_STOPPED, slot_pid := 0\<rparr>"
  using reap_slot_result [OF assms] by blast

lemma reap_slot_running: "reap_slot a w = (a', w') \<Longrightarrow> slot_state a' = AGENT_RUNNING \<Longrightarrow> a' = a"
  by (erule reap_slot_cases) auto

lemma reap_slot_keeps:
  assumes "reap_slot a w = (a', w')"
  shows "slot_id a' = slot_id a" "slot_workspace a' = slot_workspace a" "slot_mode a' = slot_mode a"
    "slot_pgid a' = slot_pgid a" "in_use a' = in_use a" "cgroup_path a' = cgroup_path a"
  using assms by (auto elim: reap_slot_cases)

lemma reap_slot_good: "reap_slot a w = (a', w') \<Longrightarrow> good_slot k a \<Longrightarrow> good_slot k a'"
  by (erule reap_slot_cases) (auto simp: good_slot_def slot_ok_def agent_state_of_int_def)

lemma reap_slot_idem: "reap_slot a w = (a', w') \<Longrightarrow> slot_state a' \<noteq> AGENT_RUNNING \<Longrightarrow> reap_slot a' v = (a', v)"
  by (simp add: reap_slot_def)

lemma reap_slot_frame: "reap_slot a w = (a', w') \<Longrightarrow> w_fs w' = w_fs w \<and> w_sent w' = w_sent w \<and> host_frame w w'"
proof -
  have f: "w_fs v = w_fs w \<and> w_sent v = w_sent w \<and> host_frame w v" if "waitpid t w = (r, v)" for t r v
    using that by (auto simp: waitpid_def host_frame_def split: option.splits if_splits)
  obtain r v where r: "waitpid (slot_pid a) w = (r, v)" by fastforce
  assume "reap_slot a w = (a', w')"
  then show ?thesis using f [OF r] unfolding reap_slot_def r by (cases r) (auto split: if_splits)
qed

section \<open>One agent at a time\<close>

text \<open>What an operation on agent \<open>k\<close> may do to the table: keep it well formed and leave every other
  agent's slot, and the directories of the supervisor, as they were.\<close>

definition only_agent :: "string \<Rightarrow> supervisor \<Rightarrow> supervisor \<Rightarrow> bool" where
  "only_agent k s s' \<longleftrightarrow>
     sup_ok s' \<and> (\<forall>k'. k' \<noteq> k \<longrightarrow> view s' k' = view s k') \<and> agents_dir s' = agents_dir s \<and> action_log s' = action_log s
     \<and> runtime_dir s' = runtime_dir s \<and> state_dir s' = state_dir s"

lemma only_agent_refl: "sup_ok s \<Longrightarrow> only_agent k s s"
  by (simp add: only_agent_def)

lemma loaded_put:
  assumes "sup_ok s" "valid_id (Some k)" "load_agent s k w = (Inr i, s1)" "good_slot k a"
  shows "only_agent k s (set_slot i a s1)" "view (set_slot i a s1) = (view s)(k \<mapsto> a)"
  using table.load_put [OF assms] set_slot_dirs [OF assms(3)] by (simp_all add: only_agent_def)

lemma loaded_slot:
  assumes "sup_ok s" "valid_id (Some k)" "load_agent s k w = (Inr i, s1)"
  shows "good_slot k (agents s1 ! i)" "view s1 k = Some (agents s1 ! i)" "only_agent k s s1"
proof -
  have f: "sup_ok s1" "slot_ref s1 k i" using load_slot_found [OF assms] by blast+
  show v: "view s1 k = Some (agents s1 ! i)" using view_ref [OF f] .
  show "good_slot k (agents s1 ! i)" using view_SomeD [OF f(1) v] by (simp add: good_slot_def)
  show "only_agent k s s1"
    using f(1) table.load_frame [OF assms] set_slot_dirs [OF assms(3)] by (simp add: only_agent_def)
qed

lemma load_failed_same: "load_agent s k w = (Inl e, s1) \<Longrightarrow> s1 = s"
  by (rule table.load_failed)

lemma load_hit:
  assumes "sup_ok s" "view s k = Some a"
  shows "\<exists>i. load_agent s k w = (Inr i, s) \<and> agents s ! i = a \<and> slot_ref s k i"
  using assms find_mem_ref by (auto simp: view_def load_agent_def)

text \<open>The slot that \<open>start\<close> and \<open>bind\<close> allocate.\<close>

lemma alloc_named_put:
  assumes "sup_ok s" "valid_id (Some k)" "find_mem s k = None" "alloc_named s k = Some (i, s2)" "good_slot k a"
  shows "only_agent k s (set_slot i a s2)" "view (set_slot i a s2) = (view s)(k \<mapsto> a)"
proof -
  obtain s1 b where al: "alloc_mem s = Some (i, s1)" and s2: "s2 = set_slot i b s1"
    using assms(4) by (auto simp: alloc_named_def split: option.splits)
  have d: "agents_dir s1 = agents_dir s" "action_log s1 = action_log s" "runtime_dir s1 = runtime_dir s" "state_dir s1 = state_dir s"
    using alloc_mem_free [OF al] by simp_all
  show "only_agent k s (set_slot i a s2)" "view (set_slot i a s2) = (view s)(k \<mapsto> a)"
    using alloc_put [OF assms(1,3) al assms(5)] s2 d by (simp_all add: only_agent_def)
qed

lemma alloc_named_slot:
  assumes "sup_ok s" "valid_id (Some k)" "find_mem s k = None" "alloc_named s k = Some (i, s2)"
  shows "agents s2 ! i = zero_slot\<lparr>in_use := True, exit_status := -1, slot_id := k\<rparr>" "good_slot k (agents s2 ! i)"
    "only_agent k s s2"
proof -
  obtain s1 where al: "alloc_mem s = Some (i, s1)" "s2 = set_slot i ((agents s1 ! i)\<lparr>slot_id := snprintf_buf PHRONESIS_ID_MAX k\<rparr>) s1"
    using assms(4) by (auto simp: alloc_named_def split: option.splits)
  have k: "snprintf_buf PHRONESIS_ID_MAX k = k" using assms(2) valid_id_text_ok text_ok_snprintf by blast
  have i: "i < length (agents s)" using alloc_mem_free [OF al(1)] by simp
  show a: "agents s2 ! i = zero_slot\<lparr>in_use := True, exit_status := -1, slot_id := k\<rparr>"
    using al alloc_mem_free [OF al(1)] k by simp
  show g: "good_slot k (agents s2 ! i)"
    using assms(2) unfolding a by (simp add: good_slot_def slot_ok_def zero_slot_def agent_state_of_int_def
        PHRONESIS_MODE_MAX_def PHRONESIS_PATH_MAX_def)
  have "set_slot i (agents s2 ! i) s2 = s2" by (simp add: set_slot_def)
  then show "only_agent k s s2" using alloc_named_put(1) [OF assms g] by metis
qed

lemma load_NOTFOUND: "load_agent s k w = (Inl ERR_NOTFOUND, s1) \<Longrightarrow> find_mem s k = None"
  by (auto simp: load_agent_def split: option.splits)

text \<open>A slot pointer in the hands of an operation on agent \<open>k\<close> that began with table \<open>s0\<close>: whatever good
  slot is written through it, the table of \<open>s0\<close> has been updated at \<open>k\<close> and nowhere else.\<close>

definition slot_handle :: "string \<Rightarrow> supervisor \<Rightarrow> nat \<Rightarrow> supervisor \<Rightarrow> bool" where
  "slot_handle k s0 i s \<longleftrightarrow>
     only_agent k s0 s \<and> good_slot k (agents s ! i)
     \<and> (\<forall>a. good_slot k a \<longrightarrow> only_agent k s0 (set_slot i a s) \<and> view (set_slot i a s) = (view s0)(k \<mapsto> a))"

lemma slot_handle_put: "slot_handle k s0 i s \<Longrightarrow> good_slot k a \<Longrightarrow> only_agent k s0 (set_slot i a s)"
  and slot_handle_view: "slot_handle k s0 i s \<Longrightarrow> good_slot k a \<Longrightarrow> view (set_slot i a s) = (view s0)(k \<mapsto> a)"
  by (simp_all add: slot_handle_def)

lemma load_handle:
  "sup_ok s \<Longrightarrow> valid_id (Some k) \<Longrightarrow> load_agent s k w = (Inr i, s1) \<Longrightarrow> slot_handle k s i s1"
  by (simp add: slot_handle_def loaded_slot loaded_put)

lemma alloc_handle:
  "sup_ok s \<Longrightarrow> valid_id (Some k) \<Longrightarrow> find_mem s k = None \<Longrightarrow> alloc_named s k = Some (i, s2) \<Longrightarrow> slot_handle k s i s2"
  by (simp add: slot_handle_def alloc_named_slot(2,3) alloc_named_put)

lemma slot_handle_set:
  assumes "slot_handle k s0 i s" "good_slot k a" "i < length (agents s)"
  shows "slot_handle k s0 i (set_slot i a s)"
  using assms unfolding slot_handle_def by simp

lemma loaded_index: "sup_ok s \<Longrightarrow> valid_id (Some k) \<Longrightarrow> load_agent s k w = (Inr i, s1) \<Longrightarrow> i < length (agents s1)"
  using load_slot_found by (auto simp: slot_ref_def)

lemma valid_id_Some: "valid_id a \<Longrightarrow> a = Some (the a) \<and> nonempty a"
  by (cases a) (auto simp: valid_id_def)

text \<open>The slots the operations build are good.\<close>

definition arg_ok :: "cstring_opt \<Rightarrow> nat \<Rightarrow> bool" where
  "arg_ok p n \<longleftrightarrow> (nonempty p \<longrightarrow> valid_token p n)"

lemma arg_ok_text: "arg_ok p n \<Longrightarrow> nonempty p \<Longrightarrow> text_ok n (snprintf_buf n (the p)) \<and> snprintf_buf n (the p) = the p"
  by (cases p) (auto simp: arg_ok_def text_ok_snprintf valid_token_text_ok)

lemma develop_ok [simp]: "text_ok PHRONESIS_MODE_MAX ''develop''"
  by (simp add: text_ok_def PHRONESIS_MODE_MAX_def is_space_def)

lemma maxes_pos [simp]: "0 < PHRONESIS_PATH_MAX" "0 < PHRONESIS_MODE_MAX" "0 < PHRONESIS_DETAIL_MAX" "0 < PHRONESIS_ID_MAX"
  by (simp_all add: PHRONESIS_PATH_MAX_def PHRONESIS_MODE_MAX_def PHRONESIS_DETAIL_MAX_def PHRONESIS_ID_MAX_def)

lemma agent_state_of_int_simps [simp]: "agent_state_of_int 0 = AGENT_STOPPED"
    "agent_state_of_int 1 = AGENT_RUNNING" "agent_state_of_int 2 = AGENT_FAILED"
  by (simp_all add: agent_state_of_int_def)

lemma started_slot_good:
  "good_slot k a \<Longrightarrow> arg_ok m PHRONESIS_MODE_MAX \<Longrightarrow> arg_ok ws PHRONESIS_PATH_MAX \<Longrightarrow> length cg < PHRONESIS_PATH_MAX \<Longrightarrow>
   good_slot k ((started_slot a m ws pid)\<lparr>cgroup_path := cg\<rparr>)"
  using arg_ok_text [of m PHRONESIS_MODE_MAX] arg_ok_text [of ws PHRONESIS_PATH_MAX] by (auto simp: good_slot_def slot_ok_def started_slot_def)

lemma bound_slot_good:
  "good_slot k a \<Longrightarrow> arg_ok m PHRONESIS_MODE_MAX \<Longrightarrow> arg_ok ws PHRONESIS_PATH_MAX \<Longrightarrow> good_slot k (bound_slot a m ws pid)"
  using arg_ok_text [of m PHRONESIS_MODE_MAX] arg_ok_text [of ws PHRONESIS_PATH_MAX] by (auto simp: good_slot_def slot_ok_def bound_slot_def)

lemma filled_slot_good:
  "good_slot k a \<Longrightarrow> arg_ok ws PHRONESIS_PATH_MAX \<Longrightarrow> nonempty ws \<Longrightarrow> good_slot k (filled_slot a ws pid)"
  using arg_ok_text [of ws PHRONESIS_PATH_MAX] by (auto simp: good_slot_def slot_ok_def filled_slot_def)

text \<open>A stretch of calls that leaves the processes alone on a host where the kernel does nothing to them when a
  control file of a cgroup is written.\<close>

definition cgroups_inert :: "world \<Rightarrow> bool" where
  "cgroups_inert w \<longleftrightarrow> (\<forall>p d ps. w_cgroupfs w p d ps = ps)"

definition procs_quiet :: "world \<Rightarrow> world \<Rightarrow> bool" where
  "procs_quiet w w' \<longleftrightarrow> w_cgroupfs w' = w_cgroupfs w \<and> (cgroups_inert w \<longrightarrow> w_procs w' = w_procs w)"

lemma procs_quiet_refl [simp]: "procs_quiet w w"
  by (simp add: procs_quiet_def)

lemma procs_quiet_trans: "procs_quiet a b \<Longrightarrow> procs_quiet b c \<Longrightarrow> procs_quiet a c"
  by (simp add: procs_quiet_def cgroups_inert_def)

lemma procs_quiet_fs: "fs_only w w' \<Longrightarrow> procs_quiet w w'"
  by (simp add: procs_quiet_def fs_only_sel)

lemma procs_quiet_write_str: "procs_quiet w (snd (write_str p d w))"
proof -
  obtain ok w1 where o: "fopen_wa True p w = (ok, w1)" by fastforce
  obtain r w2 where f: "fput p d w1 = (r, w2)" by fastforce
  have q1: "procs_quiet w w1" using procs_quiet_fs [OF fs_only_ops(5) [of w True p]] o by simp
  have q2: "procs_quiet w w2" using procs_quiet_trans [OF q1 procs_quiet_fs [OF fs_only_ops(6) [of w1 p d]]] f by simp
  have "procs_quiet w2 (w2\<lparr>w_procs := w_cgroupfs w2 p d (w_procs w2)\<rparr>)" by (simp add: procs_quiet_def cgroups_inert_def)
  from procs_quiet_trans [OF q2 this] show ?thesis using q1 q2 o f by (cases ok; cases r) (simp_all add: write_str_def)
qed

lemma procs_quiet_create: "procs_quiet w (snd (snd (phronesis_cgroup_create r a n w)))"
proof -
  have e: "procs_quiet v (snd (phronesis_paths_ensure_dir q m v))" for q m v
    using ensure_dir_dirs_added [of q m v, OF surjective_pairing] by (auto simp: dirs_added_def intro: procs_quiet_fs)
  have c: "procs_quiet w (snd (phronesis_paths_ensure_dir q m (snd (write_str p d w))))" for q m p d
    by (rule procs_quiet_trans [OF procs_quiet_write_str e])
  show ?thesis by (auto simp: phronesis_cgroup_create_def Let_def case_prod_beta e c split: option.splits)
qed

lemma procs_quiet_attach: "procs_quiet w (snd (phronesis_cgroup_attach c p w))"
  using procs_quiet_write_str by (simp add: phronesis_cgroup_attach_def Let_def case_prod_beta)

lemma procs_quiet_write_slot: "procs_quiet w (snd (write_slot s a w))"
  by (rule procs_quiet_fs) (rule write_slot_fs_only)

lemma log_event_fs_only: "fs_only w (log_event s a k d w)"
proof -
  have f: "fs_only w v" if "fopen_wa False p w = (x, v)" for p x v using fs_only_ops(5) [of w False p] that by simp
  have g: "fs_only w v" if "fopen_wa False p w = (x, u)" "fput p c u = (y, v)" for p x u c y v
    using fs_only_trans [OF f [OF that(1)]] fs_only_ops(6) [of u p c] that(2) by simp
  show ?thesis unfolding log_event_def phronesis_action_log_append_def
    using f g by (simp split: option.split prod.split bool.split put_result.split)
qed

lemma procs_quiet_log: "procs_quiet w (log_event s a k d w)"
  by (rule procs_quiet_fs) (rule log_event_fs_only)

section \<open>Effects of the operations\<close>

lemma spawn_effect:
  assumes h: "slot_handle k s0 i s" and m: "arg_ok m PHRONESIS_MODE_MAX" and ws: "arg_ok ws PHRONESIS_PATH_MAX"
    and sp: "spawn i k m ws cmd s w = (r, s', w')"
  shows "only_agent k s0 s'"
    and "r = OK \<longrightarrow> (\<exists>pid cg w1. fork_group w = (Some pid, w1) \<and> procs_quiet w1 w'
          \<and> view s' k = Some ((started_slot (agents s ! i) m ws pid)\<lparr>cgroup_path := cg\<rparr>))"
proof -
  have "only_agent k s0 s' \<and> (r = OK \<longrightarrow> (\<exists>pid cg w1. fork_group w = (Some pid, w1) \<and> procs_quiet w1 w'
          \<and> view s' k = Some ((started_slot (agents s ! i) m ws pid)\<lparr>cgroup_path := cg\<rparr>)))"
  proof (cases "fst (fork_group w)")
    case None
    then have "s' = s" "r = ERR_SPAWN" using sp by (auto simp: spawn_def split: prod.splits)
    then show ?thesis using h by (simp add: slot_handle_def)
  next
    case (Some pid)
    obtain w1 where f: "fork_group w = (Some pid, w1)" using Some by (metis prod.collapse)
    obtain r2 cg w2 where c: "phronesis_cgroup_create (Some (runtime_dir s)) (Some k) PHRONESIS_PATH_MAX w1 = (r2, cg, w2)"
      by (metis prod.collapse)
    have cgl: "length cg < PHRONESIS_PATH_MAX" using cgroup_create_path [OF c] by (cases "cg = []") auto
    obtain r3 w3 where at: "(if r2 = OK \<and> cg \<noteq> [] then phronesis_cgroup_attach cg pid w2 else (OK, w2)) = (r3, w3)"
      by fastforce
    let ?cg = "if r3 = OK then cg else []"
    let ?a = "(started_slot (agents s ! i) m ws pid)\<lparr>cgroup_path := ?cg\<rparr>"
    have ga: "good_slot k ?a" using h m ws cgl by (intro started_slot_good) (auto simp: slot_handle_def)
    then have gf: "good_slot k (?a\<lparr>slot_state := AGENT_FAILED, slot_pid := 0, cgroup_path := []\<rparr>)"
      by (auto simp: good_slot_def slot_ok_def)
    obtain r4 w4 where wr: "write_slot s ?a w3 = (r4, w4)" by fastforce
    have 1: "procs_quiet w1 w2" using procs_quiet_create [of w1] c by (metis snd_conv)
    have "procs_quiet w2 w3" using procs_quiet_attach [of w2 cg pid] at by (auto split: if_splits)
    then have 2: "procs_quiet w1 w4" using procs_quiet_trans [OF procs_quiet_trans [OF 1]] procs_quiet_write_slot [of w3 s ?a] wr by simp
    have sp': "(r = ERR_IO \<and> s' = set_slot i (?a\<lparr>slot_state := AGENT_FAILED, slot_pid := 0, cgroup_path := []\<rparr>) s)
        \<or> (r = OK \<and> s' = set_slot i ?a s \<and> procs_quiet w1 w')"
      using sp unfolding spawn_def f c prod.case option.case Let_def at wr
      by (auto split: if_splits intro: procs_quiet_trans [OF 2 procs_quiet_log])
    then show ?thesis
      using slot_handle_put [OF h ga] slot_handle_put [OF h gf] slot_handle_view [OF h ga] f by auto
  qed
  then show "only_agent k s0 s'"
    and "r = OK \<longrightarrow> (\<exists>pid cg w1. fork_group w = (Some pid, w1) \<and> procs_quiet w1 w'
          \<and> view s' k = Some ((started_slot (agents s ! i) m ws pid)\<lparr>cgroup_path := cg\<rparr>))"
    by blast+
qed

lemma bind_slot_effect:
  assumes "slot_handle k s0 i s" "good_slot k a" "bind_slot i k a d s w = (r, s', w')"
  shows "only_agent k s0 s'" "view s' = (view s0)(k \<mapsto> a)" "r = OK \<or> r = ERR_IO"
  using slot_handle_put [OF assms(1,2)] slot_handle_view [OF assms(1,2)] assms(3)
  by (auto simp: bind_slot_def split: prod.splits if_splits)

text \<open>The running slot that a successful \<open>start\<close> leaves.\<close>

definition fresh_run :: "cstring_opt \<Rightarrow> cstring_opt \<Rightarrow> pid_t \<Rightarrow> agent_slot \<Rightarrow> bool" where
  "fresh_run mode workspace pid a \<longleftrightarrow>
     slot_state a = AGENT_RUNNING \<and> slot_pid a = pid \<and> slot_pgid a = pid \<and> exit_status a = -1
     \<and> slot_mode a = (if nonempty mode then the mode else ''develop'') \<and> slot_workspace a = or_empty workspace"

lemma started_fresh_run:
  "arg_ok m PHRONESIS_MODE_MAX \<Longrightarrow> arg_ok ws PHRONESIS_PATH_MAX \<Longrightarrow>
   fresh_run m ws pid ((started_slot a m ws pid)\<lparr>cgroup_path := cg\<rparr>)"
  using arg_ok_text [of m PHRONESIS_MODE_MAX] arg_ok_text [of ws PHRONESIS_PATH_MAX]
  by (cases ws) (auto simp: fresh_run_def started_slot_def or_empty_def)

text \<open>The host as a start finds it when it forks: the slot it loads has been reaped.\<close>

definition fork_point :: "supervisor \<Rightarrow> string \<Rightarrow> world \<Rightarrow> world" where
  "fork_point s k w =
     (case load_agent s k w of
        (Inr i, s1) \<Rightarrow> snd (reap_slot (agents s1 ! i) w)
      | (Inl _, _) \<Rightarrow> w)"

text \<open>The host answered the fork with this pid, and the new process is the supervisor's living child, in a group of its own; where
  cgroups are inert, the table at the end is the one at the fork with this process and no other change.\<close>

definition forked :: "supervisor \<Rightarrow> string \<Rightarrow> world \<Rightarrow> pid_t \<Rightarrow> world \<Rightarrow> bool" where
  "forked s k w pid w' \<longleftrightarrow>
     w_fork w (w_procs (fork_point s k w)) = Some pid
     \<and> (cgroups_inert w \<longrightarrow>
          w_procs w' = w_procs (fork_point s k w)
            @ [\<lparr>p_pid = pid, p_pgid = pid, p_child = True, p_perm = True, p_stat = Alive\<rparr>])"

lemma fork_point_frame: "host_frame w (fork_point s k w)"
proof -
  have "host_frame w (snd (reap_slot a w))" for a using reap_slot_frame [of a w] by (metis prod.collapse)
  then show ?thesis by (simp add: fork_point_def split: prod.split sum.split)
qed

lemma forked_quiet: "fork_group (fork_point s k w) = (Some pid, w1) \<Longrightarrow> procs_quiet w1 w' \<Longrightarrow> forked s k w pid w'"
  using fork_point_frame [of w s k]
  by (auto simp: forked_def fork_group_def procs_quiet_def cgroups_inert_def host_frame_def split: option.splits)

lemma start_effect:
  assumes ok: "sup_ok s" and st: "start_body aid m ws argv s w = (r, s', w')"
  shows "only_agent (or_empty aid) s s'"
    and "r = OK \<longrightarrow> (\<exists>pid a. view s' (or_empty aid) = Some a \<and> fresh_run m ws pid a \<and> forked s (or_empty aid) w pid w')"
proof -
  let ?P = "only_agent (or_empty aid) s s' \<and> (r = OK \<longrightarrow> (\<exists>pid a. view s' (or_empty aid) = Some a \<and> fresh_run m ws pid a \<and> forked s (or_empty aid) w pid w'))"
  have ?P
  proof (cases "argv = None \<or> the argv = [] \<or> \<not> valid_id aid \<or> \<not> arg_ok m PHRONESIS_MODE_MAX \<or> \<not> arg_ok ws PHRONESIS_PATH_MAX")
    case True
    then have "s' = s" "r = ERR_INVAL" using st by (auto simp: start_body_def arg_ok_def split: if_splits)
    then show ?thesis using only_agent_refl [OF ok] by simp
  next
    case False
    then obtain k where k: "aid = Some k" "or_empty aid = k" "valid_id (Some k)" using valid_id_Some by (cases aid) (auto simp: or_empty_def)
    have g: "arg_ok m PHRONESIS_MODE_MAX" "arg_ok ws PHRONESIS_PATH_MAX" using False by blast+
    have spawned: ?P if "slot_handle k s i s2" "spawn i k m ws cmd s2 (fork_point s k w) = (r, s', w')" for i s2 cmd
      using spawn_effect [OF that(1) g that(2)] started_fresh_run [OF g] forked_quiet k(2) by blast
    obtain q s1 where ld: "load_agent s k w = (q, s1)" by fastforce
    show ?thesis
    proof (cases q)
      case (Inl e)
      have s1: "s1 = s" using load_failed_same ld Inl by simp
      show ?thesis
      proof (cases "e = ERR_NOTFOUND \<and> alloc_named s k \<noteq> None")
        case True
        then obtain i s2 where al: "alloc_named s k = Some (i, s2)" by auto
        have n: "find_mem s k = None" using load_NOTFOUND ld Inl True by blast
        have "fork_point s k w = w" using ld Inl by (simp add: fork_point_def)
        then show ?thesis
          using spawned [OF alloc_handle [OF ok k(3) n al]] st False True ld Inl s1 al k
          by (auto simp: start_body_def arg_ok_def split: if_splits)
      next
        case f: False
        then have "s' = s" "r \<noteq> OK"
          using st False ld Inl s1 k by (auto simp: start_body_def arg_ok_def load_agent_def read_slot_file_def
              split: if_splits option.splits sum.splits)
        then show ?thesis using only_agent_refl [OF ok] by simp
      qed
    next
      case (Inr i)
      note l = ld [unfolded Inr]
      obtain a w1 where rp: "reap_slot (agents s1 ! i) w = (a, w1)" by fastforce
      have h: "slot_handle k s i s1" by (rule load_handle [OF ok k(3) l])
      then have ga: "good_slot k a" using reap_slot_good [OF rp] by (simp add: slot_handle_def)
      have h2: "slot_handle k s i (set_slot i a s1)" using slot_handle_set [OF h ga loaded_index [OF ok k(3) l]] .
      have "fork_point s k w = w1" using l rp by (simp add: fork_point_def)
      then show ?thesis
        using spawned [OF h2] slot_handle_put [OF h ga] st False l rp k
        by (auto simp: start_body_def arg_ok_def split: if_splits)
    qed
  qed
  then show "only_agent (or_empty aid) s s'"
    and "r = OK \<longrightarrow> (\<exists>pid a. view s' (or_empty aid) = Some a \<and> fresh_run m ws pid a \<and> forked s (or_empty aid) w pid w')" by blast+
qed

text \<open>The slot \<open>bind\<close> writes when it finds slot \<open>a\<close> after reaping.\<close>

definition bind_result :: "agent_slot \<Rightarrow> cstring_opt \<Rightarrow> cstring_opt \<Rightarrow> pid_t \<Rightarrow> agent_slot" where
  "bind_result a m ws pid =
     (if slot_state a = AGENT_RUNNING then
        (if slot_workspace a = [] \<and> nonempty ws then filled_slot a ws pid else a)
      else bound_slot a m ws pid)"

lemma bind_result_good:
  "good_slot k a \<Longrightarrow> arg_ok m PHRONESIS_MODE_MAX \<Longrightarrow> arg_ok ws PHRONESIS_PATH_MAX \<Longrightarrow> good_slot k (bind_result a m ws pid)"
  by (simp add: bind_result_def bound_slot_good filled_slot_good)

lemma bind_result_running: "slot_state (bind_result a m ws pid) = AGENT_RUNNING"
  by (simp add: bind_result_def filled_slot_def bound_slot_def)

definition bind_args_ok :: "cstring_opt \<Rightarrow> cstring_opt \<Rightarrow> cstring_opt \<Rightarrow> pid_t \<Rightarrow> bool" where
  "bind_args_ok aid m ws pid \<longleftrightarrow>
     valid_id aid \<and> arg_ok m PHRONESIS_MODE_MAX \<and> arg_ok ws PHRONESIS_PATH_MAX \<and> 0 \<le> pid"

lemma bind_bad_args: "\<not> bind_args_ok aid m ws pid \<Longrightarrow> bind_body aid m ws pid s w = (ERR_INVAL, s, w)"
  by (auto simp: bind_body_def bind_args_ok_def arg_ok_def)

lemma bind_found:
  assumes ok: "sup_ok s" and args: "bind_args_ok (Some k) m ws pid" and ld: "load_agent s k w = (Inr i, s1)"
    and rp: "reap_slot (agents s1 ! i) w = (a, w1)" and b: "bind_body (Some k) m ws pid s w = (r, s', w')"
  shows "only_agent k s s' \<and> view s' = (view s)(k \<mapsto> bind_result a m ws pid)
     \<and> (r = OK \<or> r = ERR_IO \<or> r = ERR_EXISTS)
     \<and> (r = ERR_EXISTS \<longleftrightarrow> slot_state a = AGENT_RUNNING \<and> \<not> (slot_workspace a = [] \<and> nonempty ws))"
proof -
  have k: "valid_id (Some k)" "arg_ok m PHRONESIS_MODE_MAX" "arg_ok ws PHRONESIS_PATH_MAX" "\<not> pid < 0"
    using args by (simp_all add: bind_args_ok_def)
  have h: "slot_handle k s i s1" by (rule load_handle [OF ok k(1) ld])
  then have ga: "good_slot k a" using reap_slot_good [OF rp] by (simp add: slot_handle_def)
  have gr: "good_slot k (bind_result a m ws pid)" by (rule bind_result_good [OF ga k(2,3)])
  have body: "bind_body (Some k) m ws pid s w =
     (if slot_state a = AGENT_RUNNING \<and> \<not> (slot_workspace a = [] \<and> nonempty ws) then (ERR_EXISTS, set_slot i a s1, w1)
      else bind_slot i k (bind_result a m ws pid)
        (if slot_state a = AGENT_RUNNING then ''bind fill-workspace pid='' @ show_int (slot_pid (bind_result a m ws pid))
         else ''bind pid='' @ show_int pid) s1 w1)"
    using k ld rp by (auto simp: bind_body_def arg_ok_def bind_result_def Let_def)
  show ?thesis
  proof (cases "slot_state a = AGENT_RUNNING \<and> \<not> (slot_workspace a = [] \<and> nonempty ws)")
    case True
    then show ?thesis using body b slot_handle_put [OF h ga] slot_handle_view [OF h ga] by (auto simp: bind_result_def)
  next
    case False
    then have "bind_slot i k (bind_result a m ws pid)
        (if slot_state a = AGENT_RUNNING then ''bind fill-workspace pid='' @ show_int (slot_pid (bind_result a m ws pid))
         else ''bind pid='' @ show_int pid) s1 w1 = (r, s', w')"
      using b unfolding body by (simp only: if_False)
    from bind_slot_effect [OF h gr this] show ?thesis using False by auto
  qed
qed

lemma bind_not_found:
  assumes ok: "sup_ok s" and args: "bind_args_ok (Some k) m ws pid" and ld: "load_agent s k w = (Inl e, s1)"
    and b: "bind_body (Some k) m ws pid s w = (r, s', w')"
  shows "(s' = s \<and> r \<noteq> OK) \<or>
     (only_agent k s s' \<and> (r = OK \<or> r = ERR_IO)
      \<and> view s' = (view s)(k \<mapsto> bound_slot (zero_slot\<lparr>in_use := True, exit_status := -1, slot_id := k\<rparr>) m ws pid))"
proof -
  have k: "valid_id (Some k)" "arg_ok m PHRONESIS_MODE_MAX" "arg_ok ws PHRONESIS_PATH_MAX" "\<not> pid < 0"
    using args by (simp_all add: bind_args_ok_def)
  have s1: "s1 = s" by (rule load_failed_same [OF ld])
  show ?thesis
  proof (cases "e = ERR_NOTFOUND \<and> alloc_named s k \<noteq> None")
    case True
    then obtain i s2 where al: "alloc_named s k = Some (i, s2)" by auto
    have n: "find_mem s k = None" using load_NOTFOUND ld True by blast
    have h: "slot_handle k s i s2" by (rule alloc_handle [OF ok k(1) n al])
    have z: "agents s2 ! i = zero_slot\<lparr>in_use := True, exit_status := -1, slot_id := k\<rparr>"
      using alloc_named_slot(1) [OF ok k(1) n al] .
    have g: "good_slot k (bound_slot (agents s2 ! i) m ws pid)" using h k by (intro bound_slot_good) (auto simp: slot_handle_def)
    have "bind_slot i k (bound_slot (agents s2 ! i) m ws pid) (''bind pid='' @ show_int pid) s2 w = (r, s', w')"
      using b k ld al True s1 by (auto simp: bind_body_def arg_ok_def)
    from bind_slot_effect [OF h g this] show ?thesis using z by auto
  next
    case False
    then show ?thesis
      using b k ld s1 by (auto simp: bind_body_def arg_ok_def load_agent_def read_slot_file_def
          split: if_splits option.splits sum.splits)
  qed
qed

lemma bind_effect:
  assumes ok: "sup_ok s" and b: "bind_body aid m ws pid s w = (r, s', w')"
  shows "only_agent (or_empty aid) s s' \<and> (r = OK \<longrightarrow> (\<exists>a. view s' (or_empty aid) = Some a \<and> slot_state a = AGENT_RUNNING))"
proof (cases "bind_args_ok aid m ws pid")
  case False
  then show ?thesis using bind_bad_args [OF False] b only_agent_refl [OF ok] by auto
next
  case True
  then obtain k where k: "aid = Some k" "or_empty aid = k" by (cases aid) (auto simp: bind_args_ok_def valid_id_def or_empty_def)
  obtain q s1 where ld: "load_agent s k w = (q, s1)" by fastforce
  show ?thesis
  proof (cases q)
    case (Inl e)
    show ?thesis
      using bind_not_found [OF ok True [unfolded k(1)] ld [unfolded Inl] b [unfolded k(1)]] only_agent_refl [OF ok] k
      by (auto simp: bound_slot_def)
  next
    case (Inr i)
    obtain a w1 where rp: "reap_slot (agents s1 ! i) w = (a, w1)" by fastforce
    show ?thesis
      using bind_found [OF ok True [unfolded k(1)] ld [unfolded Inr] rp b [unfolded k(1)]] k
      by (auto simp: bind_result_running)
  qed
qed

lemma status_found:
  assumes ok: "sup_ok s" and k: "valid_id (Some k)" and ld: "load_agent s k w = (Inr i, s1)"
    and rp: "reap_slot (agents s1 ! i) w = (a, w1)"
  shows "phronesis_supervisor_status (Some s) (Some k) w = (Inr (status_of a), Some (set_slot i a s1), snd (write_slot s1 a w1))"
    and "only_agent k s (set_slot i a s1)" "view (set_slot i a s1) = (view s)(k \<mapsto> a)" "good_slot k a"
proof -
  have h: "slot_handle k s i s1" by (rule load_handle [OF ok k ld])
  then show g: "good_slot k a" using reap_slot_good [OF rp] by (simp add: slot_handle_def)
  show "only_agent k s (set_slot i a s1)" "view (set_slot i a s1) = (view s)(k \<mapsto> a)"
    using slot_handle_put [OF h g] slot_handle_view [OF h g] by blast+
  show "phronesis_supervisor_status (Some s) (Some k) w = (Inr (status_of a), Some (set_slot i a s1), snd (write_slot s1 a w1))"
    using k ld rp by (simp add: phronesis_supervisor_status_def)
qed

lemma status_effect:
  assumes ok: "sup_ok s" and st: "phronesis_supervisor_status (Some s) aid w = (r, so', w')"
  shows "\<exists>s'. so' = Some s' \<and> only_agent (or_empty aid) s s'
     \<and> (\<forall>x. r = Inr x \<longrightarrow> (\<exists>a. view s' (or_empty aid) = Some a \<and> x = status_of a))"
proof (cases "valid_id aid")
  case False
  then show ?thesis using st only_agent_refl [OF ok] by (auto simp: phronesis_supervisor_status_def)
next
  case True
  then obtain k where k: "aid = Some k" "or_empty aid = k" "valid_id (Some k)" using valid_id_Some by (cases aid) (auto simp: or_empty_def)
  obtain q s1 where ld: "load_agent s k w = (q, s1)" by fastforce
  show ?thesis
  proof (cases q)
    case (Inl e)
    then show ?thesis using st k ld load_failed_same [of s k w e s1] only_agent_refl [OF ok]
      by (auto simp: phronesis_supervisor_status_def)
  next
    case (Inr i)
    obtain a w1 where rp: "reap_slot (agents s1 ! i) w = (a, w1)" by fastforce
    show ?thesis using status_found [OF ok k(3) ld [unfolded Inr] rp] st k(1,2) by auto
  qed
qed

lemma status_of_state [simp]: "st_state (status_of a) = slot_state a"
  by (simp add: status_of_def)

lemma require_running_effect:
  assumes ok: "sup_ok s" and rq: "phronesis_policy_require_running_agent (Some s) aid w = (c, so', w')"
  shows "\<exists>s'. so' = Some s' \<and> only_agent (or_empty aid) s s'
     \<and> (c = None \<longrightarrow> (\<exists>a. view s' (or_empty aid) = Some a \<and> slot_state a = AGENT_RUNNING))"
proof (cases "nonempty aid")
  case False
  then show ?thesis using rq only_agent_refl [OF ok] by (auto simp: phronesis_policy_require_running_agent_def)
next
  case True
  obtain r so1 w1 where st: "phronesis_supervisor_status (Some s) aid w = (r, so1, w1)" by (metis prod.collapse)
  show ?thesis
    using status_effect [OF ok st] rq True st
    by (cases r) (auto simp: phronesis_policy_require_running_agent_def split: if_splits)
qed

lemma stop_group_effect:
  assumes "slot_handle k s0 i s" "good_slot k a" "stop_group i k a g s w = (r, s', w')"
  shows "r = OK" "only_agent k s0 s'" "\<exists>b. view s' k = Some b \<and> slot_state b = AGENT_STOPPED \<and> slot_pid b = 0"
proof -
  let ?b = "a\<lparr>cgroup_path := [], slot_state := AGENT_STOPPED, slot_pid := 0, exit_status := -1\<rparr>"
  have g: "good_slot k ?b" using assms(2) by (auto simp: good_slot_def slot_ok_def)
  have s': "r = OK" "s' = set_slot i ?b s" using assms(3) by (auto simp: stop_group_def Let_def split: prod.splits)
  show "r = OK" using s' by simp
  show "only_agent k s0 s'" using slot_handle_put [OF assms(1) g] s' by simp
  show "\<exists>b. view s' k = Some b \<and> slot_state b = AGENT_STOPPED \<and> slot_pid b = 0"
    using slot_handle_view [OF assms(1) g] s' by simp
qed

lemma stop_effect:
  assumes ok: "sup_ok s" and st: "stop_body aid s w = (r, s', w')"
  shows "only_agent (or_empty aid) s s'
     \<and> (r = OK \<longrightarrow> (\<exists>b. view s' (or_empty aid) = Some b \<and> slot_state b \<noteq> AGENT_RUNNING))"
proof (cases "valid_id aid")
  case False
  then show ?thesis using st only_agent_refl [OF ok] by (simp add: stop_body_def)
next
  case True
  then obtain k where k: "aid = Some k" "or_empty aid = k" "valid_id (Some k)" using valid_id_Some by (cases aid) (auto simp: or_empty_def)
  obtain q s1 where ld: "load_agent s k w = (q, s1)" by fastforce
  show ?thesis
  proof (cases q)
    case (Inl e)
    have "e \<noteq> OK" using ld Inl by (auto simp: load_agent_def read_slot_file_def split: option.splits sum.splits if_splits)
    then show ?thesis using st k ld Inl load_failed_same [of s k w e s1] only_agent_refl [OF ok]
      by (auto simp: stop_body_def)
  next
    case (Inr i)
    obtain a w1 where rp: "reap_slot (agents s1 ! i) w = (a, w1)" by fastforce
    have h: "slot_handle k s i s1" by (rule load_handle [OF ok k(3) ld [unfolded Inr]])
    then have ga: "good_slot k a" using reap_slot_good [OF rp] by (simp add: slot_handle_def)
    let ?b = "a\<lparr>slot_state := AGENT_STOPPED, slot_pid := 0, slot_pgid := 0\<rparr>"
    have gb: "good_slot k ?b" using ga by (auto simp: good_slot_def slot_ok_def)
    consider (idle) "slot_state a \<noteq> AGENT_RUNNING" "r = OK" "s' = set_slot i a s1"
      | (bound) "r = OK" "s' = set_slot i ?b s1"
      | (group) g where "stop_group i k a g s1 w1 = (r, s', w')"
      using st k ld Inr rp by (auto simp: stop_body_def Let_def split: if_splits)
    then show ?thesis
    proof cases
      case idle
      then show ?thesis using slot_handle_put [OF h ga] slot_handle_view [OF h ga] k by simp
    next
      case bound
      then show ?thesis using slot_handle_put [OF h gb] slot_handle_view [OF h gb] k by simp
    next
      case group
      then show ?thesis using stop_group_effect [OF h ga group] k by auto
    qed
  qed
qed

lemma policy_check_eval_effect:
  assumes ok: "sup_ok s" and pc: "policy_check_eval aid tool act path s w = (r, s', w')"
  shows "only_agent (or_empty aid) s s'
     \<and> (\<forall>out. r = Inr out \<longrightarrow> (\<exists>ws. out = phronesis_policy_eval (w_env w) ws tool act path
          \<and> (\<forall>root. ws = Some root \<longrightarrow> (\<exists>a. view s' (or_empty aid) = Some a \<and> slot_workspace a = root))))"
proof (cases "nonempty aid")
  case False
  then show ?thesis using pc only_agent_refl [OF ok] by (auto simp: policy_check_eval_def Let_def)
next
  case ne: True
  show ?thesis
  proof (cases "valid_id aid")
    case False
    then show ?thesis using pc ne only_agent_refl [OF ok] by (auto simp: policy_check_eval_def)
  next
    case True
    then obtain k where k: "aid = Some k" "or_empty aid = k" "valid_id (Some k)" using valid_id_Some by (cases aid) (auto simp: or_empty_def)
    obtain q s1 where ld: "load_agent s k w = (q, s1)" by fastforce
    show ?thesis
    proof (cases q)
      case (Inl e)
      then show ?thesis using pc k ne ld load_failed_same [of s k w e s1] only_agent_refl [OF ok]
        by (cases "e = ERR_NOTFOUND") (auto simp: policy_check_eval_def Let_def)
    next
      case (Inr i)
      obtain a w1 where rp: "reap_slot (agents s1 ! i) w = (a, w1)" by fastforce
      have env: "w_env (snd (write_slot s1 a w1)) = w_env w"
        using fs_only_sel(5) [OF write_slot_fs_only] reap_slot_frame [OF rp] by (simp add: host_frame_def)
      note f = status_found(2,3) [OF ok k(3) ld [unfolded Inr] rp]
      have r: "r = Inr (phronesis_policy_eval (w_env w) (if slot_workspace a \<noteq> [] then Some (slot_workspace a) else None) tool act path)"
        and s': "s' = set_slot i a s1"
        using pc k ne ld Inr rp env by (auto simp: policy_check_eval_def Let_def)
      show ?thesis using f r k s' by auto
    qed
  qed
qed

section \<open>Killing a process group\<close>

lemma wait_gone_frame: "w_sent (wait_gone n g w) = w_sent w \<and> w_fs (wait_gone n g w) = w_fs w \<and> host_frame w (wait_gone n g w)"
proof (induction n arbitrary: w)
  case (Suc n)
  have u: "w_sent (usleep (snd (waitpid (- g) w))) = w_sent w \<and> w_fs (usleep (snd (waitpid (- g) w))) = w_fs w
    \<and> host_frame w (usleep (snd (waitpid (- g) w)))"
    by (simp add: usleep_def host_frame_def waitpid_def split: option.splits)
  show ?case using Suc [of "usleep (snd (waitpid (- g) w))"] u by (auto intro: host_frame_trans)
qed simp

lemma drain_frame: "w_sent (drain g w) = w_sent w \<and> w_fs (drain g w) = w_fs w \<and> host_frame w (drain g w)"
proof (induction g w rule: drain.induct)
  case (1 g w)
  obtain r w1 where r: "waitpid (- g) w = (r, w1)" by fastforce
  have u: "w_sent w1 = w_sent w \<and> w_fs w1 = w_fs w \<and> host_frame w w1"
    using r by (auto simp: waitpid_def host_frame_def split: option.splits if_splits)
  show ?case
  proof (cases r)
    case (Reaped p st)
    then show ?thesis using 1 [OF r [symmetric] Reaped] u r by (subst (1 2 3) drain.simps) (auto intro: host_frame_trans)
  qed (use u r in \<open>simp_all add: drain.simps [of g w]\<close>)
qed

text \<open>The signals of \<open>kill_tree\<close>: none for a group number that could name init, the caller's own group or
  every process; otherwise SIGTERM to the group, and SIGKILL to the group when it is still there.\<close>

lemma kill_tree_refused: "g \<le> 1 \<Longrightarrow> kill_tree g w = (ERR_INVAL, w)"
  by (simp add: kill_tree_def)

lemma kill_tree_sent:
  "1 < g \<Longrightarrow> w_sent (snd (kill_tree g w)) \<in>
     {w_sent w @ [(- g, SIGTERM)], w_sent w @ [(- g, SIGTERM), (- g, SIGKILL)]}"
  by (simp add: kill_tree_def Let_def kill_sig_def wait_gone_frame drain_frame)

lemma kill_tree_frame: "w_fs (snd (kill_tree g w)) = w_fs w \<and> host_frame w (snd (kill_tree g w))"
proof -
  have k: "w_fs (kill_sig t sg v) = w_fs v \<and> host_frame v (kill_sig t sg v)" for t sg v
    by (simp add: kill_sig_def host_frame_def)
  define f where "f v v' \<longleftrightarrow> w_fs v' = w_fs v \<and> host_frame v v'" for v v' :: world
  have tr: "f a c" if "f a b" "f b c" for a b c using that host_frame_trans unfolding f_def by metis
  have k': "f v (kill_sig t sg v)" "f v (wait_gone n g v)" "f v (drain g v)" for t sg v n
    using k wait_gone_frame drain_frame unfolding f_def by blast+
  have s: "f v (wait_gone 50 g (kill_sig (- g) sg v))" for v sg by (rule tr [OF k'(1,2)])
  have "f w (snd (kill_tree g w))"
  proof (cases "g \<le> 1")
    case True
    then show ?thesis by (simp add: kill_tree_def f_def)
  next
    case False
    then show ?thesis using tr [OF tr [OF s s] k'(3)] tr [OF s k'(3)] by (simp add: kill_tree_def Let_def)
  qed
  then show ?thesis unfolding f_def .
qed

text \<open>The host as \<open>kill_tree\<close> needs it: the members of the group are the supervisor's children and may be
  signalled, and while it sleeps no process joins the group and no dead one comes back.\<close>

definition member_ok :: "pid_t \<Rightarrow> proc list \<Rightarrow> bool" where
  "member_ok g ps \<longleftrightarrow> (\<forall>p \<in> set ps. p_pgid p = g \<longrightarrow> p_child p \<and> p_perm p \<and> 0 < p_pid p)"

definition tick_orderly :: "pid_t \<Rightarrow> (proc list \<Rightarrow> proc list) \<Rightarrow> bool" where
  "tick_orderly g tick \<longleftrightarrow>
     (\<forall>ps. \<forall>p \<in> set (tick ps). p_pgid p = g \<longrightarrow>
        (\<exists>q \<in> set ps. p_pgid q = g \<and> p_child p = p_child q \<and> p_perm p = p_perm q \<and> p_pid p = p_pid q
           \<and> (p_stat q \<noteq> Alive \<longrightarrow> p_stat p \<noteq> Alive)))"

definition group_dead :: "pid_t \<Rightarrow> proc list \<Rightarrow> bool" where
  "group_dead g ps \<longleftrightarrow> (\<forall>p \<in> set ps. p_pgid p = g \<longrightarrow> p_stat p \<noteq> Alive)"

definition group_gone :: "pid_t \<Rightarrow> world \<Rightarrow> bool" where
  "group_gone g w \<longleftrightarrow> (\<forall>p \<in> set (w_procs w). p_pgid p \<noteq> g)"

lemma names_group: "0 < g \<Longrightarrow> names_proc (- g) p \<longleftrightarrow> p_pgid p = g"
  by (auto simp: names_proc_def)

lemma member_ok_tick: "tick_orderly g t \<Longrightarrow> member_ok g ps \<Longrightarrow> member_ok g (t ps)"
  unfolding tick_orderly_def member_ok_def by metis

lemma group_dead_tick: "tick_orderly g t \<Longrightarrow> group_dead g ps \<Longrightarrow> group_dead g (t ps)"
  unfolding tick_orderly_def group_dead_def by metis

lemma member_ok_subset: "set qs \<subseteq> set ps \<Longrightarrow> member_ok g ps \<Longrightarrow> member_ok g qs"
  by (auto simp: member_ok_def)

lemma group_dead_subset: "set qs \<subseteq> set ps \<Longrightarrow> group_dead g ps \<Longrightarrow> group_dead g qs"
  by (auto simp: group_dead_def)

lemma hit_fields [simp]: "p_pgid (hit w t sg p) = p_pgid p" "p_child (hit w t sg p) = p_child p"
    "p_perm (hit w t sg p) = p_perm p" "p_pid (hit w t sg p) = p_pid p"
  by (simp_all add: hit_def)

lemma member_ok_kill: "member_ok g (w_procs w) \<Longrightarrow> member_ok g (w_procs (kill_sig t sg w))"
  by (auto simp: member_ok_def kill_sig_def)

lemma group_dead_kill:
  assumes "0 < g" "member_ok g (w_procs w)"
  shows "group_dead g (w_procs (kill_sig (- g) SIGKILL w))"
proof -
  have "p_stat (hit w (- g) SIGKILL q) \<noteq> Alive" if "q \<in> set (w_procs w)" "p_pgid q = g" for q
    using assms that by (cases "p_stat q = Alive") (simp_all add: hit_def names_group member_ok_def)
  then show ?thesis by (simp add: group_dead_def kill_sig_def)
qed

text \<open>Any property of the process table that survives reaping and sleeping survives the wait loop.\<close>

lemma wait_gone_keep:
  assumes "P (w_procs w)" "\<And>ps qs. set qs \<subseteq> set ps \<Longrightarrow> P ps \<Longrightarrow> P qs" "\<And>ps. P ps \<Longrightarrow> P (w_tick w ps)"
  shows "P (w_procs (wait_gone n g w))"
  using assms(1,3)
proof (induction n arbitrary: w)
  case (Suc n)
  let ?u = "usleep (snd (waitpid (- g) w))"
  have t: "w_tick ?u = w_tick w" by (simp add: usleep_def)
  have p: "w_procs ?u = w_tick w (w_procs (snd (waitpid (- g) w)))" by (simp add: usleep_def)
  have "P (w_procs ?u)" unfolding p by (rule Suc.prems(2), rule assms(2) [OF waitpid_procs_subset Suc.prems(1)])
  then have "P (w_procs (wait_gone n g ?u))" by (rule Suc.IH) (simp add: t Suc.prems(2))
  then show ?case using Suc.prems(1) by simp
qed simp

lemma wait_gone_keeps:
  assumes t: "tick_orderly g (w_tick w)"
  shows "member_ok g (w_procs w) \<Longrightarrow> member_ok g (w_procs (wait_gone n g w))"
    and "group_dead g (w_procs w) \<Longrightarrow> group_dead g (w_procs (wait_gone n g w))"
   apply (erule wait_gone_keep, erule (1) member_ok_subset, erule member_ok_tick [OF t])
  apply (erule wait_gone_keep, erule (1) group_dead_subset, erule group_dead_tick [OF t])
  done

lemma drain_empties:
  "0 < g \<Longrightarrow> member_ok g (w_procs w) \<Longrightarrow> group_dead g (w_procs w) \<Longrightarrow> group_gone g (drain g w)"
proof (induction g w rule: drain.induct)
  case (1 g w)
  obtain r w1 where r: "waitpid (- g) w = (r, w1)" by fastforce
  show ?case
  proof (cases "find (reapable (- g)) (w_procs w)")
    case None
    then have "\<forall>p \<in> set (w_procs w). p_pgid p \<noteq> g"
      using "1.prems" by (auto simp: find_None_iff reapable_def names_group member_ok_def group_dead_def)
    moreover have "w_procs (drain g w) = w_procs w"
      using None by (subst drain.simps) (simp add: waitpid_def)
    ultimately show ?thesis by (simp add: group_gone_def)
  next
    case (Some p)
    have p: "p \<in> set (w_procs w)" "p_pgid p = g"
      using Some "1.prems"(1) by (auto simp: find_Some_iff reapable_def names_group)
    then have "0 < p_pid p" using "1.prems"(2) by (simp add: member_ok_def)
    moreover obtain st where rr: "r = Reaped (p_pid p) st" using r Some by (auto simp: waitpid_def)
    moreover have s: "set (w_procs w1) \<subseteq> set (w_procs w)" using waitpid_procs_subset [of "- g" w] r by simp
    ultimately show ?thesis
      using "1.IH" [OF r [symmetric] rr] "1.prems"(1) r
        member_ok_subset [OF s "1.prems"(2)] group_dead_subset [OF s "1.prems"(3)] by (subst drain.simps) simp
  qed
qed

lemma drain_subset: "set (w_procs (drain g w)) \<subseteq> set (w_procs w)"
proof (induction g w rule: drain.induct)
  case (1 g w)
  obtain r w1 where r: "waitpid (- g) w = (r, w1)" by fastforce
  have s: "set (w_procs w1) \<subseteq> set (w_procs w)" using waitpid_procs_subset [of "- g" w] r by simp
  show ?case
  proof (cases r)
    case (Reaped p st)
    then show ?thesis using 1 [OF r [symmetric] Reaped] s r by (subst drain.simps) auto
  qed (use s r in \<open>simp_all add: drain.simps [of g w]\<close>)
qed

lemma kill_tree_gone:
  assumes g: "1 < g" and t: "tick_orderly g (w_tick w)" and m: "member_ok g (w_procs w)"
  shows "group_gone g (snd (kill_tree g w))"
proof -
  define w1 where "w1 = wait_gone 50 g (kill_sig (- g) SIGTERM w)"
  have t1: "tick_orderly g (w_tick w1)"
    using t wait_gone_frame [of 50 g "kill_sig (- g) SIGTERM w"] by (simp add: w1_def host_frame_def kill_sig_def)
  have t0: "tick_orderly g (w_tick (kill_sig (- g) sg v))" if "tick_orderly g (w_tick v)" for sg v
    using that by (simp add: kill_sig_def)
  have m1: "member_ok g (w_procs w1)"
    unfolding w1_def by (rule wait_gone_keeps(1) [OF t0 [OF t] member_ok_kill [OF m]])
  show ?thesis
  proof (cases "kill0 w1 (- g) = None")
    case True
    let ?w2 = "wait_gone 50 g (kill_sig (- g) SIGKILL w1)"
    have "member_ok g (w_procs ?w2)" by (rule wait_gone_keeps(1) [OF t0 [OF t1] member_ok_kill [OF m1]])
    moreover have "group_dead g (w_procs ?w2)"
      by (rule wait_gone_keeps(2) [OF t0 [OF t1] group_dead_kill [OF _ m1]]) (use g in simp)
    ultimately have "group_gone g (drain g ?w2)" using drain_empties g by simp
    then show ?thesis using g True by (simp add: kill_tree_def Let_def w1_def [symmetric])
  next
    case False
    then have "filter (names_proc (- g)) (w_procs w1) = []"
      using m1 g by (auto simp: kill0_def Let_def member_ok_def names_group list_ex_iff filter_empty_conv split: if_splits)
    then have "\<forall>p \<in> set (w_procs w1). p_pgid p \<noteq> g" using g by (auto simp: filter_empty_conv names_group)
    then have "group_gone g (drain g w1)" using drain_subset [of g w1] by (auto simp: group_gone_def)
    then show ?thesis using g False by (auto simp: kill_tree_def Let_def w1_def [symmetric])
  qed
qed

section \<open>Properties\<close>

text \<open>The life of a supervisor: any of its operations, with any arguments, and any change of the host
  between two calls.\<close>

inductive sup_step :: "supervisor \<times> world \<Rightarrow> supervisor \<times> world \<Rightarrow> bool" where
  step_start: "phronesis_supervisor_start (Some s) aid m ws argv w = (r, Some s', w') \<Longrightarrow> sup_step (s, w) (s', w')"
| step_bind: "phronesis_supervisor_bind (Some s) aid m ws pid w = (r, Some s', w') \<Longrightarrow> sup_step (s, w) (s', w')"
| step_status: "phronesis_supervisor_status (Some s) aid w = (q, Some s', w') \<Longrightarrow> sup_step (s, w) (s', w')"
| step_stop: "phronesis_supervisor_stop (Some s) aid w = (r, Some s', w') \<Longrightarrow> sup_step (s, w) (s', w')"
| step_check: "phronesis_policy_check (Some s) aid tool act path w = (c, Some s', w') \<Longrightarrow> sup_step (s, w) (s', w')"
| step_log: "phronesis_supervisor_log (Some s) aid kind detail w = (r, w') \<Longrightarrow> sup_step (s, w) (s, w')"
| step_host: "sup_step (s, w) (s, w')"

inductive_cases sup_stepE: "sup_step (s, w) (s', w')"

lemma with_sup_Some: "with_sup f (Some s) w = (r, Some s', w') \<longleftrightarrow> f s w = (r, s', w')"
  by (auto simp: with_sup_def split: prod.splits)

lemmas sup_ops = phronesis_supervisor_start_def phronesis_supervisor_bind_def phronesis_supervisor_stop_def with_sup_Some

lemma only_agent_trans: "only_agent k a b \<Longrightarrow> only_agent k b c \<Longrightarrow> only_agent k a c"
  by (simp add: only_agent_def)

lemma policy_check_effect:
  assumes ok: "sup_ok s" and pc: "phronesis_policy_check (Some s) aid tool act path w = (r, so', w')"
  shows "\<exists>s'. so' = Some s' \<and> only_agent (or_empty aid) s s'"
proof -
  obtain c so1 w1 where g: "(if \<not> phronesis_policy_deny_all (w_env w) \<and> (tool = Some ''seat'' \<or> tool = Some ''model'')
      then phronesis_policy_require_running_agent (Some s) aid w else (None, Some s, w)) = (c, so1, w1)"
    by (metis prod.collapse)
  obtain s1 where s1: "so1 = Some s1" "only_agent (or_empty aid) s s1"
  proof (cases "\<not> phronesis_policy_deny_all (w_env w) \<and> (tool = Some ''seat'' \<or> tool = Some ''model'')")
    case True
    then have "phronesis_policy_require_running_agent (Some s) aid w = (c, so1, w1)" using g by simp
    from require_running_effect [OF ok this] show ?thesis using that by blast
  next
    case False
    then have "so1 = Some s" using g by (auto split: if_splits)
    then show ?thesis using that only_agent_refl [OF ok] by blast
  qed
  have ok1: "sup_ok s1" using s1 by (simp add: only_agent_def)
  obtain r2 s2 w2 where e: "policy_check_eval aid tool act path s1 w1 = (r2, s2, w2)" by (metis prod.collapse)
  have "only_agent (or_empty aid) s s2"
    using policy_check_eval_effect [OF ok1 e] s1(2) only_agent_trans by blast
  then show ?thesis
    using pc s1 e unfolding phronesis_policy_check_def option.case g prod.case by (cases c) auto
qed

lemma sup_step_effect: "sup_step (s, w) (s', w') \<Longrightarrow> sup_ok s \<Longrightarrow> \<exists>k. only_agent k s s'"
  by (erule sup_stepE)
    (auto simp: sup_ops dest: start_effect(1) bind_effect stop_effect status_effect policy_check_effect intro: only_agent_refl)

lemma open_dirs_added:
  assumes "phronesis_supervisor_open mem st rt w = (Inr s, w')"
  shows "dirs_added mode_0700 w w'"
proof -
  obtain sd rd lg w1 where r: "phronesis_paths_resolve PHRONESIS_PATH_MAX PHRONESIS_PATH_MAX PHRONESIS_PATH_MAX st rt w = (Inr (sd, rd, lg), w1)"
    and e: "phronesis_paths_ensure_dir (Some (rd @ ''/agents'')) mode_0700 w1 = (OK, w')"
    using assms by (auto simp: phronesis_supervisor_open_def Let_def split: if_splits prod.splits sum.splits)
  obtain w0 where t: "ensure_state_tree sd w = (OK, w0)" "phronesis_paths_ensure_dir (Some rd) mode_0700 w0 = (OK, w1)"
    using r by (auto simp: phronesis_paths_resolve_def split: sum.splits if_splits prod.splits)
  show ?thesis
    using ensure_state_tree_ok [OF t(1)] ensure_dir_dirs_added [OF t(2)] ensure_dir_dirs_added [OF e] dirs_added_trans by blast
qed

lemma open_fs_only: "phronesis_supervisor_open mem st rt w = (Inr s, w') \<Longrightarrow> fs_only w w'"
  using open_dirs_added by (simp add: dirs_added_def)

lemma open_sup_ok:
  assumes "phronesis_supervisor_open mem st rt w = (Inr s, w')"
  shows "sup_ok s" "\<forall>k. view s k = None"
proof -
  have a: "agents s = replicate PHRONESIS_MAX_AGENTS zero_slot"
    using assms by (auto simp: phronesis_supervisor_open_def Let_def split: if_splits prod.splits sum.splits)
  then have "\<not> slot_ref s k i" for k i by (auto simp: slot_ref_def zero_slot_def)
  then show "sup_ok s" "\<forall>k. view s k = None" using a by (simp_all add: sup_ok_def view_None)
qed

text \<open>C4: The slot table stays well formed for the whole life of a supervisor. From a successful open on,
  after any sequence of operations with any arguments and any interference of the host, the table has
  its sixteen entries, no two slots in use carry the same id, and every slot in use has a valid id and
  texts that fit their buffers; and each single operation leaves the slots of all agents but one
  untouched.\<close>

theorem supervisor_invariant:
  assumes op: "phronesis_supervisor_open mem st rt w0 = (Inr s0, w1)"
    and reach: "sup_step\<^sup>*\<^sup>* (s0, w1) (s, w)"
  shows "sup_ok s \<and> (\<forall>s' w'. sup_step (s, w) (s', w') \<longrightarrow> (\<exists>k. only_agent k s s'))"
proof -
  have ok: "sup_ok s" using reach
  proof (induction rule: rtranclp_induct2)
    case refl
    then show ?case using open_sup_ok [OF op] by simp
  next
    case (step a b c d)
    then show ?case using sup_step_effect by (auto simp: only_agent_def)
  qed
  then show ?thesis using sup_step_effect by blast
qed

text \<open>A host with a home directory and a supervisor opened on it.\<close>

definition demo_world :: world where
  "demo_world =
     fresh_world\<lparr>w_env := (\<lambda>n. if n = ''HOME'' then Some ''/h'' else None),
       w_fs := (\<lambda>k. if k = [] \<or> k = [''h''] then Some (Dir 493) else None)\<rparr>"

definition demo_open :: "(rc + supervisor) \<times> world" where
  "demo_open = phronesis_supervisor_open True (Some ''/h/s'') (Some ''/h/r'') demo_world"

definition demo_sup :: supervisor where
  "demo_sup =
     \<lparr>state_dir = ''/h/s'', runtime_dir = ''/h/r'', action_log = ''/h/s/log/actions.jsonl'', agents_dir = ''/h/r/agents'',
      agents = replicate PHRONESIS_MAX_AGENTS zero_slot\<rparr>"

lemma demo_open_ok: "demo_open = (Inr demo_sup, snd demo_open)"
proof -
  have "fst demo_open = Inr demo_sup" by code_simp
  then show ?thesis by (metis prod.collapse)
qed

lemma supervisor_invariant_witness:
  "sup_ok (the (fst (snd (phronesis_supervisor_bind (Some demo_sup) (Some ''a1'') None (Some ''/w'') 0 (snd demo_open)))))"
proof -
  let ?b = "phronesis_supervisor_bind (Some demo_sup) (Some ''a1'') None (Some ''/w'') 0 (snd demo_open)"
  obtain r s' w' where "bind_body (Some ''a1'') None (Some ''/w'') 0 demo_sup (snd demo_open) = (r, s', w')"
    by (metis prod.collapse)
  then have b: "?b = (r, Some s', w')" by (simp add: phronesis_supervisor_bind_def with_sup_def)
  have "sup_step\<^sup>*\<^sup>* (demo_sup, snd demo_open) (s', w')" using step_bind [OF b] by blast
  then show ?thesis using supervisor_invariant [OF demo_open_ok [unfolded demo_open_def]] b by (simp add: demo_open_def)
qed

text \<open>C8: A committed workspace is sticky. When an agent's slot holds a workspace, a bind that finds the
  agent still running is refused and changes nothing of any slot, and a bind that brings no workspace
  never wipes the committed one, whether the agent runs or has stopped.\<close>

theorem bind_workspace_sticky:
  assumes ok: "sup_ok s" and v: "view s k = Some b" and ws: "slot_workspace b \<noteq> []"
    and bd: "phronesis_supervisor_bind (Some s) (Some k) mode workspace pid w = (r, Some s', w')"
  shows "(slot_state (fst (reap_slot b w)) = AGENT_RUNNING \<longrightarrow> (r = ERR_EXISTS \<or> r = ERR_INVAL) \<and> view s' = view s)
    \<and> (\<not> nonempty workspace \<longrightarrow> (\<exists>a. view s' k = Some a \<and> slot_workspace a = slot_workspace b))"
proof -
  obtain i where ld: "load_agent s k w = (Inr i, s)" and i: "agents s ! i = b" using load_hit [OF ok v] by blast
  obtain a w1 where rp: "reap_slot b w = (a, w1)" by fastforce
  have bb: "bind_body (Some k) mode workspace pid s w = (r, s', w')" using bd by (simp add: sup_ops)
  show ?thesis
  proof (cases "bind_args_ok (Some k) mode workspace pid")
    case False
    then show ?thesis using bind_bad_args [OF False] bb v by auto
  next
    case True
    note f = bind_found [OF ok True ld rp [folded i] bb]
    have keep: "slot_workspace a = slot_workspace b" using reap_slot_keeps(2) [OF rp] .
    have "view s' = view s" "r = ERR_EXISTS" if run: "slot_state a = AGENT_RUNNING"
      using f run ws keep reap_slot_running [OF rp run] v by (auto simp: bind_result_def fun_upd_idem)
    moreover have "slot_workspace (bind_result a mode workspace pid) = slot_workspace b" if "\<not> nonempty workspace"
      using that keep by (simp add: bind_result_def bound_slot_def)
    ultimately show ?thesis using f rp by auto
  qed
qed

definition seated :: agent_slot where
  "seated = zero_slot\<lparr>in_use := True, slot_id := ''a1'', slot_state := AGENT_RUNNING, slot_mode := ''develop'', slot_workspace := ''/w''\<rparr>"

definition seated_sup :: supervisor where
  "seated_sup = demo_sup\<lparr>agents := seated # replicate 15 zero_slot\<rparr>"

lemma seated_sup_ok: "sup_ok seated_sup" "view seated_sup ''a1'' = Some seated"
proof -
  have sl: "slot_ok seated" by code_simp
  have r: "slot_ref seated_sup k i \<longleftrightarrow> i = 0 \<and> k = ''a1''" for k i
    by (cases i) (auto simp: slot_ref_def seated_sup_def seated_def zero_slot_def)
  show "sup_ok seated_sup" using sl unfolding sup_ok_def r by (simp add: seated_sup_def PHRONESIS_MAX_AGENTS_def)
  show "view seated_sup ''a1'' = Some seated" by code_simp
qed

lemma bind_workspace_sticky_witness:
  "let r = phronesis_supervisor_bind (Some seated_sup) (Some ''a1'') None (Some ''/other'') 0 demo_world
   in fst r = ERR_EXISTS \<and> view (the (fst (snd r))) = view seated_sup"
proof -
  obtain r s' w' where "bind_body (Some ''a1'') None (Some ''/other'') 0 seated_sup demo_world = (r, s', w')"
    by (metis prod.collapse)
  then have b: "phronesis_supervisor_bind (Some seated_sup) (Some ''a1'') None (Some ''/other'') 0 demo_world = (r, Some s', w')"
    by (simp add: phronesis_supervisor_bind_def with_sup_def)
  have run: "slot_state (fst (reap_slot seated demo_world)) = AGENT_RUNNING" "slot_workspace seated \<noteq> []" by code_simp+
  have "fst (phronesis_supervisor_bind (Some seated_sup) (Some ''a1'') None (Some ''/other'') 0 demo_world) = ERR_EXISTS"
    by code_simp
  then show ?thesis using bind_workspace_sticky [OF seated_sup_ok run(2) b] run(1) b by simp
qed

text \<open>C27: What a successful start leaves. When \<open>phronesis_supervisor_start\<close> returns OK, the host has answered its fork
  with a pid, and the agent's slot is running under that very pid as leader of its own process group, with the given mode (or develop) and
  exactly the given workspace. The slot it found was reaped before; where the kernel does nothing to the processes
  when a cgroup is written, the process table afterwards is the table at the fork with the new living child, in its own group, at the end. No
  other agent's slot changed, and an agent that is still running is refused.\<close>

theorem start_correct:
  assumes ok: "sup_ok s"
    and st: "phronesis_supervisor_start (Some s) (Some k) mode workspace argv w = (r, Some s', w')"
  shows "only_agent k s s'
    \<and> (r = OK \<longrightarrow> (\<exists>pid a. view s' k = Some a \<and> fresh_run mode workspace pid a
         \<and> w_fork w (w_procs (fork_point s k w)) = Some pid
         \<and> (cgroups_inert w \<longrightarrow> w_procs w' = w_procs (fork_point s k w)
              @ [\<lparr>p_pid = pid, p_pgid = pid, p_child = True, p_perm = True, p_stat = Alive\<rparr>])))
    \<and> (\<forall>b. view s k = Some b \<longrightarrow> slot_state (fst (reap_slot b w)) = AGENT_RUNNING \<longrightarrow> r = ERR_EXISTS \<or> r = ERR_INVAL)"
proof -
  have sb: "start_body (Some k) mode workspace argv s w = (r, s', w')" using st by (simp add: sup_ops)
  have "r = ERR_EXISTS \<or> r = ERR_INVAL" if v: "view s k = Some b" and run: "slot_state (fst (reap_slot b w)) = AGENT_RUNNING" for b
  proof -
    obtain i where ld: "load_agent s k w = (Inr i, s)" and i: "agents s ! i = b" using load_hit [OF ok v] by blast
    obtain a w1 where rp: "reap_slot b w = (a, w1)" by fastforce
    show ?thesis using sb run by (auto simp: start_body_def ld i rp split: if_splits)
  qed
  then show ?thesis using start_effect [OF ok sb] by (simp add: or_empty_def forked_def)
qed

text \<open>The host of the witness answers 42 to the first fork.\<close>

lemma start_correct_witness:
  "let r = phronesis_supervisor_start (Some demo_sup) (Some ''a1'') None (Some ''/w'') (Some [''sh'']) (snd demo_open)
   in fst r = OK \<and> (\<exists>a. view (the (fst (snd r))) ''a1'' = Some a \<and> fresh_run None (Some ''/w'') 42 a)
      \<and> w_procs (snd (snd r)) = [\<lparr>p_pid = 42, p_pgid = 42, p_child = True, p_perm = True, p_stat = Alive\<rparr>]"
proof -
  obtain r s' w' where "start_body (Some ''a1'') None (Some ''/w'') (Some [''sh'']) demo_sup (snd demo_open) = (r, s', w')"
    by (metis prod.collapse)
  then have b: "phronesis_supervisor_start (Some demo_sup) (Some ''a1'') None (Some ''/w'') (Some [''sh'']) (snd demo_open) = (r, Some s', w')"
    by (simp add: phronesis_supervisor_start_def with_sup_def)
  have r: "fst (phronesis_supervisor_start (Some demo_sup) (Some ''a1'') None (Some ''/w'') (Some [''sh'']) (snd demo_open)) = OK"
    by code_simp
  have ok: "sup_ok demo_sup" using open_sup_ok(1) demo_open_ok unfolding demo_open_def by blast
  have fo: "fs_only demo_world (snd demo_open)" using open_fs_only [OF demo_open_ok [unfolded demo_open_def]] by (simp add: demo_open_def)
  have p: "w_procs (fork_point demo_sup ''a1'' (snd demo_open)) = []" by code_simp
  have f: "w_fork (snd demo_open) [] = Some 42" and c: "cgroups_inert (snd demo_open)"
    using fs_only_sel(8,11) [OF fo] by (simp_all add: cgroups_inert_def demo_world_def fresh_world_def)
  show ?thesis using start_correct [OF ok b] b r p f c by auto
qed

text \<open>C7: Killing a process tree ends it. For a group above 1 whose members are the supervisor's own
  children, and a host where no process joins the group and no dead one comes back during a sleep,
  \<open>kill_tree\<close> returns OK with no process of the group left, not even a zombie, after sending SIGTERM
  to the group and at most one SIGKILL to the same group and nothing else; a group number of 1 or
  less is refused without any signal.\<close>

theorem kill_tree_correct:
  "(g \<le> 1 \<longrightarrow> kill_tree g w = (ERR_INVAL, w))
   \<and> (1 < g \<longrightarrow> fst (kill_tree g w) = OK
        \<and> (w_sent (snd (kill_tree g w)) = w_sent w @ [(- g, SIGTERM)]
           \<or> w_sent (snd (kill_tree g w)) = w_sent w @ [(- g, SIGTERM), (- g, SIGKILL)])
        \<and> (tick_orderly g (w_tick w) \<and> member_ok g (w_procs w) \<longrightarrow> group_gone g (snd (kill_tree g w))))"
  using kill_tree_refused [of g w] kill_tree_sent [of g w] kill_tree_gone [of g w]
  by (auto simp: kill_tree_def Let_def)

text \<open>A group of two children, one of which ignores SIGTERM.\<close>

definition tree_world :: world where
  "tree_world = fresh_world\<lparr>
     w_procs := [\<lparr>p_pid = 5, p_pgid = 5, p_child = True, p_perm = True, p_stat = Alive\<rparr>,
                 \<lparr>p_pid = 6, p_pgid = 5, p_child = True, p_perm = True, p_stat = Alive\<rparr>],
     w_on_term := (\<lambda>p. if p_pid p = 6 then Alive else Zombie 15)\<rparr>"

lemma kill_tree_correct_witness: "fst (kill_tree 5 tree_world) = OK \<and> group_gone 5 (snd (kill_tree 5 tree_world))"
proof -
  have "tick_orderly 5 (w_tick tree_world)" by (auto simp: tick_orderly_def tree_world_def fresh_world_def)
  moreover have "member_ok 5 (w_procs tree_world)" by (simp add: member_ok_def tree_world_def)
  ultimately show ?thesis using kill_tree_correct [of 5 tree_world] by simp
qed

lemma log_event_frame: "w_sent (log_event s a k d w) = w_sent w \<and> w_procs (log_event s a k d w) = w_procs w"
proof -
  have o: "w_sent v = w_sent w \<and> w_procs v = w_procs w" if "fopen_wa t p w = (b, v)" for t p b v
    using that fs_only_ops(5) [of w t p] by (simp add: fs_only_sel)
  have p: "w_sent v = w_sent u \<and> w_procs v = w_procs u" if "fput q x u = (b, v)" for q x b u v
    using fput_fs_only [OF that] by (simp add: fs_only_sel)
  show ?thesis unfolding log_event_def phronesis_action_log_append_def
    using o p by (simp split: option.split prod.split bool.split put_result.split)
qed

lemma write_slot_frame: "w_sent (snd (write_slot s a w)) = w_sent w \<and> w_procs (snd (write_slot s a w)) = w_procs w"
  using fs_only_sel [OF write_slot_fs_only [of w s a]] by simp

text \<open>C26: Stop is safe and idempotent. When \<open>phronesis_supervisor_stop\<close> returns OK, the agent's slot is no
  longer running and no other slot changed. It signals nothing but the process group recorded for
  that agent, and only when that group is above 1; stopping an agent whose slot is not running sends
  no signal at all.\<close>

theorem stop_correct:
  assumes ok: "sup_ok s" and v: "view s k = Some b"
    and st: "phronesis_supervisor_stop (Some s) (Some k) w = (r, Some s', w')"
  shows "r = OK \<and> only_agent k s s' \<and> (\<exists>a. view s' k = Some a \<and> slot_state a \<noteq> AGENT_RUNNING)
    \<and> (\<exists>sent g. w_sent w' = w_sent w @ sent \<and> (\<forall>(t, sg) \<in> set sent. t = - g \<and> 1 < g)
         \<and> g = (if slot_pgid b > 0 then slot_pgid b else slot_pid b)
         \<and> (slot_state b \<noteq> AGENT_RUNNING \<longrightarrow> sent = []))"
proof -
  have sb: "stop_body (Some k) s w = (r, s', w')" using st by (simp add: sup_ops)
  have k: "valid_id (Some k)" using view_SomeD [OF ok v] by (auto simp: slot_ok_def)
  obtain i where ld: "load_agent s k w = (Inr i, s)" and i: "agents s ! i = b" using load_hit [OF ok v] by blast
  obtain a w1 where rp: "reap_slot b w = (a, w1)" by fastforce
  have w1: "w_sent w1 = w_sent w" using reap_slot_frame [OF rp] by simp
  let ?g = "if slot_pgid a > 0 then slot_pgid a else slot_pid a"
  have r: "r = OK" using sb k by (auto simp: stop_body_def ld i rp Let_def stop_group_def split: if_splits prod.splits)
  have "\<exists>sent. w_sent w' = w_sent w @ sent \<and> (\<forall>(t, sg) \<in> set sent. t = - ?g \<and> 1 < ?g) \<and> (slot_state a \<noteq> AGENT_RUNNING \<longrightarrow> sent = [])"
  proof (cases "slot_state a = AGENT_RUNNING \<and> 1 < ?g")
    case False
    then have "w_sent w' = w_sent w"
      using sb k w1 by (auto simp: stop_body_def ld i rp Let_def log_event_frame write_slot_frame split: if_splits)
    then show ?thesis by (intro exI [of _ "[]"]) simp
  next
    case True
    then have sg: "stop_group i k a ?g s w1 = (r, s', w')"
      using sb k by (auto simp: stop_body_def ld i rp Let_def split: if_splits)
    obtain r2 w2 where c: "(if cgroup_path a \<noteq> [] then phronesis_cgroup_kill (cgroup_path a) w1 else (ERR_STATE, w1)) = (r2, w2)"
      by fastforce
    have w2: "w_sent w2 = w_sent w" using c w1 cgroup_kill_frame [of w1 "cgroup_path a"] by (auto split: if_splits)
    have "w_sent w' = w_sent (snd (kill_tree ?g w2))"
      using sg fs_only_sel(4) [OF cgroup_remove_fs_only] unfolding stop_group_def c
      by (auto simp: Let_def log_event_frame write_slot_frame)
    then have "w_sent w' \<in> {w_sent w @ [(- ?g, SIGTERM)], w_sent w @ [(- ?g, SIGTERM), (- ?g, SIGKILL)]}"
      using kill_tree_sent [of ?g w2] w2 True by simp
    then show ?thesis using True by auto
  qed
  moreover have "?g = (if slot_pgid b > 0 then slot_pgid b else slot_pid b)" "slot_state b \<noteq> AGENT_RUNNING \<longrightarrow> slot_state a \<noteq> AGENT_RUNNING"
    if "slot_state a = AGENT_RUNNING \<or> slot_state b \<noteq> AGENT_RUNNING"
    using that reap_slot_running [OF rp] rp by (auto simp: reap_slot_def)
  ultimately show ?thesis
    using stop_effect [OF ok sb] r by (cases "slot_state a = AGENT_RUNNING \<or> slot_state b \<noteq> AGENT_RUNNING") (auto simp: or_empty_def)
qed

lemma stop_correct_witness:
  "let r = phronesis_supervisor_stop (Some seated_sup) (Some ''a1'') demo_world
   in fst r = OK \<and> (\<exists>a. view (the (fst (snd r))) ''a1'' = Some a \<and> slot_state a \<noteq> AGENT_RUNNING)"
proof -
  obtain r s' w' where "stop_body (Some ''a1'') seated_sup demo_world = (r, s', w')" by (metis prod.collapse)
  then have b: "phronesis_supervisor_stop (Some seated_sup) (Some ''a1'') demo_world = (r, Some s', w')"
    by (simp add: phronesis_supervisor_stop_def with_sup_def)
  show ?thesis using stop_correct [OF seated_sup_ok b] b by simp
qed

lemma policy_check_allow_law:
  assumes ok: "sup_ok s"
    and pc: "phronesis_policy_check (Some s) aid tool act path w = (Inr out, Some s', w')"
    and allow: "pr_decision out = ALLOW"
  shows "\<not> phronesis_policy_deny_all (w_env w)
    \<and> (if tool = Some ''seat'' \<or> tool = Some ''model''
       then \<exists>s1 w1 a. phronesis_policy_require_running_agent (Some s) aid w = (None, Some s1, w1)
              \<and> view s1 (or_empty aid) = Some a \<and> slot_state a = AGENT_RUNNING
       else \<exists>a. view s' (or_empty aid) = Some a \<and> path_under_workspace (Some (slot_workspace a)) path \<and> \<not> path_is_sensitive path)"
proof -
  let ?id = "\<not> phronesis_policy_deny_all (w_env w) \<and> (tool = Some ''seat'' \<or> tool = Some ''model'')"
  obtain c so1 w1 where g: "(if ?id then phronesis_policy_require_running_agent (Some s) aid w else (None, Some s, w)) = (c, so1, w1)"
    by (metis prod.collapse)
  have c: "c = None" using pc allow unfolding phronesis_policy_check_def option.case g by (cases c) auto
  obtain s1 where s1: "so1 = Some s1" "sup_ok s1" "?id \<longrightarrow> (\<exists>a. view s1 (or_empty aid) = Some a \<and> slot_state a = AGENT_RUNNING)"
  proof (cases ?id)
    case True
    then have "phronesis_policy_require_running_agent (Some s) aid w = (c, so1, w1)" using g by simp
    from require_running_effect [OF ok this] show ?thesis using that c by (auto simp: only_agent_def)
  next
    case False
    then show ?thesis using g that [of s] ok by (auto split: if_splits)
  qed
  have e: "policy_check_eval aid tool act path s1 w1 = (Inr out, s', w')"
    using pc s1(1) c unfolding phronesis_policy_check_def option.case g by (auto split: prod.splits)
  obtain ws where ev: "out = phronesis_policy_eval (w_env w1) ws tool act path"
    and ws: "\<forall>root. ws = Some root \<longrightarrow> (\<exists>a. view s' (or_empty aid) = Some a \<and> slot_workspace a = root)"
    using policy_check_eval_effect [OF s1(2) e] by blast
  have env: "w_env w1 = w_env w" if "\<not> ?id" using g that by (auto split: if_splits)
  have al: "\<not> phronesis_policy_deny_all (w_env w1)"
      "tool = Some ''seat'' \<or> tool = Some ''model'' \<or> path_under_workspace ws path \<and> \<not> path_is_sensitive path"
    using allow unfolding ev allow_table by blast+
  show ?thesis
  proof (cases "tool = Some ''seat'' \<or> tool = Some ''model''")
    case True
    then have i: ?id using al(1) env by metis
    then have "phronesis_policy_require_running_agent (Some s) aid w = (None, Some s1, w1)" using g c s1(1) by simp
    then show ?thesis using True i s1(3) by auto
  next
    case False
    then have u: "path_under_workspace ws path" "\<not> path_is_sensitive path" using al(2) by blast+
    then obtain root where root: "ws = Some root" by (auto simp: path_under_workspace_def split: option.splits)
    then obtain a where a: "view s' (or_empty aid) = Some a" "slot_workspace a = root" using ws by blast
    have "\<not> phronesis_policy_deny_all (w_env w)" using False al(1) env by metis
    then show ?thesis using False u root a by auto
  qed
qed

text \<open>C9: An allow from \<open>phronesis_policy_check\<close> is always backed by the supervisor's own records. Outside
  lockdown only; for the seat and model tools the agent was found running by the identity check; for
  every other tool the agent's slot names a workspace and the path lies inside it and is not
  credential material.\<close>

theorem policy_check_allow:
  assumes ok: "sup_ok s"
    and pc: "phronesis_policy_check (Some s) aid tool act path w = (Inr out, Some s', w')"
    and allow: "pr_decision out = ALLOW"
  shows "\<not> phronesis_policy_deny_all (w_env w)
    \<and> (if tool = Some ''seat'' \<or> tool = Some ''model''
       then \<exists>s1 w1 a. phronesis_policy_require_running_agent (Some s) aid w = (None, Some s1, w1)
              \<and> view s1 (or_empty aid) = Some a \<and> slot_state a = AGENT_RUNNING
       else \<exists>a. view s' (or_empty aid) = Some a \<and> path_under_workspace (Some (slot_workspace a)) path \<and> \<not> path_is_sensitive path)"
  by (rule policy_check_allow_law [OF ok pc allow])

lemma policy_check_allow_witness:
  "\<exists>a. view (the (fst (snd (phronesis_policy_check (Some seated_sup) (Some ''a1'') (Some ''fs'') (Some ''read'') (Some ''/w/x'') demo_world)))) ''a1''
     = Some a \<and> path_under_workspace (Some (slot_workspace a)) (Some ''/w/x'')"
proof -
  let ?c = "phronesis_policy_check (Some seated_sup) (Some ''a1'') (Some ''fs'') (Some ''read'') (Some ''/w/x'') demo_world"
  have r: "fst ?c = Inr (phronesis_policy_result_set ALLOW PATH_UNDER_WORKSPACE_ALLOW)" by code_simp
  obtain q so' w' where c: "?c = (q, so', w')" by (metis prod.collapse)
  obtain s' where s': "so' = Some s'" using policy_check_effect [OF seated_sup_ok(1) c] by blast
  have c': "?c = (Inr (phronesis_policy_result_set ALLOW PATH_UNDER_WORKSPACE_ALLOW), Some s', w')" using c s' r by simp
  show ?thesis using policy_check_allow [OF seated_sup_ok(1) c'] c' by (auto simp: or_empty_def)
qed

end
