(* ===== verification/Beneath.thy ===== *)
theory Beneath
  imports Host
begin

text \<open>
  src/beneath.c: opening a path only below an already open root directory, which the pack loader
  uses for every byte it reads. The walk component by component is the fallback for kernels without
  \<open>openat2\<close>; the system call itself is the host's (\<open>w_openat2\<close>). The lemmas relate the two lexical
  loops to path components, and the walk to the nodes it passes.
\<close>

section \<open>The code\<close>

text \<open>The loop of \<open>has_dotdot\<close>: \<open>start\<close> says that the byte is the first one or follows a slash.\<close>

fun dotdot_loop :: "bool \<Rightarrow> string \<Rightarrow> bool" where
  "dotdot_loop start [] = False"
| "dotdot_loop start (x # xs) =
     (if x = dot \<and> cstr_at xs 0 = dot \<and> (cstr_at xs 1 = slash \<or> cstr_at xs 1 = NUL) \<and> start then True
      else dotdot_loop (x = slash) xs)"

definition has_dotdot :: "cstring_opt \<Rightarrow> bool" where
  "has_dotdot p = (case p of None \<Rightarrow> True | Some s \<Rightarrow> dotdot_loop True s)"

fun fs_root_loop :: "string \<Rightarrow> bool" where
  "fs_root_loop [] = True"
| "fs_root_loop (x # xs) =
     (if x = slash then fs_root_loop xs
      else if x = dot \<and> (cstr_at xs 0 = slash \<or> cstr_at xs 0 = NUL) then fs_root_loop xs
      else False)"

definition is_fs_root :: "cstring_opt \<Rightarrow> bool" where
  "is_fs_root root =
     (case root of
        None \<Rightarrow> False
      | Some r \<Rightarrow> if cstr_at r 0 \<noteq> slash then False else fs_root_loop r)"

definition bad_root :: "cstring_opt \<Rightarrow> bool" where
  "bad_root root =
     (case root of
        None \<Rightarrow> True
      | Some r \<Rightarrow> if cstr_at r 0 \<noteq> slash \<or> is_fs_root root then True else has_dotdot root)"

definition phronesis_beneath_dir :: "world \<Rightarrow> cstring_opt \<Rightarrow> string list option" where
  "phronesis_beneath_dir w root =
     (if bad_root root then None
      else if w_fault w IoOpen (the root) then None
      else (case w_fs w (w_canon w (the root)) of Some (Dir _) \<Rightarrow> Some (w_canon w (the root)) | _ \<Rightarrow> None))"

definition phronesis_beneath_rel :: "cstring_opt \<Rightarrow> cstring_opt \<Rightarrow> nat \<Rightarrow> string option" where
  "phronesis_beneath_rel root path n =
     (case (root, path) of
        (Some r, Some p) \<Rightarrow>
          if n = 0 then None
          else if cstr_at p 0 \<noteq> slash then
            (if p = [] \<or> has_dotdot path \<or> length p \<ge> n then None else Some p)
          else if bad_root root then None
          else
            let rl = trim_len 1 r (length r)
            in if \<not> strncmp_eq p r rl then None
               else if cstr_at p rl = NUL then (if n < 2 then None else Some ''.'')
               else if cstr_at p rl \<noteq> slash then None
               else
                 let rest = drop (rl + 1) p
                 in if length rest \<ge> n then None
                    else if has_dotdot (Some rest) then None
                    else Some rest
      | _ \<Rightarrow> None)"

text \<open>\<open>openat\<close> with \<open>O_NOFOLLOW\<close>, and with \<open>O_DIRECTORY\<close> when \<open>dir\<close>; \<open>dup_fd\<close> is
  \<open>fcntl(fd, F_DUPFD_CLOEXEC)\<close>.\<close>

definition openat :: "world \<Rightarrow> string list \<Rightarrow> string \<Rightarrow> bool \<Rightarrow> string list option" where
  "openat w fd name dir =
     (let k = fd @ [name]
      in if w_fault w IoOpen (render k) then None
         else (case w_fs w k of
                 Some (Dir _) \<Rightarrow> Some k
               | Some (Reg _) \<Rightarrow> if dir then None else Some k
               | _ \<Rightarrow> None))"

definition dup_fd :: "world \<Rightarrow> string list \<Rightarrow> string list option" where
  "dup_fd w fd = (if w_fault w IoOpen (render fd) then None else Some fd)"

fun walk_toks :: "world \<Rightarrow> string list \<Rightarrow> string list \<Rightarrow> string list option" where
  "walk_toks w cur [] = Some cur"
| "walk_toks w cur (tok # nxt) =
     (if tok \<noteq> [] \<and> tok \<noteq> ''.'' then
        (if tok = ''..'' then None
         else (case openat w cur tok (nxt \<noteq> []) of None \<Rightarrow> None | Some next \<Rightarrow> walk_toks w next nxt))
      else walk_toks w cur nxt)"

definition walk_open :: "world \<Rightarrow> string list \<Rightarrow> string \<Rightarrow> string list option" where
  "walk_open w rootfd rel =
     (if rel = [] \<or> length rel \<ge> PHRONESIS_PATH_MAX then None
      else if rel = ''.'' then dup_fd w rootfd
      else (case dup_fd w rootfd of None \<Rightarrow> None | Some cur \<Rightarrow> walk_toks w cur (strtok slash rel)))"

definition phronesis_beneath_open :: "world \<Rightarrow> string list option \<Rightarrow> cstring_opt \<Rightarrow> string list option" where
  "phronesis_beneath_open w rootfd rel =
     (if rootfd = None \<or> \<not> nonempty rel \<or> cstr_at (the rel) 0 = slash then None
      else
        (case w_openat2 w (the rootfd) (the rel) of
           Inr fd \<Rightarrow> Some fd
         | Inl e \<Rightarrow> if e \<noteq> ENOSYS then None else walk_open w (the rootfd) (the rel)))"

section \<open>The loops and path components\<close>

lemma strtok_aux_split:
  "slash \<notin> set cur \<Longrightarrow> strtok_aux slash cur s = filter (\<lambda>c. c \<noteq> []) (split_on slash (rev cur @ s))"
proof (induction s arbitrary: cur)
  case Nil
  then show ?case by (simp add: split_on_single)
next
  case (Cons x s)
  show ?case
  proof (cases "x = slash")
    case True
    have "slash \<notin> set (rev cur)" using Cons.prems by simp
    then show ?thesis using True Cons.IH [of "[]"] by (simp add: split_on_append)
  next
    case False
    then show ?thesis using Cons.IH [of "x # cur"] Cons.prems by simp
  qed
qed

lemma strtok_path_comps: "strtok slash s = path_comps s"
  by (simp add: strtok_def path_comps_def strtok_aux_split)

lemma split_head_dotdot:
  assumes "NUL \<notin> set s" "split_on slash s = d # ds"
  shows "d = ''..'' \<longleftrightarrow> cstr_at s 0 = dot \<and> cstr_at s 1 = dot \<and> (cstr_at s 2 = slash \<or> cstr_at s 2 = NUL)"
    and "d = ''.'' \<longleftrightarrow> cstr_at s 0 = dot \<and> (cstr_at s 1 = slash \<or> cstr_at s 1 = NUL)"
proof -
  consider "s = []" | a where "s = [a]" | a b where "s = [a, b]" | a b c r where "s = a # b # c # r"
    by (metis list.exhaust)
  then have "(d = ''..'' \<longleftrightarrow> cstr_at s 0 = dot \<and> cstr_at s 1 = dot \<and> (cstr_at s 2 = slash \<or> cstr_at s 2 = NUL))
    \<and> (d = ''.'' \<longleftrightarrow> cstr_at s 0 = dot \<and> (cstr_at s 1 = slash \<or> cstr_at s 1 = NUL))"
    using assms by cases (auto split: list.splits if_splits)
  then show "d = ''..'' \<longleftrightarrow> cstr_at s 0 = dot \<and> cstr_at s 1 = dot \<and> (cstr_at s 2 = slash \<or> cstr_at s 2 = NUL)"
    and "d = ''.'' \<longleftrightarrow> cstr_at s 0 = dot \<and> (cstr_at s 1 = slash \<or> cstr_at s 1 = NUL)" by blast+
qed

lemma dotdot_loop_iff:
  "NUL \<notin> set s \<Longrightarrow> dotdot_loop b s \<longleftrightarrow> ''..'' \<in> set (if b then split_on slash s else tl (split_on slash s))"
proof (induction s arbitrary: b)
  case Nil
  then show ?case by simp
next
  case (Cons x s)
  obtain d ds where sp: "split_on slash s = d # ds" by (cases "split_on slash s") auto
  obtain e es where sx: "split_on slash (x # s) = e # es" by (metis list.exhaust split_on_not_Nil)
  have n: "NUL \<notin> set s" using Cons.prems by simp
  have es: "es = (if x = slash then d # ds else ds)" using sp sx by (auto split: if_splits)
  have h: "e = ''..'' \<longleftrightarrow> x = dot \<and> cstr_at s 0 = dot \<and> (cstr_at s 1 = slash \<or> cstr_at s 1 = NUL)"
    using split_head_dotdot(1) [OF Cons.prems sx] by (simp add: numeral_2_eq_2)
  show ?case
    using Cons.IH [OF n, of "x = slash"] sp sx es h by (auto split: if_splits)
qed

lemma has_dotdot_iff: "NUL \<notin> set s \<Longrightarrow> has_dotdot (Some s) \<longleftrightarrow> ''..'' \<in> set (path_comps s)"
  by (simp add: has_dotdot_def dotdot_loop_iff path_comps_def)

lemma split_head_empty:
  assumes "NUL \<notin> set s" "split_on slash s = d # ds"
  shows "d = [] \<longleftrightarrow> cstr_at s 0 = slash \<or> cstr_at s 0 = NUL"
  using assms by (cases s) (auto split: list.splits if_splits)

lemma fs_root_loop_iff: "NUL \<notin> set s \<Longrightarrow> fs_root_loop s \<longleftrightarrow> set (split_on slash s) \<subseteq> {[], ''.''}"
proof (induction s)
  case Nil
  then show ?case by simp
next
  case (Cons x s)
  obtain d ds where sp: "split_on slash s = d # ds" by (cases "split_on slash s") auto
  have n: "NUL \<notin> set s" using Cons.prems by simp
  show ?case using Cons.IH [OF n] sp split_head_empty [OF n sp] by auto
qed

lemma is_fs_root_iff:
  "NUL \<notin> set s \<Longrightarrow> is_fs_root (Some s) \<longleftrightarrow> cstr_at s 0 = slash \<and> set (path_comps s) \<subseteq> {''.''}"
  by (auto simp: is_fs_root_def fs_root_loop_iff path_comps_def)

text \<open>What a root accepted by \<open>bad_root\<close> looks like: absolute, some component other than a dot, and no
  dot-dot.\<close>

lemma bad_root_iff:
  "NUL \<notin> set r \<Longrightarrow> \<not> bad_root (Some r) \<longleftrightarrow>
     cstr_at r 0 = slash \<and> (\<exists>c \<in> set (path_comps r). c \<noteq> ''.'') \<and> ''..'' \<notin> set (path_comps r)"
  by (auto simp: bad_root_def is_fs_root_iff has_dotdot_iff)

section \<open>The relative part\<close>

text \<open>An absolute path is accepted only below the root, with the remaining components.\<close>

lemma beneath_rel_abs:
  assumes p: "NUL \<notin> set p" "cstr_at p 0 = slash" and rel: "phronesis_beneath_rel (Some r) (Some p) n = Some rel"
  shows "rel = ''.'' \<and> path_comps p = path_comps r \<or> path_comps p = path_comps r @ path_comps rel"
    and "''..'' \<notin> set (path_comps rel)" "length rel < n"
proof -
  let ?rl = "trim_len 1 r (length r)"
  have c: "strncmp_eq p r ?rl" "\<not> bad_root (Some r)" "cstr_at p ?rl = NUL \<or> cstr_at p ?rl = slash"
    using rel p by (auto simp: phronesis_beneath_rel_def Let_def split: if_splits)
  then obtain rest where rest: "p = trim_root 1 r @ rest" "rest = [] \<or> hd rest = slash"
    using boundary_iff [OF p(1), of r 1] by blast
  have len: "length (trim_root 1 r) = ?rl" by (rule length_trim_root)
  show "rel = ''.'' \<and> path_comps p = path_comps r \<or> path_comps p = path_comps r @ path_comps rel"
    and "''..'' \<notin> set (path_comps rel)" "length rel < n"
  proof (atomize (full), cases rest)
    case Nil
    then have "cstr_at p ?rl = NUL" using rest len by (simp add: cstr_at_def)
    then have "rel = ''.''" "2 \<le> n" using rel p c by (auto simp: phronesis_beneath_rel_def Let_def split: if_splits)
    moreover have "path_comps p = path_comps r" using rest Nil path_comps_trim_root by simp
    moreover have "path_comps ''.'' = [''.'']" by (simp add: path_comps_def)
    ultimately show "(rel = ''.'' \<and> path_comps p = path_comps r \<or> path_comps p = path_comps r @ path_comps rel)
        \<and> ''..'' \<notin> set (path_comps rel) \<and> length rel < n"
      by simp
  next
    case (Cons x xs)
    then have x: "p = trim_root 1 r @ slash # xs" using rest by simp
    then have at: "cstr_at p ?rl = slash" "drop (?rl + 1) p = xs" using len by (simp_all add: cstr_at_append flip: len)
    then have r: "rel = xs" "length xs < n" "\<not> has_dotdot (Some xs)"
      using rel p c by (auto simp: phronesis_beneath_rel_def Let_def split: if_splits)
    have "NUL \<notin> set xs" using p(1) x by simp
    then show "(rel = ''.'' \<and> path_comps p = path_comps r \<or> path_comps p = path_comps r @ path_comps rel)
        \<and> ''..'' \<notin> set (path_comps rel) \<and> length rel < n"
      using r x by (simp add: path_comps_append_slash has_dotdot_iff)
  qed
qed

section \<open>The walk\<close>

text \<open>A node reached without following a link: every step from \<open>fd\<close> down to it is a directory or, at
  the end, a regular file.\<close>

definition reached :: "world \<Rightarrow> string list \<Rightarrow> string list \<Rightarrow> bool" where
  "reached w fd k \<longleftrightarrow>
     prefix fd k \<and> (\<forall>i. length fd < i \<and> i \<le> length k \<longrightarrow>
       (case w_fs w (take i k) of Some (Dir _) \<Rightarrow> True | Some (Reg _) \<Rightarrow> i = length k | _ \<Rightarrow> False))"

lemma reached_refl: "reached w fd fd"
  by (auto simp: reached_def)

lemma reached_step:
  assumes "reached w fd cur" "openat w cur t dir = Some nx" "cur = fd \<or> (\<exists>m. w_fs w cur = Some (Dir m))"
  shows "reached w fd nx \<and> nx = cur @ [t] \<and> (dir \<longrightarrow> (\<exists>m. w_fs w nx = Some (Dir m)))"
proof -
  have nx: "nx = cur @ [t]" and n: "case w_fs w nx of Some (Dir _) \<Rightarrow> True | Some (Reg _) \<Rightarrow> \<not> dir | _ \<Rightarrow> False"
    using assms(2) by (auto simp: openat_def Let_def split: if_splits option.splits node.splits)
  have "case w_fs w (take i nx) of Some (Dir _) \<Rightarrow> True | Some (Reg _) \<Rightarrow> i = length nx | _ \<Rightarrow> False"
    if i: "length fd < i" "i \<le> length nx" for i
  proof (cases "i \<le> length cur")
    case True
    then have t: "take i nx = take i cur" using nx by simp
    show ?thesis
    proof (cases "i = length cur")
      case e: True
      then show ?thesis using assms(3) i(1) t by auto
    next
      case False
      then show ?thesis using assms(1) i(1) True t by (auto simp: reached_def split: option.splits node.splits)
    qed
  next
    case False
    then have "i = length nx" using i nx by simp
    then show ?thesis using n by (auto split: option.splits node.splits)
  qed
  moreover have "prefix fd nx" using assms(1) nx by (simp add: reached_def)
  ultimately have "reached w fd nx" unfolding reached_def by blast
  then show ?thesis using nx n by (auto split: option.splits node.splits)
qed

lemma walk_toks_reached:
  assumes "walk_toks w cur ts = Some k" "reached w fd cur" "ts = [] \<or> cur = fd \<or> (\<exists>m. w_fs w cur = Some (Dir m))"
    and "\<forall>t \<in> set ts. t \<noteq> []"
  shows "reached w fd k \<and> k = cur @ filter (\<lambda>t. t \<noteq> ''.'') ts \<and> ''..'' \<notin> set ts"
  using assms
proof (induction ts arbitrary: cur)
  case Nil
  then show ?case by simp
next
  case (Cons t ts)
  show ?case
  proof (cases "t = ''.''")
    case True
    then show ?thesis using Cons.IH [of cur] Cons.prems by auto
  next
    case False
    then obtain nx where nx: "openat w cur t (ts \<noteq> []) = Some nx" "walk_toks w nx ts = Some k" "t \<noteq> ''..''"
      using Cons.prems by (auto split: if_splits option.splits)
    note s = reached_step [OF Cons.prems(2) nx(1)]
    have "reached w fd nx" "nx = cur @ [t]" "ts = [] \<or> (\<exists>m. w_fs w nx = Some (Dir m))" using s Cons.prems(3) by auto
    then show ?thesis using Cons.IH [OF nx(2)] False nx(3) Cons.prems(4) by auto
  qed
qed

lemma walk_open_reached:
  assumes "walk_open w fd rel = Some k"
  shows "reached w fd k \<and> k = fd @ filter (\<lambda>t. t \<noteq> ''.'') (path_comps rel) \<and> ''..'' \<notin> set (path_comps rel)"
proof (cases "rel = ''.''")
  case True
  then show ?thesis using assms by (auto simp: walk_open_def dup_fd_def path_comps_def reached_refl split: if_splits)
next
  case False
  then have "walk_toks w fd (path_comps rel) = Some k"
    using assms by (auto simp: walk_open_def dup_fd_def strtok_path_comps split: if_splits option.splits)
  then show ?thesis using walk_toks_reached [of w fd "path_comps rel" k fd] reached_refl path_comps_mem by blast
qed

section \<open>Properties\<close>

text \<open>C25: A pack file is opened only below the pack root, and never through a link. On a kernel without
  \<open>openat2\<close>, when an absolute path is opened beneath an open root directory, the components of the
  root are a prefix of those of the path, the node opened is the root's node followed by exactly the
  remaining components (single dots dropped, no dot-dot), every step on the way is a directory and
  none is a symbolic link, and the root is not the root of the file system.\<close>

theorem beneath_open_confined:
  assumes nul: "NUL \<notin> set root" "NUL \<notin> set path" and abs: "cstr_at path 0 = slash"
    and dir: "phronesis_beneath_dir w (Some root) = Some fd"
    and rel: "phronesis_beneath_rel (Some root) (Some path) n = Some rel"
    and old: "w_openat2 w fd rel = Inl ENOSYS"
    and opn: "phronesis_beneath_open w (Some fd) (Some rel) = Some k"
  shows "prefix (path_comps root) (path_comps path)
    \<and> k = fd @ filter (\<lambda>c. c \<noteq> ''.'') (drop (length (path_comps root)) (path_comps path))
    \<and> reached w fd k \<and> ''..'' \<notin> set (path_comps path) \<and> (\<exists>c \<in> set (path_comps root). c \<noteq> ''.'')"
proof -
  have b: "\<not> bad_root (Some root)" using dir by (simp add: phronesis_beneath_dir_def split: if_splits)
  have "walk_open w fd rel = Some k" using opn old by (auto simp: phronesis_beneath_open_def split: if_splits)
  note wk = walk_open_reached [OF this]
  have dotrel: "path_comps ''.'' = [''.'']" by (simp add: path_comps_def)
  from beneath_rel_abs(1) [OF nul(2) abs rel] wk dotrel
  have "prefix (path_comps root) (path_comps path)"
    "k = fd @ filter (\<lambda>c. c \<noteq> ''.'') (drop (length (path_comps root)) (path_comps path))"
    "set (path_comps path) \<subseteq> set (path_comps root) \<union> set (path_comps rel)"
    by auto
  then show ?thesis using wk b beneath_rel_abs(2) [OF nul(2) abs rel] unfolding bad_root_iff [OF nul(1)] by auto
qed

definition pack_world :: world where
  "pack_world = fresh_world\<lparr>w_fs := (\<lambda>k. if k = [] \<or> k = [''p''] \<or> k = [''p'', ''lib''] then Some (Dir 493)
     else if k = [''p'', ''lib'', ''a.janet''] then Some (Reg ''x'')
     else if k = [''p'', ''out''] then Some (Lnk ''/etc'') else None)\<rparr>"

lemma beneath_open_confined_witness:
  "reached pack_world [''p''] [''p'', ''lib'', ''a.janet''] \<and> phronesis_beneath_open pack_world (Some [''p'']) (Some ''out'') = None"
proof -
  have f1: "phronesis_beneath_dir pack_world (Some ''/p/'') = Some [''p'']" by code_simp
  have f2: "phronesis_beneath_rel (Some ''/p/'') (Some ''/p/lib/./a.janet'') 99 = Some ''lib/./a.janet''" by code_simp
  have f3: "w_openat2 pack_world [''p''] ''lib/./a.janet'' = Inl ENOSYS" by code_simp
  have f4: "phronesis_beneath_open pack_world (Some [''p'']) (Some ''lib/./a.janet'') = Some [''p'', ''lib'', ''a.janet'']"
    by code_simp
  have "phronesis_beneath_open pack_world (Some [''p'']) (Some ''out'') = None" by code_simp
  moreover have "reached pack_world [''p''] [''p'', ''lib'', ''a.janet'']"
    by (rule beneath_open_confined [OF _ _ _ f1 f2 f3 f4, THEN conjunct2, THEN conjunct2, THEN conjunct1]) simp_all
  ultimately show ?thesis by blast
qed

end
