(* ===== verification/Packs.thy ===== *)
theory Packs
  imports Beneath Numbers Codes
begin

text \<open>
  src/policy\_janet.c, first half: which pack files may be loaded, and loading them. The Janet virtual
  machine is third-party code and a parameter (\<open>vm\<close>): its environments and functions are abstract, and
  the calls the loader makes (\<open>janet_core_env\<close>, \<open>janet_dobytes\<close>, \<open>janet_resolve\<close>, marshalling,
  \<open>janet_pcall\<close>) are fields. The static variables of the file are the record \<open>pack_host\<close>; the array of
  slots with its counter is a list. Garbage-collector roots and allocation failures are not modelled.
\<close>

unbundle bit_operations_syntax

section \<open>Data\<close>

definition SHELL_HEAD_MAX :: nat where "SHELL_HEAD_MAX = 8192"
definition SHELL_PROBE_MAX :: nat where "SHELL_PROBE_MAX = 32"
definition PACK_PATH_MAX :: nat where "PACK_PATH_MAX = 4096"
definition PACK_FILE_MAX :: nat where "PACK_FILE_MAX = 512 * 1024"
definition PACK_IMAGE_MAX :: nat where "PACK_IMAGE_MAX = 4 * 1024 * 1024"
definition PACK_LIB_MAX_FILES :: nat where "PACK_LIB_MAX_FILES = 32"
definition PACK_MAX :: nat where "PACK_MAX = 16"
definition PACK_SPEC_MAX :: nat where "PACK_SPEC_MAX = PACK_PATH_MAX * PACK_MAX"

text \<open>A Janet value, as far as the host tells values apart.\<close>

datatype 'f jval = JNil | JFun 'f | JTuple "'f jval list" | JOther

datatype pcall_result = PcallError | PcallOther | PcallBuffer bytes

record ('e, 'f) vm =
  janet_core_env :: "'e option"
  janet_register :: "'e \<Rightarrow> 'e"
  janet_table_remove :: "'e \<Rightarrow> string \<Rightarrow> 'e"
  janet_dobytes :: "'e \<Rightarrow> bytes \<Rightarrow> string \<Rightarrow> 'e option"
  janet_resolve :: "'e \<Rightarrow> string \<Rightarrow> 'f jval option"
  janet_unmarshal :: "bytes \<Rightarrow> 'f jval option"
  janet_marshal :: "'f jval \<Rightarrow> bytes option"
  janet_version :: string
  janet_pcall :: "'f \<Rightarrow> bytes \<Rightarrow> pcall_result"

record 'f pack_slot =
  shell_fn :: "'f option"
  audio_fn :: "'f option"
  pack_path :: string

record 'f pack_host =
  janet_inited :: bool
  pack_loaded :: bool
  pack_failed :: bool
  packs :: "'f pack_slot list"
  pack_rootfd :: "string list option"
  pack_root :: string
  pack_spec_buf :: string
  pack_spec_set :: bool

text \<open>The static variables as the program starts.\<close>

definition initial_host :: "'f pack_host" where
  "initial_host =
     \<lparr>janet_inited = False, pack_loaded = False, pack_failed = False, packs = [], pack_rootfd = None,
      pack_root = [], pack_spec_buf = [], pack_spec_set = False\<rparr>"

definition PHRONESIS_DEFAULT_JANET_PACK :: string where
  "PHRONESIS_DEFAULT_JANET_PACK = ''/usr/local/share/phronesis/policy/shell.janet''"

section \<open>Flags and lexical checks\<close>

definition to_lower :: "char \<Rightarrow> char" where
  "to_lower c = (if 65 \<le> (of_char c :: nat) \<and> (of_char c :: nat) \<le> 90 then char_of ((of_char c :: nat) + 32) else c)"

definition strcasecmp_eq :: "string \<Rightarrow> string \<Rightarrow> bool" where
  "strcasecmp_eq a b = (map to_lower a = map to_lower b)"

definition env_flag_on :: "env \<Rightarrow> string \<Rightarrow> bool" where
  "env_flag_on getenv name =
     (case getenv name of
        None \<Rightarrow> False
      | Some e \<Rightarrow> if e = [] then False
                  else strcasecmp_eq e ''1'' \<or> strcasecmp_eq e ''true'' \<or> strcasecmp_eq e ''yes'')"

text \<open>The same loop as \<open>is_fs_root\<close> of src/beneath.c.\<close>

definition path_is_fs_root :: "cstring_opt \<Rightarrow> bool" where
  "path_is_fs_root path =
     (case path of
        None \<Rightarrow> False
      | Some p \<Rightarrow> if cstr_at p 0 \<noteq> slash then False else fs_root_loop p)"

definition path_under_prefix :: "cstring_opt \<Rightarrow> cstring_opt \<Rightarrow> bool" where
  "path_under_prefix path pre =
     (case (path, pre) of
        (Some p, Some r) \<Rightarrow>
          if cstr_at p 0 \<noteq> slash \<or> r = [] then False
          else
            let n = trim_len 0 r (length r)
            in if n = 0 then False
               else if \<not> strncmp_eq p r n then False
               else cstr_at p n = NUL \<or> cstr_at p n = slash
      | _ \<Rightarrow> False)"

text \<open>The directory part of a path: the text before the last slash, when that is not the first byte.\<close>

definition dir_part :: "string \<Rightarrow> string option" where
  "dir_part p =
     (case strrchr p slash of
        None \<Rightarrow> None
      | Some r \<Rightarrow> let n = length p - length r in if n = 0 then None else Some (take n p))"

definition pack_under_trusted_prefix :: "env \<Rightarrow> cstring_opt \<Rightarrow> bool" where
  "pack_under_trusted_prefix getenv path =
     (if path_under_prefix path (Some ''/usr/local/share/phronesis'')
         \<or> path_under_prefix path (Some ''/usr/share/phronesis'') then True
      else if nonempty (getenv ''PHRONESIS_PREFIX'')
           \<and> snprintf_fits PACK_PATH_MAX (the (getenv ''PHRONESIS_PREFIX'') @ ''/share/phronesis'')
           \<and> path_under_prefix path (Some (the (getenv ''PHRONESIS_PREFIX'') @ ''/share/phronesis'')) then True
      else if (case dir_part PHRONESIS_DEFAULT_JANET_PACK of
                 None \<Rightarrow> False
               | Some d \<Rightarrow> length d < PACK_PATH_MAX \<and> path_under_prefix path (Some d)) then True
      else
        (case getenv ''PHRONESIS_PACK_ROOT'' of
           None \<Rightarrow> False
         | Some root \<Rightarrow> cstr_at root 0 = slash \<and> \<not> path_is_fs_root (Some root) \<and> path_under_prefix path (Some root)))"

fun slash_dotdot :: "string \<Rightarrow> bool" where
  "slash_dotdot [] = False"
| "slash_dotdot (x # xs) =
     (x = slash \<and> cstr_at xs 0 = dot \<and> cstr_at xs 1 = dot \<and> (cstr_at xs 2 = slash \<or> cstr_at xs 2 = NUL)
      \<or> slash_dotdot xs)"

definition path_has_dotdot :: "cstring_opt \<Rightarrow> bool" where
  "path_has_dotdot path =
     (case path of
        None \<Rightarrow> True
      | Some p \<Rightarrow>
          cstr_at p 0 = dot \<and> cstr_at p 1 = dot \<and> (cstr_at p 2 = slash \<or> cstr_at p 2 = NUL) \<or> slash_dotdot p)"

definition path_is_absolute_file :: "world \<Rightarrow> cstring_opt \<Rightarrow> bool" where
  "path_is_absolute_file w path =
     (if \<not> nonempty path \<or> cstr_at (the path) 0 \<noteq> slash then False
      else if length (the path) \<ge> PACK_PATH_MAX then False
      else if path_has_dotdot path then False
      else (case stat w (the path) of StatReg \<Rightarrow> True | _ \<Rightarrow> False))"

definition path_is_absolute_dir :: "world \<Rightarrow> cstring_opt \<Rightarrow> bool" where
  "path_is_absolute_dir w path =
     (if \<not> nonempty path \<or> cstr_at (the path) 0 \<noteq> slash then False
      else if length (the path) \<ge> PACK_PATH_MAX then False
      else if path_has_dotdot path then False
      else (case stat w (the path) of StatDir _ \<Rightarrow> True | _ \<Rightarrow> False))"

definition path_is_file :: "world \<Rightarrow> cstring_opt \<Rightarrow> bool" where
  "path_is_file w path =
     (if \<not> nonempty path \<or> length (the path) \<ge> PACK_PATH_MAX then False
      else if path_has_dotdot path then False
      else (case stat w (the path) of StatReg \<Rightarrow> True | _ \<Rightarrow> False))"

definition path_is_dir :: "world \<Rightarrow> cstring_opt \<Rightarrow> bool" where
  "path_is_dir w path =
     (if \<not> nonempty path \<or> length (the path) \<ge> PACK_PATH_MAX then False
      else if path_has_dotdot path then False
      else (case stat w (the path) of StatDir _ \<Rightarrow> True | _ \<Rightarrow> False))"

definition pack_reload_segment_allowed :: "world \<Rightarrow> string \<Rightarrow> bool" where
  "pack_reload_segment_allowed w path =
     (if \<not> path_is_absolute_file w (Some path) \<and> \<not> path_is_absolute_dir w (Some path) then False
      else if env_flag_on (w_env w) ''PHRONESIS_DEV_PACK'' then True
      else pack_under_trusted_prefix (w_env w) (Some path))"

definition pack_reload_spec_allowed :: "world \<Rightarrow> cstring_opt \<Rightarrow> bool" where
  "pack_reload_spec_allowed w spec =
     (if \<not> nonempty spec \<or> length (the spec) \<ge> PACK_SPEC_MAX then False
      else
        let toks = strtok CHR '':'' (the spec)
        in list_all (\<lambda>tok. tok \<noteq> [] \<and> pack_reload_segment_allowed w tok) toks \<and> toks \<noteq> [])"

text \<open>The candidates of \<open>default_pack_spec\<close> in order, and the first that is a file.\<close>

definition pack_candidates :: "env \<Rightarrow> string list" where
  "pack_candidates getenv =
     [PHRONESIS_DEFAULT_JANET_PACK] @
     (if nonempty (getenv ''PHRONESIS_PREFIX'')
         \<and> snprintf_fits PACK_PATH_MAX (the (getenv ''PHRONESIS_PREFIX'') @ ''/share/phronesis/policy/shell.janet'')
      then [the (getenv ''PHRONESIS_PREFIX'') @ ''/share/phronesis/policy/shell.janet''] else []) @
     [''/usr/local/share/phronesis/policy/shell.janet'', ''/usr/share/phronesis/policy/shell.janet''] @
     (if env_flag_on getenv ''PHRONESIS_DEV_PACK'' then [''policy/shell.janet''] else [])"

definition default_pack_spec :: "'f pack_host \<Rightarrow> world \<Rightarrow> string" where
  "default_pack_spec st w =
     (if pack_spec_set st \<and> pack_spec_buf st \<noteq> [] then pack_spec_buf st
      else if nonempty (w_env w ''PHRONESIS_JANET_PACK'')
           \<and> pack_reload_spec_allowed w (w_env w ''PHRONESIS_JANET_PACK'') then the (w_env w ''PHRONESIS_JANET_PACK'')
      else
        (case find (\<lambda>c. c \<noteq> [] \<and> path_is_file w (Some c)) (pack_candidates (w_env w)) of
           Some c \<Rightarrow> c
         | None \<Rightarrow> PHRONESIS_DEFAULT_JANET_PACK))"

definition seal_pack_env :: "('e, 'f) vm \<Rightarrow> 'e \<Rightarrow> 'e" where
  "seal_pack_env vm env =
     janet_table_remove vm (janet_table_remove vm (janet_table_remove vm env ''os'') ''net'') ''spork''"

definition unload_packs :: "'f pack_host \<Rightarrow> 'f pack_host" where
  "unload_packs st = st\<lparr>pack_loaded := False, pack_failed := False, packs := []\<rparr>"

definition phronesis_policy_pack_reset :: "'f pack_host \<Rightarrow> 'f pack_host" where
  "phronesis_policy_pack_reset st = (unload_packs st)\<lparr>pack_failed := False, pack_spec_set := False, pack_spec_buf := []\<rparr>"

section \<open>The pack root\<close>

definition default_pack_dir :: "nat \<Rightarrow> string option" where
  "default_pack_dir n =
     (case dir_part PHRONESIS_DEFAULT_JANET_PACK of
        None \<Rightarrow> None
      | Some d \<Rightarrow> if n = 0 \<or> length d + 1 > n then None else Some d)"

definition pack_root_path :: "env \<Rightarrow> nat \<Rightarrow> string option" where
  "pack_root_path getenv n =
     (let e = getenv ''PHRONESIS_PACK_ROOT''
      in if nonempty e then
           (if cstr_at (the e) 0 \<noteq> slash \<or> path_is_fs_root e \<or> path_has_dotdot e then None
            else if length (the e) \<ge> n then None
            else Some (the e))
         else default_pack_dir n)"

definition ensure_pack_root :: "world \<Rightarrow> 'f pack_host \<Rightarrow> bool \<times> 'f pack_host" where
  "ensure_pack_root w st =
     (case pack_root_path (w_env w) PACK_PATH_MAX of
        None \<Rightarrow> (False, st)
      | Some root \<Rightarrow>
          if pack_rootfd st \<noteq> None \<and> pack_root st = root then (True, st)
          else
            (case phronesis_beneath_dir w (Some root) of
               None \<Rightarrow> (False, st)
             | Some fd \<Rightarrow>
                 if \<not> snprintf_fits PACK_PATH_MAX root then (False, st\<lparr>pack_rootfd := None, pack_root := []\<rparr>)
                 else (True, st\<lparr>pack_rootfd := Some fd, pack_root := root\<rparr>)))"

text \<open>Opening a path under the pack root, as \<open>pack_on_root\<close> and \<open>read_pack_file\<close> both do.\<close>

definition open_on_root :: "world \<Rightarrow> string \<Rightarrow> 'f pack_host \<Rightarrow> string list option \<times> 'f pack_host" where
  "open_on_root w path st =
     (case ensure_pack_root w st of
        (False, st1) \<Rightarrow> (None, st1)
      | (True, st1) \<Rightarrow>
          (case phronesis_beneath_rel (Some (pack_root st1)) (Some path) PACK_PATH_MAX of
             None \<Rightarrow> (None, st1)
           | Some rel \<Rightarrow> (phronesis_beneath_open w (pack_rootfd st1) (Some rel), st1)))"

definition pack_on_root :: "world \<Rightarrow> string \<Rightarrow> 'f pack_host \<Rightarrow> bool \<times> 'f pack_host" where
  "pack_on_root w path st = (case open_on_root w path st of (fd, st1) \<Rightarrow> (fd \<noteq> None, st1))"

section \<open>Pack specs\<close>

definition append_path :: "string list \<Rightarrow> nat \<Rightarrow> string \<Rightarrow> string list option" where
  "append_path out lim path =
     (if path = [] \<or> length out \<ge> lim then None
      else if length path \<ge> PACK_PATH_MAX then None
      else Some (out @ [path]))"

text \<open>A directory entry that is taken: \<open>*.janet\<close>, at least one byte before the suffix, not hidden.\<close>

definition janet_name :: "string \<Rightarrow> bool" where
  "janet_name d = (length d \<ge> 7 \<and> drop (length d - 6) d = ''.janet'' \<and> cstr_at d 0 \<noteq> dot)"

text \<open>The \<open>readdir\<close> loop with its limit, then \<open>qsort\<close> by \<open>strcmp\<close>.\<close>

definition janet_entries :: "string list \<Rightarrow> string list" where
  "janet_entries ents = sort (take PACK_LIB_MAX_FILES (filter janet_name ents))"

fun append_names :: "string \<Rightarrow> nat \<Rightarrow> string list \<Rightarrow> string list \<Rightarrow> string list option" where
  "append_names dir lim [] out = Some out"
| "append_names dir lim (x # xs) out =
     (let path = dir @ ''/'' @ x
      in if \<not> snprintf_fits PACK_PATH_MAX path then None
         else (case append_path out lim path of None \<Rightarrow> None | Some out' \<Rightarrow> append_names dir lim xs out'))"

definition expand_dir_packs :: "world \<Rightarrow> string \<Rightarrow> string list \<Rightarrow> nat \<Rightarrow> string list option" where
  "expand_dir_packs w dir out lim =
     (case w_dir w dir of
        None \<Rightarrow> None
      | Some ents \<Rightarrow>
          let names = janet_entries ents in if names = [] then None else append_names dir lim names out)"

fun all_on_root :: "world \<Rightarrow> string list \<Rightarrow> 'f pack_host \<Rightarrow> bool \<times> 'f pack_host" where
  "all_on_root w [] st = (True, st)"
| "all_on_root w (p # ps) st =
     (case pack_on_root w p st of (False, st1) \<Rightarrow> (False, st1) | (True, st1) \<Rightarrow> all_on_root w ps st1)"

text \<open>The loop over the segments: \<open>out\<close> is the list of paths so far.\<close>

fun parse_segments ::
  "world \<Rightarrow> nat \<Rightarrow> bool \<Rightarrow> string list \<Rightarrow> string list \<Rightarrow> 'f pack_host \<Rightarrow> string list option \<times> 'f pack_host" where
  "parse_segments w lim absolute [] out st = (if out = [] then None else Some out, st)"
| "parse_segments w lim absolute (tok # toks) out st =
     (if tok = [] then parse_segments w lim absolute toks out st
      else if absolute \<and> cstr_at tok 0 \<noteq> slash then (None, st)
      else
        (case (if absolute then pack_on_root w tok st else (True, st)) of
           (False, st1) \<Rightarrow> (None, st1)
         | (True, st1) \<Rightarrow>
             if path_is_dir w (Some tok) \<or> absolute \<and> path_is_absolute_dir w (Some tok) then
               (case expand_dir_packs w tok out lim of
                  None \<Rightarrow> (None, st1)
                | Some out' \<Rightarrow>
                    (case (if absolute then all_on_root w (drop (length out) out') st1 else (True, st1)) of
                       (False, st2) \<Rightarrow> (None, st2)
                     | (True, st2) \<Rightarrow> parse_segments w lim absolute toks out' st2))
             else if (if absolute then \<not> path_is_absolute_file w (Some tok) else \<not> path_is_file w (Some tok)) then (None, st1)
             else
               (case append_path out lim tok of
                  None \<Rightarrow> (None, st1)
                | Some out' \<Rightarrow> parse_segments w lim absolute toks out' st1)))"

definition parse_pack_spec ::
  "world \<Rightarrow> cstring_opt \<Rightarrow> nat \<Rightarrow> bool \<Rightarrow> 'f pack_host \<Rightarrow> string list option \<times> 'f pack_host" where
  "parse_pack_spec w spec lim absolute st =
     (if \<not> nonempty spec \<or> lim = 0 then (None, st)
      else if length (the spec) \<ge> PACK_SPEC_MAX then (None, st)
      else parse_segments w lim absolute (strtok CHR '':'' (the spec)) [] st)"

section \<open>Reading and compiling\<close>

definition read_pack_file :: "world \<Rightarrow> string \<Rightarrow> 'f pack_host \<Rightarrow> bytes option \<times> 'f pack_host" where
  "read_pack_file w path st =
     (case open_on_root w path st of
        (None, st1) \<Rightarrow> (None, st1)
      | (Some fd, st1) \<Rightarrow>
          (case w_fs w fd of
             Some (Reg b) \<Rightarrow> (if b = [] \<or> length b > PACK_IMAGE_MAX then None else Some b, st1)
           | _ \<Rightarrow> (None, st1)))"

definition dobytes_file :: "('e, 'f) vm \<Rightarrow> world \<Rightarrow> 'e \<Rightarrow> string \<Rightarrow> 'f pack_host \<Rightarrow> 'e option \<times> 'f pack_host" where
  "dobytes_file vm w env path st =
     (case read_pack_file w path st of
        (None, st1) \<Rightarrow> (None, st1)
      | (Some buf, st1) \<Rightarrow> if length buf > PACK_FILE_MAX then (None, st1) else (janet_dobytes vm env buf path, st1))"

definition pack_lib_names :: "world \<Rightarrow> string \<Rightarrow> (string \<times> string list) option" where
  "pack_lib_names w path =
     (case dir_part path of
        None \<Rightarrow> Some ([], [])
      | Some dir \<Rightarrow>
          if length dir + 1 \<ge> PACK_PATH_MAX then None
          else if \<not> snprintf_fits PACK_PATH_MAX (dir @ ''/lib'') then None
          else
            (case w_dir w (dir @ ''/lib'') of
               None \<Rightarrow> Some (dir @ ''/lib'', [])
             | Some ents \<Rightarrow> Some (dir @ ''/lib'', janet_entries ents)))"

fun load_libs_loop ::
  "('e, 'f) vm \<Rightarrow> world \<Rightarrow> string \<Rightarrow> string list \<Rightarrow> 'e \<Rightarrow> 'f pack_host \<Rightarrow> 'e option \<times> 'f pack_host" where
  "load_libs_loop vm w libdir [] env st = (Some env, st)"
| "load_libs_loop vm w libdir (x # xs) env st =
     (let path = libdir @ ''/'' @ x
      in if \<not> snprintf_fits PACK_PATH_MAX path then (None, st)
         else
           (case dobytes_file vm w env path st of
              (None, st1) \<Rightarrow> (None, st1)
            | (Some env1, st1) \<Rightarrow> load_libs_loop vm w libdir xs env1 st1))"

definition load_pack_libs :: "('e, 'f) vm \<Rightarrow> world \<Rightarrow> 'e \<Rightarrow> string \<Rightarrow> 'f pack_host \<Rightarrow> 'e option \<times> 'f pack_host" where
  "load_pack_libs vm w env path st =
     (case pack_lib_names w path of
        None \<Rightarrow> (None, st)
      | Some (libdir, names) \<Rightarrow> load_libs_loop vm w libdir names env st)"

definition resolve_fn :: "('e, 'f) vm \<Rightarrow> 'e \<Rightarrow> string \<Rightarrow> 'f option" where
  "resolve_fn vm env name = (case janet_resolve vm env name of Some (JFun f) \<Rightarrow> Some f | _ \<Rightarrow> None)"

text \<open>The entry a file defines: bound after the file and not the same function before it.\<close>

definition new_entry :: "'f option \<Rightarrow> 'f option \<Rightarrow> 'f option" where
  "new_entry before after =
     (case after of
        None \<Rightarrow> None
      | Some f \<Rightarrow> if before = None \<or> before \<noteq> Some f then Some f else None)"

definition compile_pack ::
  "('e, 'f) vm \<Rightarrow> world \<Rightarrow> string \<Rightarrow> 'f pack_host \<Rightarrow> ('f option \<times> 'f option) option \<times> 'f pack_host" where
  "compile_pack vm w path st =
     (case janet_core_env vm of
        None \<Rightarrow> (None, st)
      | Some core \<Rightarrow>
          (case load_pack_libs vm w (seal_pack_env vm (janet_register vm core)) path st of
             (None, st1) \<Rightarrow> (None, st1)
           | (Some env, st1) \<Rightarrow>
               let shell_before = resolve_fn vm env ''shell-check''; audio_before = resolve_fn vm env ''audio-check''
               in (case dobytes_file vm w env path st1 of
                     (None, st2) \<Rightarrow> (None, st2)
                   | (Some env1, st2) \<Rightarrow>
                       (Some (new_entry shell_before (resolve_fn vm env1 ''shell-check''),
                              new_entry audio_before (resolve_fn vm env1 ''audio-check'')), st2))))"

section \<open>Pack images\<close>

definition PACK_IMAGE_MAGIC :: string where
  "PACK_IMAGE_MAGIC = ''phronesis-pack-image 1'' @ [newline]"

definition fnv1a_feed :: "64 word \<Rightarrow> bytes \<Rightarrow> 64 word" where
  "fnv1a_feed h p = fold (\<lambda>b h. (h XOR of_char b) * 0x100000001b3) p h"

definition pack_image_path :: "string \<Rightarrow> nat \<Rightarrow> string option" where
  "pack_image_path path n =
     (let len = length path
      in if len < 7 \<or> drop (len - 6) path \<noteq> ''.janet'' then None
         else if len - 6 + 8 > n then None
         else Some (take (len - 6) path @ ''.jimage''))"

text \<open>The files to hash, each with the name that goes into the hash; \<open>None\<close> when a path is too long.\<close>

definition base_name :: "string \<Rightarrow> string" where
  "base_name p = (case strrchr p slash of None \<Rightarrow> p | Some r \<Rightarrow> tl r)"

fun hash_files ::
  "world \<Rightarrow> (string \<times> string) list \<Rightarrow> 64 word \<Rightarrow> 'f pack_host \<Rightarrow> 64 word option \<times> 'f pack_host" where
  "hash_files w [] h st = (Some h, st)"
| "hash_files w ((file, name) # fs) h st =
     (if \<not> snprintf_fits PACK_PATH_MAX file then (None, st)
      else
        (case read_pack_file w file st of
           (None, st1) \<Rightarrow> (None, st1)
         | (Some buf, st1) \<Rightarrow> hash_files w fs (fnv1a_feed (fnv1a_feed h (name @ [NUL])) buf) st1))"

definition pack_source_hash :: "world \<Rightarrow> string \<Rightarrow> 'f pack_host \<Rightarrow> 64 word option \<times> 'f pack_host" where
  "pack_source_hash w path st =
     (case pack_lib_names w path of
        None \<Rightarrow> (None, st)
      | Some (libdir, names) \<Rightarrow>
          hash_files w (map (\<lambda>x. (libdir @ ''/'' @ x, x)) names @ [(path, base_name path)]) 0xcbf29ce484222325 st)"

definition pack_image_header :: "('e, 'f) vm \<Rightarrow> world \<Rightarrow> string \<Rightarrow> nat \<Rightarrow> 'f pack_host \<Rightarrow> string option \<times> 'f pack_host" where
  "pack_image_header vm w path n st =
     (case pack_source_hash w path st of
        (None, st1) \<Rightarrow> (None, st1)
      | (Some h, st1) \<Rightarrow>
          let hdr = PACK_IMAGE_MAGIC @ janet_version vm @ [newline] @ hex_fixed 16 (unat h) @ [newline]
          in (if \<not> snprintf_fits n hdr then None else Some hdr, st1))"

definition entry_of :: "'f jval \<Rightarrow> 'f option option" where
  "entry_of v = (case v of JFun f \<Rightarrow> Some (Some f) | JNil \<Rightarrow> Some None | _ \<Rightarrow> None)"

text \<open>The checks on the unmarshalled value: a pair of functions or nils, not both nil.\<close>

definition image_entries :: "'f jval option \<Rightarrow> ('f option \<times> 'f option) option" where
  "image_entries v =
     (case v of
        Some (JTuple [s, a]) \<Rightarrow>
          (case (entry_of s, entry_of a) of
             (Some sf, Some af) \<Rightarrow> if sf \<noteq> None \<or> af \<noteq> None then Some (sf, af) else None
           | _ \<Rightarrow> None)
      | _ \<Rightarrow> None)"

definition load_pack_image ::
  "('e, 'f) vm \<Rightarrow> world \<Rightarrow> string \<Rightarrow> 'f pack_host \<Rightarrow> ('f option \<times> 'f option) option \<times> 'f pack_host" where
  "load_pack_image vm w path st =
     (case pack_image_path path PACK_PATH_MAX of
        None \<Rightarrow> (None, st)
      | Some ipath \<Rightarrow>
          (case pack_on_root w ipath st of
             (False, st1) \<Rightarrow> (None, st1)
           | (True, st1) \<Rightarrow>
               (case pack_image_header vm w path 256 st1 of
                  (None, st2) \<Rightarrow> (None, st2)
                | (Some header, st2) \<Rightarrow>
                    (case read_pack_file w ipath st2 of
                       (None, st3) \<Rightarrow> (None, st3)
                     | (Some buf, st3) \<Rightarrow>
                         let hl = length header
                         in if length buf \<le> hl \<or> take hl buf \<noteq> header then (None, st3)
                            else (image_entries (janet_unmarshal vm (drop hl buf)), st3)))))"

definition jval_of :: "'f option \<Rightarrow> 'f jval" where
  "jval_of x = (case x of None \<Rightarrow> JNil | Some f \<Rightarrow> JFun f)"

definition phronesis_pack_image_write ::
  "('e, 'f) vm \<Rightarrow> string \<Rightarrow> string \<Rightarrow> world \<Rightarrow> 'f pack_host \<Rightarrow> bool \<times> world \<times> 'f pack_host" where
  "phronesis_pack_image_write vm path out_path w st =
     (case compile_pack vm w path (st\<lparr>janet_inited := True\<rparr>) of
        (None, st1) \<Rightarrow> (False, w, st1)
      | (Some (s, a), st1) \<Rightarrow>
          if s = None \<and> a = None then (False, w, st1)
          else
            (case pack_image_header vm w path 256 st1 of
               (None, st2) \<Rightarrow> (False, w, st2)
             | (Some header, st2) \<Rightarrow>
                 (case janet_marshal vm (JTuple [jval_of s, jval_of a]) of
                    None \<Rightarrow> (False, w, st2)
                  | Some b \<Rightarrow>
                      (case fopen_wa True out_path w of
                         (False, w1) \<Rightarrow> (False, w1, st2)
                       | (True, w1) \<Rightarrow>
                           (case fput out_path (header @ b) w1 of (r, w2) \<Rightarrow> (r = PutOk, w2, st2))))))"

section \<open>Loading\<close>

definition load_one_pack :: "('e, 'f) vm \<Rightarrow> world \<Rightarrow> string \<Rightarrow> 'f pack_host \<Rightarrow> bool \<times> 'f pack_host" where
  "load_one_pack vm w path st =
     (if path = [] \<or> length (packs st) \<ge> PACK_MAX then (False, st)
      else
        (case (case load_pack_image vm w path (st\<lparr>janet_inited := True\<rparr>) of
                 (Some e, st1) \<Rightarrow> (Some e, st1)
               | (None, st1) \<Rightarrow> compile_pack vm w path st1) of
           (None, st2) \<Rightarrow> (False, st2)
         | (Some (s, a), st2) \<Rightarrow>
             if s = None \<and> a = None then (True, st2)
             else if \<not> snprintf_fits PACK_PATH_MAX path then (False, st2)
             else (True, st2\<lparr>packs := packs st2 @ [\<lparr>shell_fn = s, audio_fn = a, pack_path = path\<rparr>]\<rparr>)))"

fun load_each :: "('e, 'f) vm \<Rightarrow> world \<Rightarrow> string list \<Rightarrow> 'f pack_host \<Rightarrow> bool \<times> 'f pack_host" where
  "load_each vm w [] st = (True, st)"
| "load_each vm w (p # ps) st =
     (case load_one_pack vm w p st of (False, st1) \<Rightarrow> (False, st1) | (True, st1) \<Rightarrow> load_each vm w ps st1)"

text \<open>The join of the loaded paths into \<open>pack_spec_buf\<close>, with its bound.\<close>

fun join_spec :: "string \<Rightarrow> nat \<Rightarrow> string list \<Rightarrow> string option" where
  "join_spec buf i [] = Some buf"
| "join_spec buf i (p # ps) =
     (if length buf + (length p + (if i > 0 then 1 else 0)) + 1 \<ge> PACK_SPEC_MAX then None
      else join_spec (buf @ (if i > 0 then '':'' else []) @ p) (Suc i) ps)"

datatype load_rc = LoadOk | LoadInvalid | LoadFailed

definition load_failed :: "'f pack_host \<Rightarrow> 'f pack_host" where
  "load_failed st = (unload_packs st)\<lparr>pack_failed := True\<rparr>"

definition load_packs_from_spec ::
  "('e, 'f) vm \<Rightarrow> world \<Rightarrow> cstring_opt \<Rightarrow> bool \<Rightarrow> 'f pack_host \<Rightarrow> load_rc \<times> 'f pack_host" where
  "load_packs_from_spec vm w spec absolute st =
     (if \<not> nonempty spec then (LoadInvalid, st)
      else
        (case parse_pack_spec w spec PACK_MAX absolute st of
           (None, st1) \<Rightarrow> (LoadInvalid, st1)
         | (Some paths, st1) \<Rightarrow>
             (case load_each vm w paths (unload_packs st1) of
                (False, st2) \<Rightarrow> (LoadFailed, load_failed st2)
              | (True, st2) \<Rightarrow>
                  if packs st2 = [] then (LoadFailed, load_failed st2)
                  else
                    (case join_spec [] 0 (map pack_path (packs st2)) of
                       None \<Rightarrow> (LoadFailed, load_failed st2)
                     | Some buf \<Rightarrow>
                         (LoadOk, st2\<lparr>pack_spec_buf := buf, pack_spec_set := True, pack_loaded := True, pack_failed := False\<rparr>)))))"

definition load_pack_once :: "('e, 'f) vm \<Rightarrow> world \<Rightarrow> 'f pack_host \<Rightarrow> bool \<times> 'f pack_host" where
  "load_pack_once vm w st =
     (if pack_failed st then (False, st)
      else if pack_loaded st then (True, st)
      else (case load_packs_from_spec vm w (Some (default_pack_spec st w)) False st of (r, st1) \<Rightarrow> (r = LoadOk, st1)))"

definition set_env :: "string \<Rightarrow> string \<Rightarrow> world \<Rightarrow> world" where
  "set_env name v w = w\<lparr>w_env := (w_env w)(name := Some v)\<rparr>"

definition phronesis_shell_pack_reload_internal ::
  "('e, 'f) vm \<Rightarrow> cstring_opt \<Rightarrow> world \<Rightarrow> 'f pack_host \<Rightarrow> load_rc \<times> world \<times> 'f pack_host" where
  "phronesis_shell_pack_reload_internal vm path w st =
     (if \<not> nonempty path then (LoadInvalid, w, st)
      else if \<not> pack_reload_spec_allowed w path then (LoadInvalid, w, st)
      else
        (case load_packs_from_spec vm w path True st of
           (LoadOk, st1) \<Rightarrow> (LoadOk, set_env ''PHRONESIS_JANET_PACK'' (pack_spec_buf st1) w, st1)
         | (LoadInvalid, st1) \<Rightarrow> (LoadInvalid, w, st1)
         | (LoadFailed, st1) \<Rightarrow> (LoadFailed, w, st1\<lparr>pack_spec_buf := [], pack_spec_set := False\<rparr>)))"

definition phronesis_shell_pack_reload ::
  "('e, 'f) vm \<Rightarrow> cstring_opt \<Rightarrow> world \<Rightarrow> 'f pack_host \<Rightarrow> rc \<times> world \<times> 'f pack_host" where
  "phronesis_shell_pack_reload vm path w st =
     (case phronesis_shell_pack_reload_internal vm path w st of
        (LoadOk, w1, st1) \<Rightarrow> (OK, w1, st1)
      | (LoadInvalid, w1, st1) \<Rightarrow> (ERR_INVAL, w1, st1)
      | (LoadFailed, w1, st1) \<Rightarrow> (ERR_IO, w1, st1))"

section \<open>What each step touches\<close>

text \<open>Parsing a spec, reading and compiling may open the pack root and start the virtual machine, and
  change nothing else of the host.\<close>

definition same_law :: "'f pack_host \<Rightarrow> 'f pack_host \<Rightarrow> bool" where
  "same_law st st' \<longleftrightarrow>
     packs st' = packs st \<and> pack_loaded st' = pack_loaded st \<and> pack_failed st' = pack_failed st
     \<and> pack_spec_buf st' = pack_spec_buf st \<and> pack_spec_set st' = pack_spec_set st"

lemma same_law_refl [simp]: "same_law st st"
  by (simp add: same_law_def)

lemma same_law_trans: "same_law a b \<Longrightarrow> same_law b c \<Longrightarrow> same_law a c"
  by (simp add: same_law_def)

lemma ensure_pack_root_law: "ensure_pack_root w st = (b, st') \<Longrightarrow> same_law st st'"
  by (auto simp: ensure_pack_root_def same_law_def split: option.splits if_splits)

lemma open_on_root_law: "open_on_root w p st = (b, st') \<Longrightarrow> same_law st st'"
  by (auto simp: open_on_root_def dest: ensure_pack_root_law split: prod.splits option.splits bool.splits)

lemma pack_on_root_law: "pack_on_root w p st = (b, st') \<Longrightarrow> same_law st st'"
  by (auto simp: pack_on_root_def dest: open_on_root_law split: prod.splits)

lemma all_on_root_law: "all_on_root w ps st = (b, st') \<Longrightarrow> same_law st st'"
proof (induction ps arbitrary: st)
  case (Cons p ps)
  obtain b1 st1 where 1: "pack_on_root w p st = (b1, st1)" by fastforce
  have l: "same_law st st1" by (rule pack_on_root_law [OF 1])
  show ?case
  proof (cases b1)
    case True
    then have "all_on_root w ps st1 = (b, st')" using Cons.prems 1 by simp
    from same_law_trans [OF l Cons.IH [OF this]] show ?thesis .
  next
    case False
    then show ?thesis using Cons.prems 1 l by simp
  qed
qed simp

lemma read_pack_file_law: "read_pack_file w p st = (b, st') \<Longrightarrow> same_law st st'"
  by (auto simp: read_pack_file_def dest: open_on_root_law split: prod.splits option.splits node.splits)

lemma dobytes_file_law: "dobytes_file vm w e p st = (b, st') \<Longrightarrow> same_law st st'"
  by (auto simp: dobytes_file_def dest: read_pack_file_law split: prod.splits option.splits if_splits)

lemma load_libs_loop_law: "load_libs_loop vm w d xs e st = (b, st') \<Longrightarrow> same_law st st'"
proof (induction xs arbitrary: e st)
  case (Cons x xs)
  obtain e1 st1 where d: "dobytes_file vm w e (d @ ''/'' @ x) st = (e1, st1)" by fastforce
  show ?case
    using Cons.prems Cons.IH [of _ st1] dobytes_file_law [OF d] d
    by (cases e1) (auto simp: Let_def split: if_splits intro: same_law_trans)
qed simp

lemma compile_pack_law: "compile_pack vm w p st = (b, st') \<Longrightarrow> same_law st st'"
proof -
  assume c: "compile_pack vm w p st = (b, st')"
  have l: "same_law st st1" if "load_pack_libs vm w e p st = (x, st1)" for e x st1
    using that load_libs_loop_law by (auto simp: load_pack_libs_def split: option.splits)
  show ?thesis
  proof (cases "janet_core_env vm")
    case None
    then show ?thesis using c by (simp add: compile_pack_def)
  next
    case (Some core)
    obtain e1 st1 where e: "load_pack_libs vm w (seal_pack_env vm (janet_register vm core)) p st = (e1, st1)" by fastforce
    show ?thesis
    proof (cases e1)
      case None
      then show ?thesis using c Some e l [OF e] by (simp add: compile_pack_def)
    next
      case (Some env)
      obtain e2 st2 where d: "dobytes_file vm w env p st1 = (e2, st2)" by fastforce
      have "st' = st2" using c \<open>janet_core_env vm = Some core\<close> e Some d by (cases e2) (auto simp: compile_pack_def Let_def)
      then show ?thesis using same_law_trans [OF l [OF e] dobytes_file_law [OF d]] by simp
    qed
  qed
qed

lemma hash_files_law: "hash_files w fs h st = (b, st') \<Longrightarrow> same_law st st'"
proof (induction w fs h st rule: hash_files.induct)
  case (2 w f name fs h st)
  obtain e1 st1 where d: "read_pack_file w f st = (e1, st1)" by fastforce
  show ?case
    using 2 read_pack_file_law [OF d] d by (cases e1) (auto split: if_splits intro: same_law_trans)
qed simp

lemma image_header_law: "pack_image_header vm w p n st = (b, st') \<Longrightarrow> same_law st st'"
  by (auto simp: pack_image_header_def pack_source_hash_def Let_def dest: hash_files_law split: prod.splits option.splits)

lemma load_pack_image_law:
  assumes "load_pack_image vm w p st = (b, st')"
  shows "same_law st st'"
proof (cases "pack_image_path p PACK_PATH_MAX")
  case None
  then show ?thesis using assms by (simp add: load_pack_image_def)
next
  case (Some ip)
  obtain b1 st1 where 1: "pack_on_root w ip st = (b1, st1)" by fastforce
  obtain h st2 where 2: "pack_image_header vm w p 256 st1 = (h, st2)" by fastforce
  obtain r st3 where 3: "read_pack_file w ip st2 = (r, st3)" by fastforce
  have l: "same_law st st1" "same_law st1 st2" "same_law st2 st3"
    using pack_on_root_law [OF 1] image_header_law [OF 2] read_pack_file_law [OF 3] by simp_all
  have "st' = st1 \<or> st' = st2 \<or> st' = st3"
    using assms Some 1 2 3 by (cases b1; cases h; cases r) (auto simp: load_pack_image_def Let_def split: if_splits)
  then show ?thesis using l same_law_trans by blast
qed

text \<open>One turn of the segment loop: a rejection, or the next turn with more paths.\<close>

lemma parse_segments_step:
  assumes "parse_segments w lim ab (t # ts) out st = (r, st')"
  shows "(r = None \<and> same_law st st') \<or>
    (\<exists>out' st1. same_law st st1 \<and> parse_segments w lim ab ts out' st1 = (r, st')
       \<and> (t = [] \<and> out' = out \<or> append_path out lim t = Some out' \<or> expand_dir_packs w t out lim = Some out'))"
proof (cases "t = [] \<or> ab \<and> cstr_at t 0 \<noteq> slash")
  case True
  show ?thesis
  proof (cases "t = []")
    case e: True
    then have "parse_segments w lim ab ts out st = (r, st')" using assms by simp
    then show ?thesis using e same_law_refl by blast
  next
    case False
    then show ?thesis using True assms by auto
  qed
next
  case ne: False
  obtain b1 st1 where 1: "(if ab then pack_on_root w t st else (True, st)) = (b1, st1)" by fastforce
  have l1: "same_law st st1" using 1 pack_on_root_law [of w t st] by (auto split: if_splits)
  show ?thesis
  proof (cases b1)
    case False
    then show ?thesis using assms ne 1 l1 by (auto split: if_splits)
  next
    case b1: True
    show ?thesis
    proof (cases "path_is_dir w (Some t) \<or> ab \<and> path_is_absolute_dir w (Some t)")
      case dir: True
      show ?thesis
      proof (cases "expand_dir_packs w t out lim")
        case None
        then show ?thesis using assms ne 1 l1 b1 dir by (simp split: if_splits)
      next
        case (Some q)
        obtain b2 st2 where 2: "(if ab then all_on_root w (drop (length out) q) st1 else (True, st1)) = (b2, st2)" by fastforce
        have l2: "same_law st st2" using 2 all_on_root_law [of w _ st1] same_law_trans [OF l1] l1 by (auto split: if_splits)
        have "if b2 then parse_segments w lim ab ts q st2 = (r, st') else r = None \<and> st' = st2"
          using assms ne 1 b1 dir Some 2 by (cases b2) (auto split: if_splits)
        then show ?thesis using l2 Some by (cases b2) auto
      qed
    next
      case False
      then have "(r = None \<and> st' = st1) \<or> (\<exists>q. append_path out lim t = Some q \<and> parse_segments w lim ab ts q st1 = (r, st'))"
        using assms ne 1 b1 by (auto split: if_splits option.splits)
      then show ?thesis using l1 by blast
    qed
  qed
qed

lemma parse_segments_law: "parse_segments w lim ab toks out st = (r, st') \<Longrightarrow> same_law st st'"
proof (induction toks arbitrary: out st)
  case (Cons t ts)
  from parse_segments_step [OF Cons.prems] show ?case using Cons.IH same_law_trans by blast
qed (simp split: if_splits)

section \<open>The state of the pack host\<close>

text \<open>What holds of the static variables between two calls: at most sixteen packs, each with an entry,
  some pack when the loaded flag is set, none after a failure.\<close>

definition host_ok :: "'f pack_host \<Rightarrow> bool" where
  "host_ok st \<longleftrightarrow>
     length (packs st) \<le> PACK_MAX
     \<and> (\<forall>p \<in> set (packs st). (shell_fn p \<noteq> None \<or> audio_fn p \<noteq> None) \<and> length (pack_path p) < PACK_PATH_MAX)
     \<and> (pack_loaded st \<longrightarrow> packs st \<noteq> []) \<and> (pack_failed st \<longrightarrow> packs st = [])"

lemma host_ok_law: "same_law st st' \<Longrightarrow> host_ok st \<Longrightarrow> host_ok st'"
  by (simp add: host_ok_def same_law_def)

lemma host_ok_initial [simp]: "host_ok initial_host"
  by (simp add: host_ok_def initial_host_def)

lemma host_ok_unload [simp]: "host_ok (unload_packs st)"
  by (simp add: host_ok_def unload_packs_def)

lemma host_ok_failed [simp]: "host_ok (load_failed st)"
  by (simp add: host_ok_def load_failed_def unload_packs_def)

text \<open>Loading one pack appends at most one slot.\<close>

lemma load_one_pack_result:
  assumes "load_one_pack vm w p st = (b, st')"
  shows "(\<exists>new. packs st' = packs st @ new \<and> (new = [] \<or> b \<and> (\<exists>s a. new = [\<lparr>shell_fn = s, audio_fn = a, pack_path = p\<rparr>]
            \<and> (s \<noteq> None \<or> a \<noteq> None) \<and> length p < PACK_PATH_MAX \<and> length (packs st) < PACK_MAX)))
    \<and> pack_loaded st' = pack_loaded st \<and> pack_failed st' = pack_failed st"
proof (cases "p = [] \<or> length (packs st) \<ge> PACK_MAX")
  case True
  then show ?thesis using assms by (auto simp: load_one_pack_def)
next
  case False
  let ?st0 = "st\<lparr>janet_inited := True\<rparr>"
  obtain e st2 where c: "(case load_pack_image vm w p ?st0 of (Some e, st1) \<Rightarrow> (Some e, st1)
      | (None, st1) \<Rightarrow> compile_pack vm w p st1) = (e, st2)" by fastforce
  obtain i st1 where im: "load_pack_image vm w p ?st0 = (i, st1)" by fastforce
  have "same_law ?st0 st2"
    using c im load_pack_image_law [OF im] compile_pack_law [of vm w p st1 e st2]
    by (cases i) (auto intro: same_law_trans)
  then have l: "packs st2 = packs st" "pack_loaded st2 = pack_loaded st" "pack_failed st2 = pack_failed st"
    by (simp_all add: same_law_def)
  have body: "load_one_pack vm w p st = (case e of None \<Rightarrow> (False, st2)
      | Some (s, a) \<Rightarrow> if s = None \<and> a = None then (True, st2)
          else if \<not> snprintf_fits PACK_PATH_MAX p then (False, st2)
          else (True, st2\<lparr>packs := packs st2 @ [\<lparr>shell_fn = s, audio_fn = a, pack_path = p\<rparr>]\<rparr>))"
    using False c by (auto simp: load_one_pack_def split: option.splits)
  show ?thesis
    using assms l False unfolding body by (cases e) (auto simp: snprintf_fits_def split: if_splits)
qed

lemma load_each_result:
  assumes "load_each vm w ps st = (b, st')" "host_ok st" "\<not> pack_failed st"
  shows "host_ok st' \<and> pack_loaded st' = pack_loaded st \<and> \<not> pack_failed st'
    \<and> (\<exists>new. packs st' = packs st @ new \<and> pack_path ` set new \<subseteq> set ps)"
  using assms
proof (induction ps arbitrary: st)
  case (Cons p ps)
  obtain b1 st1 where o: "load_one_pack vm w p st = (b1, st1)" by fastforce
  note r = load_one_pack_result [OF o]
  have ok1: "host_ok st1" "\<not> pack_failed st1" "pack_loaded st1 = pack_loaded st"
    using r Cons.prems(2,3) by (auto simp: host_ok_def)
  obtain new where new: "packs st1 = packs st @ new" "pack_path ` set new \<subseteq> {p}" using r by auto
  show ?case
  proof (cases b1)
    case False
    then have "st' = st1" using Cons.prems o by simp
    moreover have "pack_path ` set new \<subseteq> set (p # ps)" using new(2) by auto
    ultimately show ?thesis using ok1 new(1) by blast
  next
    case True
    then have "load_each vm w ps st1 = (b, st')" using Cons.prems o by simp
    from Cons.IH [OF this ok1(1,2)] obtain new2 where n2: "host_ok st'" "pack_loaded st' = pack_loaded st1" "\<not> pack_failed st'"
      "packs st' = packs st1 @ new2" "pack_path ` set new2 \<subseteq> set ps" by blast
    have "packs st' = packs st @ (new @ new2)" "pack_path ` set (new @ new2) \<subseteq> set (p # ps)" using n2 new by auto
    then show ?thesis using n2 ok1 by blast
  qed
qed simp

lemma load_spec_result:
  assumes ld: "load_packs_from_spec vm w spec ab st = (r, st')" and ok: "host_ok st"
  shows "host_ok st'
    \<and> (r = LoadInvalid \<longrightarrow> same_law st st')
    \<and> (r = LoadFailed \<longrightarrow> packs st' = [] \<and> pack_failed st' \<and> \<not> pack_loaded st')
    \<and> (r = LoadOk \<longrightarrow> packs st' \<noteq> [] \<and> pack_loaded st' \<and> \<not> pack_failed st' \<and> pack_spec_set st'
         \<and> join_spec [] 0 (map pack_path (packs st')) = Some (pack_spec_buf st')
         \<and> (\<exists>paths st1. parse_pack_spec w spec PACK_MAX ab st = (Some paths, st1) \<and> pack_path ` set (packs st') \<subseteq> set paths))"
proof -
  obtain q st1 where p: "parse_pack_spec w spec PACK_MAX ab st = (q, st1)" by fastforce
  have l: "same_law st st1" using p by (auto simp: parse_pack_spec_def dest: parse_segments_law split: if_splits)
  show ?thesis
  proof (cases "nonempty spec \<and> q \<noteq> None")
    case False
    then have "r = LoadInvalid \<and> (st' = st \<or> st' = st1)"
      using ld p by (cases "nonempty spec") (auto simp: load_packs_from_spec_def)
    then show ?thesis using l host_ok_law [OF l ok] ok by auto
  next
    case True
    then obtain paths where q: "q = Some paths" by blast
    obtain b st2 where e: "load_each vm w paths (unload_packs st1) = (b, st2)" by fastforce
    have e': "host_ok st2" "\<not> pack_failed st2" "pack_path ` set (packs st2) \<subseteq> set paths"
      using load_each_result [OF e host_ok_unload] by (auto simp: unload_packs_def)
    obtain j where j: "join_spec [] 0 (map pack_path (packs st2)) = j" by blast
    show ?thesis
    proof (cases "b \<and> packs st2 \<noteq> [] \<and> j \<noteq> None")
      case False
      then have "st' = load_failed st2" "r = LoadFailed"
        using ld True p q e j by (cases b; auto simp: load_packs_from_spec_def split: if_splits)+
      then show ?thesis by (simp add: load_failed_def unload_packs_def host_ok_def)
    next
      case t: True
      then obtain buf where buf: "j = Some buf" by blast
      then have s: "st' = st2\<lparr>pack_spec_buf := buf, pack_spec_set := True, pack_loaded := True, pack_failed := False\<rparr>" "r = LoadOk"
        using ld True p q e j t by (auto simp: load_packs_from_spec_def)
      have "host_ok st'" using e'(1,2) t s by (simp add: host_ok_def)
      then show ?thesis using s t e' p q j buf by simp
    qed
  qed
qed

section \<open>Trusted prefixes\<close>

lemma path_under_prefix_split:
  assumes "NUL \<notin> set p"
  shows "path_under_prefix (Some p) (Some r) \<longleftrightarrow>
    cstr_at p 0 = slash \<and> trim_root 0 r \<noteq> [] \<and> (\<exists>rest. p = trim_root 0 r @ rest \<and> (rest = [] \<or> hd rest = slash))"
proof -
  have "trim_root 0 r = [] \<longleftrightarrow> trim_len 0 r (length r) = 0" by (metis length_0_conv length_trim_root)
  moreover have "r = [] \<Longrightarrow> trim_len 0 r (length r) = 0" by simp
  ultimately show ?thesis using boundary_iff [OF assms, of r 0] by (auto simp: path_under_prefix_def Let_def)
qed

interpretation pre: rooted_scope "\<lambda>r p. path_under_prefix (Some p) (Some r)" "trim_root 0"
  by unfold_locales (simp_all add: path_under_prefix_split)

lemma path_under_prefix_child:
  assumes "path_under_prefix (Some p) r"
  shows "path_under_prefix (Some (p @ slash # x)) r"
proof -
  obtain s where r: "r = Some s" using assms by (cases r) (auto simp: path_under_prefix_def)
  let ?n = "trim_len 0 s (length s)"
  have f: "cstr_at p 0 = slash" "s \<noteq> []" "?n \<noteq> 0" "take ?n p = take ?n s" "cstr_at p ?n = NUL \<or> cstr_at p ?n = slash"
    using assms r by (auto simp: path_under_prefix_def Let_def strncmp_eq_def split: if_splits)
  have le: "?n \<le> length p"
  proof -
    have "length (take ?n p) = ?n" using f(4) trim_len_le [of 0 s "length s"] by simp
    then show ?thesis by simp
  qed
  have p0: "p \<noteq> []" using f(1) by auto
  have "cstr_at (p @ slash # x) 0 = slash" using f(1) p0 by (simp add: cstr_at_def nth_append)
  moreover have "take ?n (p @ slash # x) = take ?n s" using f(4) le by simp
  moreover have "cstr_at (p @ slash # x) ?n = NUL \<or> cstr_at (p @ slash # x) ?n = slash"
    using f(5) le by (auto simp: cstr_at_def nth_append split: if_splits)
  ultimately show ?thesis using f r by (simp add: path_under_prefix_def Let_def strncmp_eq_def)
qed

lemma trusted_child: "pack_under_trusted_prefix e (Some p) \<Longrightarrow> pack_under_trusted_prefix e (Some (p @ slash # x))"
  unfolding pack_under_trusted_prefix_def using path_under_prefix_child [of p _ x]
  by (auto split: if_splits option.splits)

text \<open>The paths a spec expands to: the segments, or entries of a segment that is a directory.\<close>

definition seg_path :: "string \<Rightarrow> string \<Rightarrow> bool" where
  "seg_path t p \<longleftrightarrow> p = t \<or> (\<exists>x. p = t @ slash # x)"

lemma append_names_paths:
  "append_names d lim xs out = Some out' \<Longrightarrow> p \<in> set out' \<Longrightarrow> p \<in> set out \<or> seg_path d p"
proof (induction xs arbitrary: out)
  case (Cons x xs)
  then obtain o1 where o1: "append_path out lim (d @ ''/'' @ x) = Some o1" "append_names d lim xs o1 = Some out'"
    by (auto simp: Let_def split: if_splits option.splits)
  then have "o1 = out @ [d @ slash # x]" by (auto simp: append_path_def split: if_splits)
  then show ?case using Cons.IH [OF o1(2) Cons.prems(2)] by (auto simp: seg_path_def)
qed simp

lemma parse_segments_paths:
  assumes "parse_segments w lim ab toks out st = (Some ps, st')" "p \<in> set ps"
  shows "p \<in> set out \<or> (\<exists>t \<in> set toks. seg_path t p)"
  using assms
proof (induction toks arbitrary: out st)
  case (Cons t ts)
  from parse_segments_step [OF Cons.prems(1)] obtain out' st1 where q: "parse_segments w lim ab ts out' st1 = (Some ps, st')"
    and o: "t = [] \<and> out' = out \<or> append_path out lim t = Some out' \<or> expand_dir_packs w t out lim = Some out'" by blast
  have "p \<in> set out \<or> seg_path t p" if p: "p \<in> set out'"
    using o
  proof (elim disjE)
    assume "append_path out lim t = Some out'"
    then have "out' = out @ [t]" by (simp add: append_path_def split: if_splits)
    then show ?thesis using p by (auto simp: seg_path_def)
  next
    assume "expand_dir_packs w t out lim = Some out'"
    then obtain xs where "append_names t lim xs out = Some out'"
      by (auto simp: expand_dir_packs_def Let_def split: if_splits option.splits)
    from append_names_paths [OF this p] show ?thesis .
  qed (use p in simp)
  then show ?case using Cons.IH [OF q Cons.prems(2)] by auto
qed (simp split: if_splits)

lemma reload_effect:
  assumes ok: "host_ok st" and rl: "phronesis_shell_pack_reload vm path w st = (r, w', st')"
  shows "host_ok st'
    \<and> (r = ERR_INVAL \<longrightarrow> w' = w \<and> same_law st st')
    \<and> (r = ERR_IO \<longrightarrow> w' = w \<and> packs st' = [] \<and> pack_failed st' \<and> \<not> pack_loaded st' \<and> \<not> pack_spec_set st')
    \<and> (r = OK \<longrightarrow> packs st' \<noteq> [] \<and> pack_loaded st' \<and> \<not> pack_failed st'
         \<and> w_env w' ''PHRONESIS_JANET_PACK'' = Some (pack_spec_buf st')
         \<and> (env_flag_on (w_env w) ''PHRONESIS_DEV_PACK''
            \<or> (\<forall>p \<in> set (packs st'). pack_under_trusted_prefix (w_env w) (Some (pack_path p)))))
    \<and> (r = OK \<or> r = ERR_INVAL \<or> r = ERR_IO)"
proof (cases "nonempty path \<and> pack_reload_spec_allowed w path")
  case False
  then show ?thesis
    using rl ok by (cases "nonempty path") (auto simp: phronesis_shell_pack_reload_def phronesis_shell_pack_reload_internal_def)
next
  case True
  obtain q st1 where ld: "load_packs_from_spec vm w path True st = (q, st1)" by fastforce
  note res = load_spec_result [OF ld ok]
  have body: "phronesis_shell_pack_reload vm path w st =
     (case q of LoadOk \<Rightarrow> (OK, set_env ''PHRONESIS_JANET_PACK'' (pack_spec_buf st1) w, st1)
        | LoadInvalid \<Rightarrow> (ERR_INVAL, w, st1)
        | LoadFailed \<Rightarrow> (ERR_IO, w, st1\<lparr>pack_spec_buf := [], pack_spec_set := False\<rparr>))"
    using True ld by (cases q) (simp_all add: phronesis_shell_pack_reload_def phronesis_shell_pack_reload_internal_def)
  show ?thesis
  proof (cases q)
    case LoadOk
    then obtain paths st2 where ps: "parse_pack_spec w path PACK_MAX True st = (Some paths, st2)" "pack_path ` set (packs st1) \<subseteq> set paths"
      using res by blast
    let ?toks = "strtok CHR '':'' (the path)"
    have all: "\<forall>t \<in> set ?toks. pack_reload_segment_allowed w t"
      using True by (auto simp: pack_reload_spec_allowed_def Let_def list_all_iff split: if_splits)
    have tr: "pack_under_trusted_prefix (w_env w) (Some p)"
      if dev: "\<not> env_flag_on (w_env w) ''PHRONESIS_DEV_PACK''" and p: "p \<in> set paths" for p
    proof -
      have "parse_segments w PACK_MAX True ?toks [] st = (Some paths, st2)"
        using ps(1) by (auto simp: parse_pack_spec_def split: if_splits)
      from parse_segments_paths [OF this p] obtain t where t: "t \<in> set ?toks" "seg_path t p" by auto
      have "pack_under_trusted_prefix (w_env w) (Some t)"
        using all t(1) dev by (auto simp: pack_reload_segment_allowed_def split: if_splits)
      then show ?thesis using t(2) trusted_child by (auto simp: seg_path_def)
    qed
    have "env_flag_on (w_env w) ''PHRONESIS_DEV_PACK''
        \<or> (\<forall>p \<in> set (packs st1). pack_under_trusted_prefix (w_env w) (Some (pack_path p)))"
      using ps(2) tr by blast
    then show ?thesis using rl body res LoadOk by (auto simp: set_env_def)
  next
    case LoadInvalid
    then show ?thesis using rl body res by auto
  next
    case LoadFailed
    then show ?thesis using rl body res by (auto simp: host_ok_def)
  qed
qed

section \<open>Properties\<close>

text \<open>A reload cannot weaken the law in force. A reload that is refused (bad path, not allow-listed,
  not under the pack root) leaves the loaded packs, the flags, the spec and the environment exactly as
  they were. A reload that fails after acceptance leaves no pack loaded and the failure flag set, so
  that checks are denied. A reload that succeeds leaves between one and sixteen packs, each with an
  entry, and, unless the developer flag is set, every one of them under a trusted prefix.\<close>

lemma reload_keeps_law:
  assumes ok: "host_ok st" and rl: "phronesis_shell_pack_reload vm path w st = (r, w', st')"
  shows "host_ok st'
    \<and> (r = ERR_INVAL \<longrightarrow> w' = w \<and> same_law st st')
    \<and> (r = ERR_IO \<longrightarrow> w' = w \<and> packs st' = [] \<and> pack_failed st' \<and> \<not> pack_loaded st' \<and> \<not> pack_spec_set st')
    \<and> (r = OK \<longrightarrow> packs st' \<noteq> [] \<and> pack_loaded st' \<and> \<not> pack_failed st'
         \<and> w_env w' ''PHRONESIS_JANET_PACK'' = Some (pack_spec_buf st')
         \<and> (env_flag_on (w_env w) ''PHRONESIS_DEV_PACK''
            \<or> (\<forall>p \<in> set (packs st'). pack_under_trusted_prefix (w_env w) (Some (pack_path p)))))
    \<and> (r = OK \<or> r = ERR_INVAL \<or> r = ERR_IO)"
  using reload_effect [OF assms] .

text \<open>A small virtual machine to evaluate on: an environment is the list of sources read so far, a function
  is a source text, and a source that starts with an s binds \<open>shell-check\<close> to itself.\<close>

definition demo_vm :: "(string list, string) vm" where
  "demo_vm =
     \<lparr>janet_core_env = Some [], janet_register = (\<lambda>e. e), janet_table_remove = (\<lambda>e _. e),
      janet_dobytes = (\<lambda>e b _. Some (b # e)),
      janet_resolve = (\<lambda>e n. if n = ''shell-check'' then map_option JFun (find (\<lambda>b. cstr_at b 0 = CHR ''s'') e) else None),
      janet_unmarshal = (\<lambda>_. None), janet_marshal = (\<lambda>_. None), janet_version = ''1.0'',
      janet_pcall = (\<lambda>f b. PcallBuffer f)\<rparr>"

definition law_world :: world where
  "law_world =
     fresh_world\<lparr>w_env := (\<lambda>n. if n = ''PHRONESIS_PACK_ROOT'' then Some ''/opt/law'' else None),
       w_fs := (\<lambda>k. if k = [] \<or> k = [''opt''] \<or> k = [''opt'', ''law''] then Some (Dir 493)
         else if k = [''opt'', ''law'', ''a.janet''] then Some (Reg ''s1'')
         else if k = [''opt'', ''law'', ''b.janet''] then Some (Reg ''doc'')
         else if k = [''etc''] then Some (Dir 493)
         else if k = [''etc'', ''x.janet''] then Some (Reg ''s9'') else None),
       w_dir := (\<lambda>d. if d = ''/opt/law'' then Some [''b.janet'', ''.'', ''a.janet'', ''.h.janet''] else None)\<rparr>"

lemma reload_keeps_law_witness:
  "let r = phronesis_shell_pack_reload demo_vm (Some ''/opt/law'') law_world initial_host
   in fst r = OK \<and> map pack_path (packs (snd (snd r))) = [''/opt/law/a.janet'']
      \<and> w_env (fst (snd r)) ''PHRONESIS_JANET_PACK'' = Some ''/opt/law/a.janet''
      \<and> fst (phronesis_shell_pack_reload demo_vm (Some ''/etc/x.janet'') (fst (snd r)) (snd (snd r))) = ERR_INVAL
      \<and> same_law (snd (snd r)) (snd (snd (phronesis_shell_pack_reload demo_vm (Some ''/etc/x.janet'') (fst (snd r)) (snd (snd r)))))"
proof -
  define r where "r = phronesis_shell_pack_reload demo_vm (Some ''/opt/law'') law_world initial_host"
  define q where "q = phronesis_shell_pack_reload demo_vm (Some ''/etc/x.janet'') (fst (snd r)) (snd (snd r))"
  have e: "fst r = OK" "map pack_path (packs (snd (snd r))) = [''/opt/law/a.janet'']" "pack_spec_buf (snd (snd r)) = ''/opt/law/a.janet''"
    "fst q = ERR_INVAL"
    unfolding q_def r_def by code_simp+
  have r: "phronesis_shell_pack_reload demo_vm (Some ''/opt/law'') law_world initial_host = (fst r, fst (snd r), snd (snd r))"
    by (simp add: r_def)
  have q: "phronesis_shell_pack_reload demo_vm (Some ''/etc/x.janet'') (fst (snd r)) (snd (snd r)) = (fst q, fst (snd q), snd (snd q))"
    by (simp add: q_def)
  note k1 = reload_keeps_law [OF host_ok_initial r]
  note k2 = reload_keeps_law [OF conjunct1 [OF k1] q]
  show ?thesis using k1 k2 e unfolding r_def [symmetric] Let_def q_def [symmetric] by simp
qed

text \<open>C35: A pack image is used only for the sources it was made from. For an image file as
  \<open>phronesis_pack_image_write\<close> writes it (header with the hash of the sources then, and the marshalled
  entries), \<open>load_pack_image\<close> takes the entries exactly when the hash of the sources now is the same;
  otherwise the loader falls back to compiling. The sixteen hexadecimal digits of the header lose
  nothing of the 64-bit hash.\<close>

theorem image_matches_sources:
  assumes ip: "pack_image_path path PACK_PATH_MAX = Some ipath" and on: "pack_on_root w ipath st = (True, st1)"
    and now: "pack_source_hash w path st1 = (Some h, st2)"
    and img: "read_pack_file w ipath st2 =
      (Some (PACK_IMAGE_MAGIC @ janet_version vm @ [newline] @ hex_fixed 16 (unat h0) @ [newline] @ b), st3)"
    and b: "b \<noteq> []" and ver: "length (janet_version vm) < 200"
  shows "load_pack_image vm w path st = (if h = h0 then image_entries (janet_unmarshal vm b) else None, st3)"
proof -
  let ?pre = "PACK_IMAGE_MAGIC @ janet_version vm @ [newline]"
  let ?hdr = "?pre @ hex_fixed 16 (unat h) @ [newline]"
  have mg: "length PACK_IMAGE_MAGIC = 23" by (simp add: PACK_IMAGE_MAGIC_def)
  have hdr: "pack_image_header vm w path 256 st1 = (Some ?hdr, st2)"
    using now ver mg by (simp add: pack_image_header_def snprintf_fits_def Let_def)
  let ?buf = "?pre @ hex_fixed 16 (unat h0) @ [newline] @ b"
  have tk: "take (length ?hdr) ?buf = ?pre @ hex_fixed 16 (unat h0) @ [newline]" by simp
  have lt: "unat (x :: 64 word) < 16 ^ 16" for x using unsigned_less [of x] by simp
  have "hex_fixed 16 (unat h0) = hex_fixed 16 (unat h) \<longleftrightarrow> h = h0"
    using hex_fixed_inj [OF lt lt, of h0 h] by (auto dest: word_unat_eq_iff [THEN iffD2])
  then have eq: "take (length ?hdr) ?buf = ?hdr \<longleftrightarrow> h = h0" unfolding tk by simp
  have "length ?hdr < length ?buf" using b by simp
  then show ?thesis
    using ip on hdr img eq b by (auto simp: load_pack_image_def Let_def)
qed

definition image_vm :: "(string list, string) vm" where
  "image_vm = demo_vm\<lparr>janet_unmarshal := (\<lambda>b. Some (JTuple [JFun b, JNil]))\<rparr>"

definition image_hash :: "64 word" where
  "image_hash = fnv1a_feed (fnv1a_feed 0xcbf29ce484222325 (''a.janet'' @ [NUL])) ''s1''"

definition image_world :: "64 word \<Rightarrow> world" where
  "image_world h =
     law_world\<lparr>w_fs := (w_fs law_world)([''opt'', ''law'', ''a.jimage''] \<mapsto>
       Reg (PACK_IMAGE_MAGIC @ ''1.0'' @ [newline] @ hex_fixed 16 (unat h) @ [newline] @ ''code''))\<rparr>"

lemma image_matches_sources_witness:
  "fst (load_pack_image image_vm (image_world image_hash) ''/opt/law/a.janet'' initial_host) = Some (Some ''code'', None)
   \<and> fst (load_pack_image image_vm (image_world 7) ''/opt/law/a.janet'' initial_host) = None"
proof -
  let ?p = "''/opt/law/a.janet''" and ?ip = "''/opt/law/a.jimage''"
  let ?st = "(initial_host :: string pack_host)\<lparr>pack_rootfd := Some [''opt'', ''law''], pack_root := ''/opt/law''\<rparr>"
  have ip: "pack_image_path ?p PACK_PATH_MAX = Some ?ip" by code_simp
  have on: "pack_on_root (image_world image_hash) ?ip (initial_host :: string pack_host) = (True, ?st)"
    "pack_on_root (image_world 7) ?ip (initial_host :: string pack_host) = (True, ?st)" by code_simp+
  have rd: "read_pack_file (image_world image_hash) ?p ?st = (Some ''s1'', ?st)"
    "read_pack_file (image_world 7) ?p ?st = (Some ''s1'', ?st)" by code_simp+
  have op: "open_on_root (image_world image_hash) ?ip ?st = (Some [''opt'', ''law'', ''a.jimage''], ?st)"
    "open_on_root (image_world 7) ?ip ?st = (Some [''opt'', ''law'', ''a.jimage''], ?st)" by code_simp+
  have lib: "pack_lib_names (image_world h) ?p = Some (''/opt/law/lib'', [])" for h
  proof -
    have "dir_part ?p = Some ''/opt/law''" by code_simp
    then show ?thesis by (simp add: pack_lib_names_def image_world_def law_world_def snprintf_fits_def PACK_PATH_MAX_def)
  qed
  have base: "base_name ?p = ''a.janet''" "snprintf_fits PACK_PATH_MAX ?p" by code_simp+
  have now: "pack_source_hash (image_world image_hash) ?p ?st = (Some image_hash, ?st)"
    "pack_source_hash (image_world 7) ?p ?st = (Some image_hash, ?st)"
    using rd lib base by (simp_all add: pack_source_hash_def image_hash_def)
  let ?img = "\<lambda>h :: 64 word. PACK_IMAGE_MAGIC @ janet_version image_vm @ [newline] @ hex_fixed 16 (unat h) @ [newline] @ ''code''"
  have fs: "w_fs (image_world h) [''opt'', ''law'', ''a.jimage''] = Some (Reg (?img h))" for h
    by (simp add: image_world_def image_vm_def demo_vm_def)
  have len: "length (?img h) \<le> PACK_IMAGE_MAX" for h
    by (simp add: PACK_IMAGE_MAX_def PACK_IMAGE_MAGIC_def image_vm_def demo_vm_def)
  have img: "read_pack_file (image_world image_hash) ?ip ?st = (Some (?img image_hash), ?st)"
    "read_pack_file (image_world 7) ?ip ?st = (Some (?img 7), ?st)"
    using op fs len by (simp_all add: read_pack_file_def)
  have v: "length (janet_version image_vm) < 200" "''code'' \<noteq> []" by code_simp+
  have ne: "image_hash \<noteq> 7" by code_simp
  show ?thesis
    using image_matches_sources [OF ip on(1) now(1) img(1) v(2,1)] image_matches_sources [OF ip on(2) now(2) img(2) v(2,1)] ne
    by (simp add: image_vm_def image_entries_def entry_of_def)
qed

lemma slash_dotdot_iff: "NUL \<notin> set s \<Longrightarrow> slash_dotdot s \<longleftrightarrow> ''..'' \<in> set (tl (split_on slash s))"
proof (induction s)
  case Nil
  then show ?case by simp
next
  case (Cons x s)
  obtain d ds where sp: "split_on slash s = d # ds" by (cases "split_on slash s") auto
  have n: "NUL \<notin> set s" using Cons.prems by simp
  show ?case using Cons.IH [OF n] split_head_dotdot(1) [OF n sp] sp by auto
qed

lemma path_has_dotdot_iff:
  assumes "NUL \<notin> set s"
  shows "path_has_dotdot (Some s) \<longleftrightarrow> ''..'' \<in> set (path_comps s)"
proof -
  obtain d ds where sp: "split_on slash s = d # ds" by (cases "split_on slash s") auto
  show ?thesis
    using split_head_dotdot(1) [OF assms sp] slash_dotdot_iff [OF assms] sp
    by (auto simp: path_has_dotdot_def path_comps_def)
qed

text \<open>The two files agree on lexical checks. For strings with no NUL, the dot-dot test of the pack
  loader and that of src/beneath.c accept the same paths (those with no dot-dot component), the two
  tests for the file system root agree, and hence every root that \<open>pack_root_path\<close> takes from the
  environment is one that \<open>phronesis_beneath_dir\<close> does not refuse lexically.\<close>

lemma lexical_checks_agree:
  assumes "NUL \<notin> set s"
  shows "path_has_dotdot (Some s) = has_dotdot (Some s)
    \<and> (has_dotdot (Some s) \<longleftrightarrow> ''..'' \<in> set (path_comps s))
    \<and> path_is_fs_root (Some s) = is_fs_root (Some s)
    \<and> (is_fs_root (Some s) \<longleftrightarrow> cstr_at s 0 = slash \<and> set (path_comps s) \<subseteq> {''.''})
    \<and> (e ''PHRONESIS_PACK_ROOT'' = Some s \<and> s \<noteq> [] \<and> pack_root_path e n = Some r \<longrightarrow> r = s \<and> \<not> bad_root (Some r))"
  using path_has_dotdot_iff [OF assms] has_dotdot_iff [OF assms] is_fs_root_iff [OF assms]
  by (auto simp: path_is_fs_root_def is_fs_root_def bad_root_def pack_root_path_def Let_def split: if_splits)

lemma lexical_checks_agree_witness:
  "path_has_dotdot (Some ''/a/../b'') = has_dotdot (Some ''/a/../b'') \<and> has_dotdot (Some ''/a/../b'') \<and> \<not> bad_root (Some ''/opt/law'')"
proof -
  have "pack_root_path (w_env law_world) 99 = Some ''/opt/law''" "w_env law_world ''PHRONESIS_PACK_ROOT'' = Some ''/opt/law''" by code_simp+
  moreover have "has_dotdot (Some ''/a/../b'')" by code_simp
  ultimately show ?thesis
    using lexical_checks_agree [of "''/a/../b''" "w_env law_world" 99 "''/opt/law''"] lexical_checks_agree [of "''/opt/law''" "w_env law_world" 99 "''/opt/law''"]
    by simp
qed

end
