(* ===== verification/Codec.thy ===== *)
theory Codec
  imports Numbers Codes Json
begin

text \<open>
  The Cap'n Proto boundary. The c-capnproto runtime and the readers and writers generated from
  schema/policy.capnp are third-party or generated code, so they are a parameter: the record \<open>codec\<close>.
  A message (\<open>'m\<close>) is opened with \<open>capn_init_mem\<close>, its root is read with \<open>read_X\<close>, a new
  one is made with \<open>build_X\<close> (\<open>new_X\<close>, \<open>write_X\<close> and \<open>capn_setp\<close> on the root; \<open>None\<close> when
  the last fails) and written with \<open>capn_write_mem\<close> into a buffer of a given size. The records below are the
  structs of the schema; an enum field is its ordinal, a null struct pointer is \<open>None\<close>.

  What the properties rely on is stated as predicates (\<open>decision_codec\<close>, \<open>seat_codec\<close>, \<open>model_codec\<close>):
  a small message can be built, fits the first buffer and reads back as it was. \<open>demo_codec\<close> at the
  end is a concrete codec that has these properties.
\<close>

section \<open>Structs of the schema\<close>

record agent_id =
  aid_hi :: "64 word"
  aid_lo :: "64 word"

record capn_text =
  t_len :: int
  t_str :: "bytes option"

record policy_decision =
  pd_decision :: nat
  pd_reason :: capn_text
  pd_agentId :: "agent_id option"
  pd_code :: nat

record seat_check =
  sc_agentId :: "agent_id option"
  sc_action :: nat

record model_check =
  mc_agentId :: "agent_id option"
  mc_model :: capn_text

record path_check =
  pc_agentId :: "agent_id option"
  pc_action :: nat
  pc_path :: capn_text

record shell_check =
  sh_agentId :: "agent_id option"
  sh_cwd :: capn_text
  sh_argv :: "capn_text list"

record path_probe =
  pp_arg :: capn_text
  pp_resolved :: capn_text
  pp_exists :: bool
  pp_head :: capn_text

record shell_view =
  sv_underWorkspace :: bool
  sv_cwd :: capn_text
  sv_argv :: "capn_text list"
  sv_pathProbes :: "path_probe list"

record risk_check =
  rk_agentId :: "agent_id option"
  rk_action :: nat
  rk_path :: capn_text

record audio_check =
  au_agentId :: "agent_id option"
  au_action :: nat

record admit_check =
  ad_agentId :: "agent_id option"
  ad_detail :: capn_text

record policyd_status =
  ps_version :: capn_text
  ps_apiVersion :: int
  ps_stateDir :: capn_text
  ps_runtimeDir :: capn_text
  ps_ready :: bool

record agent_status_msg =
  as_id :: "agent_id option"
  as_state :: int
  as_pid :: int
  as_pgid :: int
  as_exitStatus :: int
  as_mode :: nat
  as_workspace :: capn_text
  as_hasCgroup :: bool
  as_detail :: capn_text

section \<open>The runtime\<close>

record 'm codec =
  capn_init_mem :: "bytes \<Rightarrow> 'm option"
  capn_write_mem :: "'m \<Rightarrow> nat \<Rightarrow> bytes option"
  read_PolicyDecision :: "'m \<Rightarrow> policy_decision"
  read_SeatCheck :: "'m \<Rightarrow> seat_check"
  read_ModelCheck :: "'m \<Rightarrow> model_check"
  read_PathCheck :: "'m \<Rightarrow> path_check"
  read_ShellCheck :: "'m \<Rightarrow> shell_check"
  read_RiskCheck :: "'m \<Rightarrow> risk_check"
  read_AudioCheck :: "'m \<Rightarrow> audio_check"
  read_AdmitSeat :: "'m \<Rightarrow> admit_check"
  read_AdmitModel :: "'m \<Rightarrow> admit_check"
  read_AgentQuery :: "'m \<Rightarrow> agent_id option"
  read_ReloadShellPack :: "'m \<Rightarrow> capn_text"
  build_PolicyDecision :: "policy_decision \<Rightarrow> 'm option"
  build_SeatCheck :: "seat_check \<Rightarrow> 'm option"
  build_ModelCheck :: "model_check \<Rightarrow> 'm option"
  build_ShellView :: "nat \<Rightarrow> shell_view \<Rightarrow> 'm option"
  build_PolicydStatus :: "policyd_status \<Rightarrow> 'm option"
  build_AgentStatus :: "agent_status_msg \<Rightarrow> 'm option"

definition INT_MAX :: nat where "INT_MAX = 2147483647"

text \<open>\<open>ctext\<close>, the same helper in src/policy\_janet.c and src/capnp\_api.c.\<close>

definition ctext :: "cstring_opt \<Rightarrow> capn_text" where
  "ctext s =
     (let str = (case s of None \<Rightarrow> [] | Some x \<Rightarrow> x); len = length str
      in \<lparr>t_len = int (if len > INT_MAX then INT_MAX else len), t_str = Some str\<rparr>)"

text \<open>The length as the readers take it (\<open>t.len > 0 ? t.len : 0\<close>) and the bytes copied by \<open>memcpy\<close>.\<close>

definition text_len :: "capn_text \<Rightarrow> nat" where
  "text_len t = (if t_len t > 0 then nat (t_len t) else 0)"

definition text_bytes :: "capn_text \<Rightarrow> bytes" where
  "text_bytes t = take (text_len t) (case t_str t of None \<Rightarrow> [] | Some s \<Rightarrow> s)"

definition null_agent :: agent_id where
  "null_agent = \<lparr>aid_hi = 0, aid_lo = 0\<rparr>"

section \<open>What the properties rely on\<close>

text \<open>Writing \<open>m\<close> yields \<open>b\<close> when the buffer is large enough and fails otherwise.\<close>

definition writes :: "'m codec \<Rightarrow> 'm \<Rightarrow> bytes \<Rightarrow> bool" where
  "writes cd m b \<longleftrightarrow> (\<forall>cap. capn_write_mem cd m cap = (if length b \<le> cap then Some b else None))"

text \<open>A message that is not empty, fits the first buffer of 8192 bytes and can be opened again.\<close>

definition small_message :: "'m codec \<Rightarrow> 'm option \<Rightarrow> bytes \<Rightarrow> 'm \<Rightarrow> bool" where
  "small_message cd mo b m' \<longleftrightarrow>
     (\<exists>m. mo = Some m \<and> writes cd m b) \<and> b \<noteq> [] \<and> length b \<le> 8192 \<and> capn_init_mem cd b = Some m'"

text \<open>The decisions the host itself builds: 16-bit ordinals and a reason of at most 80 bytes.\<close>

definition host_decision :: "policy_decision \<Rightarrow> bool" where
  "host_decision d \<longleftrightarrow>
     pd_decision d < 65536 \<and> pd_code d < 65536
     \<and> (\<exists>s. pd_reason d = ctext (Some s) \<and> length s \<le> 80)"

definition decision_codec :: "'m codec \<Rightarrow> bool" where
  "decision_codec cd \<longleftrightarrow>
     (\<forall>d. host_decision d \<longrightarrow>
        (\<exists>b m. small_message cd (build_PolicyDecision cd d) b m \<and> read_PolicyDecision cd m = d))"

definition seat_codec :: "'m codec \<Rightarrow> bool" where
  "seat_codec cd \<longleftrightarrow>
     (\<forall>c. sc_action c < 65536 \<longrightarrow>
        (\<exists>b m. small_message cd (build_SeatCheck cd c) b m \<and> read_SeatCheck cd m = c))"

definition model_codec :: "'m codec \<Rightarrow> bool" where
  "model_codec cd \<longleftrightarrow>
     (\<forall>a. \<exists>b m. small_message cd (build_ModelCheck cd \<lparr>mc_agentId = a, mc_model = ctext (Some [])\<rparr>) b m
        \<and> mc_agentId (read_ModelCheck cd m) = a)"

text \<open>Ordinals have 16 bits on the wire.\<close>

definition wire_ordinals :: "'m codec \<Rightarrow> bool" where
  "wire_ordinals cd \<longleftrightarrow>
     (\<forall>m. pd_decision (read_PolicyDecision cd m) < 65536 \<and> pd_code (read_PolicyDecision cd m) < 65536)"

text \<open>The answer \<open>out\<close> is a message that reads as the decision \<open>d\<close>.\<close>

definition says :: "'m codec \<Rightarrow> bytes option \<Rightarrow> policy_decision \<Rightarrow> bool" where
  "says cd out d \<longleftrightarrow>
     (\<exists>b m. out = Some b \<and> b \<noteq> [] \<and> capn_init_mem cd b = Some m \<and> read_PolicyDecision cd m = d)"

lemma says_fun: "says cd out d \<Longrightarrow> says cd out d' \<Longrightarrow> d = d'"
  by (auto simp: says_def)

lemma ctext_bytes [simp]: "length s \<le> INT_MAX \<Longrightarrow> text_bytes (ctext (Some s)) = s"
  by (simp add: ctext_def text_bytes_def text_len_def Let_def)

lemma ctext_None: "ctext None = ctext (Some [])"
  by (simp add: ctext_def)

lemma reason_ord_bound: "r \<in> set reason_table \<Longrightarrow> reason_ord r < 37"
proof -
  assume r: "r \<in> set reason_table"
  then obtain i where "i < length reason_table" "r = reason_table ! i" by (auto simp: in_set_conv_nth)
  then show ?thesis using r by (simp add: reason_ord_named index_of_nth distinct_reason_table length_reason_table)
qed

section \<open>A codec to evaluate on\<close>

text \<open>Messages are byte strings: an agent is one digit (0 for a null pointer, 1 otherwise) and, after a 1,
  32 hexadecimal digits; an ordinal is four; a text is the rest, and the words of a list are separated by
  newlines.\<close>

definition hexval :: "char \<Rightarrow> nat" where
  "hexval c = index_of c ''0123456789abcdef'' mod 16"

definition unhex :: "string \<Rightarrow> nat" where
  "unhex s = fold (\<lambda>c n. 16 * n + hexval c) s 0"

definition enc_agent :: "agent_id option \<Rightarrow> bytes" where
  "enc_agent a =
     (case a of None \<Rightarrow> ''0''
      | Some i \<Rightarrow> ''1'' @ hex_fixed 16 (unat (aid_hi i)) @ hex_fixed 16 (unat (aid_lo i)))"

definition dec_agent :: "bytes \<Rightarrow> agent_id option" where
  "dec_agent b =
     (if cstr_at b 0 = CHR ''1''
      then Some \<lparr>aid_hi = of_nat (unhex (take 16 (drop 1 b))), aid_lo = of_nat (unhex (take 16 (drop 17 b)))\<rparr>
      else None)"

definition agent_rest :: "bytes \<Rightarrow> bytes" where
  "agent_rest b = drop (if cstr_at b 0 = CHR ''1'' then 33 else 1) b"

definition demo_codec :: "bytes codec" where
  "demo_codec =
     \<lparr>capn_init_mem = (\<lambda>b. if b = [] then None else Some b),
      capn_write_mem = (\<lambda>m cap. if length m \<le> cap then Some m else None),
      read_PolicyDecision = (\<lambda>m. let r = agent_rest m in
         \<lparr>pd_decision = unhex (take 4 r), pd_reason = ctext (Some (drop 8 r)), pd_agentId = dec_agent m,
          pd_code = unhex (take 4 (drop 4 r))\<rparr>),
      read_SeatCheck = (\<lambda>m. \<lparr>sc_agentId = dec_agent m, sc_action = unhex (take 4 (agent_rest m))\<rparr>),
      read_ModelCheck = (\<lambda>m. \<lparr>mc_agentId = dec_agent m, mc_model = ctext (Some (agent_rest m))\<rparr>),
      read_PathCheck = (\<lambda>m. let r = agent_rest m in
         \<lparr>pc_agentId = dec_agent m, pc_action = unhex (take 4 r), pc_path = ctext (Some (drop 4 r))\<rparr>),
      read_ShellCheck = (\<lambda>m. let ws = split_on newline (agent_rest m) in
         \<lparr>sh_agentId = dec_agent m, sh_cwd = ctext (Some (ws ! 0)), sh_argv = map (\<lambda>x. ctext (Some x)) (tl ws)\<rparr>),
      read_RiskCheck = (\<lambda>m. let r = agent_rest m in
         \<lparr>rk_agentId = dec_agent m, rk_action = unhex (take 4 r), rk_path = ctext (Some (drop 4 r))\<rparr>),
      read_AudioCheck = (\<lambda>m. \<lparr>au_agentId = dec_agent m, au_action = unhex (take 4 (agent_rest m))\<rparr>),
      read_AdmitSeat = (\<lambda>m. \<lparr>ad_agentId = dec_agent m, ad_detail = ctext (Some (agent_rest m))\<rparr>),
      read_AdmitModel = (\<lambda>m. \<lparr>ad_agentId = dec_agent m, ad_detail = ctext (Some (agent_rest m))\<rparr>),
      read_AgentQuery = dec_agent,
      read_ReloadShellPack = (\<lambda>m. ctext (Some m)),
      build_PolicyDecision = (\<lambda>d. Some (enc_agent (pd_agentId d) @ hex_fixed 4 (pd_decision d) @ hex_fixed 4 (pd_code d)
         @ text_bytes (pd_reason d))),
      build_SeatCheck = (\<lambda>c. Some (enc_agent (sc_agentId c) @ hex_fixed 4 (sc_action c))),
      build_ModelCheck = (\<lambda>c. Some (enc_agent (mc_agentId c) @ text_bytes (mc_model c))),
      build_ShellView = (\<lambda>n v. Some (concat (map (\<lambda>t. text_bytes t @ [newline]) (sv_argv v)))),
      build_PolicydStatus = (\<lambda>s. Some (text_bytes (ps_version s))),
      build_AgentStatus = (\<lambda>s. Some (enc_agent (as_id s) @ show_int (as_state s)))\<rparr>"

lemma hexval_hexdigit: "hexval (hexdigit n) = n mod 16"
proof -
  have "distinct ''0123456789abcdef''" "n mod 16 < length ''0123456789abcdef''" by simp_all
  from index_of_nth [OF this] show ?thesis by (simp only: hexval_def hexdigit_def mod_mod_trivial)
qed

lemma unhex_hex_fixed: "unhex (hex_fixed k n) = n mod 16 ^ k"
proof (induction k arbitrary: n)
  case (Suc k)
  have "unhex (hex_fixed (Suc k) n) = 16 * unhex (hex_fixed k (n div 16)) + n mod 16"
    by (simp add: unhex_def hexval_hexdigit)
  also have "\<dots> = n mod 16 ^ Suc k" using Suc.IH [of "n div 16"] by (simp add: mod_mult2_eq)
  finally show ?case .
qed (simp add: unhex_def)

lemma unhex_unat: "(of_nat (unhex (hex_fixed 16 (unat x))) :: 64 word) = x"
proof -
  have "unat x < 16 ^ 16" using unsigned_less [of x] by simp
  then have "unhex (hex_fixed 16 (unat x)) = unat x" by (simp add: unhex_hex_fixed)
  then show ?thesis by simp
qed

lemma dec_enc_agent [simp]: "dec_agent (enc_agent a @ r) = a"
  by (cases a) (simp_all add: dec_agent_def enc_agent_def cstr_at_def unhex_unat)

lemma agent_rest_enc [simp]: "agent_rest (enc_agent a @ r) = r"
  by (cases a) (simp_all add: agent_rest_def enc_agent_def cstr_at_def)

lemma length_enc_agent: "0 < length (enc_agent a) \<and> length (enc_agent a) \<le> 33"
  by (cases a) (simp_all add: enc_agent_def)

lemma demo_writes: "writes demo_codec m m"
  by (simp add: writes_def demo_codec_def)

lemma demo_decision_codec: "decision_codec demo_codec"
proof -
  have "\<exists>b m. small_message demo_codec (build_PolicyDecision demo_codec d) b m \<and> read_PolicyDecision demo_codec m = d"
    if d: "host_decision d" for d
  proof -
    obtain s where s: "pd_reason d = ctext (Some s)" "length s \<le> 80" using d by (auto simp: host_decision_def)
    have tb: "text_bytes (pd_reason d) = s" using s by (simp add: INT_MAX_def)
    let ?b = "enc_agent (pd_agentId d) @ hex_fixed 4 (pd_decision d) @ hex_fixed 4 (pd_code d) @ s"
    have bd: "build_PolicyDecision demo_codec d = Some ?b" by (simp add: demo_codec_def tb)
    have "read_PolicyDecision demo_codec ?b = d"
      using d s(1) by (simp add: demo_codec_def host_decision_def Let_def unhex_hex_fixed)
    moreover have "small_message demo_codec (build_PolicyDecision demo_codec d) ?b ?b"
      unfolding small_message_def bd using demo_writes length_enc_agent [of "pd_agentId d"] s(2)
      by (auto simp: demo_codec_def)
    ultimately show ?thesis by blast
  qed
  then show ?thesis by (simp add: decision_codec_def)
qed

lemma unhex_bound: "unhex s < 16 ^ length s"
proof (induction s rule: rev_induct)
  case (snoc c s)
  have "hexval c < 16" by (simp add: hexval_def)
  then show ?case using snoc by (simp add: unhex_def)
qed (simp add: unhex_def)

lemma unhex_4: "unhex (take 4 s) < 65536"
proof -
  have "(16::nat) ^ length (take 4 s) \<le> 16 ^ 4" by (intro power_increasing) auto
  then show ?thesis using unhex_bound [of "take 4 s"] by simp
qed

lemma demo_wire_ordinals: "wire_ordinals demo_codec"
  by (simp add: wire_ordinals_def demo_codec_def unhex_4 Let_def)

lemma demo_seat_codec: "seat_codec demo_codec"
proof -
  have "\<exists>b m. small_message demo_codec (build_SeatCheck demo_codec c) b m \<and> read_SeatCheck demo_codec m = c"
    if c: "sc_action c < 65536" for c
  proof -
    let ?b = "enc_agent (sc_agentId c) @ hex_fixed 4 (sc_action c)"
    have bd: "build_SeatCheck demo_codec c = Some ?b" by (simp add: demo_codec_def)
    have "read_SeatCheck demo_codec ?b = c" using c by (simp add: demo_codec_def unhex_hex_fixed)
    moreover have "small_message demo_codec (build_SeatCheck demo_codec c) ?b ?b"
      unfolding small_message_def bd using demo_writes length_enc_agent [of "sc_agentId c"]
      by (auto simp: demo_codec_def)
    ultimately show ?thesis by blast
  qed
  then show ?thesis by (simp add: seat_codec_def)
qed

lemma demo_model_codec: "model_codec demo_codec"
proof -
  have "\<exists>b m. small_message demo_codec (build_ModelCheck demo_codec \<lparr>mc_agentId = a, mc_model = ctext (Some [])\<rparr>) b m
      \<and> mc_agentId (read_ModelCheck demo_codec m) = a" for a
  proof -
    let ?b = "enc_agent a"
    have bd: "build_ModelCheck demo_codec \<lparr>mc_agentId = a, mc_model = ctext (Some [])\<rparr> = Some ?b"
      by (simp add: demo_codec_def)
    have "mc_agentId (read_ModelCheck demo_codec ?b) = a"
      using dec_enc_agent [of a "[]"] by (simp add: demo_codec_def)
    moreover have "small_message demo_codec (build_ModelCheck demo_codec \<lparr>mc_agentId = a, mc_model = ctext (Some [])\<rparr>) ?b ?b"
      unfolding small_message_def bd using demo_writes length_enc_agent [of a]
      by (auto simp: demo_codec_def)
    ultimately show ?thesis by blast
  qed
  then show ?thesis by (simp add: model_codec_def)
qed

end
