(* ===== verification/Shell_View.thy ===== *)
theory Shell_View
  imports Packs Codec Policy
begin

text \<open>
  src/policy\_janet.c, lines 1199 to 1543: the messages of the pack host and the projection of a shell
  check into a \<open>ShellView\<close> (bounded argv, probes of the files that path-like words name). The runtime of
  the messages is the parameter \<open>codec\<close>.

  Allocation failures are not modelled. Sizes that the code computes with overflow tests in
  \<open>size_t\<close> are 64-bit words.
\<close>

section \<open>Limits and messages\<close>

definition PHRONESIS_SHELL_WORD_MAX :: nat where "PHRONESIS_SHELL_WORD_MAX = 128 * 1024"
definition PHRONESIS_SHELL_ARGV_MAX :: nat where "PHRONESIS_SHELL_ARGV_MAX = 32768"
definition SIZE_MAX :: "64 word" where "SIZE_MAX = - 1"

text \<open>\<open>path_under_workspace\<close> of src/policy\_janet.c. Unlike its namesake in src/policy.c it does not ask for
  a clean path.\<close>

definition pack_path_under_workspace :: "cstring_opt \<Rightarrow> cstring_opt \<Rightarrow> bool" where
  "pack_path_under_workspace workspace path =
     (if \<not> nonempty workspace \<or> \<not> nonempty path then False
      else if cstr_at (the path) 0 \<noteq> slash then False
      else
        let wl = trim_len 1 (the workspace) (length (the workspace))
        in if \<not> strncmp_eq (the path) (the workspace) wl then False
           else cstr_at (the path) wl = NUL \<or> cstr_at (the path) wl = slash)"

text \<open>The loop of \<open>write_flat\<close> that doubles the buffer. The test for zero only makes the recursion total:
  the first buffer has 8192 bytes.\<close>

function flat_loop :: "'m codec \<Rightarrow> 'm \<Rightarrow> nat \<Rightarrow> bytes option" where
  "flat_loop cd m cap =
     (case capn_write_mem cd m cap of
        Some b \<Rightarrow> Some b
      | None \<Rightarrow> if cap = 0 \<or> cap > 512 * 1024 then None else flat_loop cd m (cap * 2))"
  by pat_completeness auto
termination
  by (relation "measure (\<lambda>(cd, m, cap). 1024 * 1024 + 1 - cap)") auto

declare flat_loop.simps [simp del]

definition write_flat :: "'m codec \<Rightarrow> 'm \<Rightarrow> bytes option" where
  "write_flat cd m = flat_loop cd m 8192"

definition build_policy_decision_reason :: "'m codec \<Rightarrow> nat \<Rightarrow> nat \<Rightarrow> cstring_opt \<Rightarrow> bytes option" where
  "build_policy_decision_reason cd decision code reason =
     (case build_PolicyDecision cd
             \<lparr>pd_decision = decision, pd_reason = ctext (case reason of None \<Rightarrow> Some [] | Some r \<Rightarrow> Some r),
              pd_agentId = None, pd_code = code\<rparr> of
        None \<Rightarrow> None
      | Some m \<Rightarrow> write_flat cd m)"

definition build_policy_decision_code :: "'m codec \<Rightarrow> nat \<Rightarrow> nat \<Rightarrow> bytes option" where
  "build_policy_decision_code cd decision code = build_policy_decision_reason cd decision code (Some [])"

section \<open>The shell view\<close>

record shell_path_probe =
  probe_arg :: string
  probe_resolved :: string
  probe_exists :: bool
  probe_head :: string

definition add_text_bytes :: "64 word \<Rightarrow> 64 word \<Rightarrow> 64 word option" where
  "add_text_bytes acc len =
     (if len > SIZE_MAX - 8 then None
      else
        let n = (len + 1 + 7) AND NOT 7
        in if acc > SIZE_MAX - n then None else Some (acc + n))"

definition add_bytes :: "64 word \<Rightarrow> 64 word \<Rightarrow> 64 word option" where
  "add_bytes acc n = (if acc > SIZE_MAX - n then None else Some (acc + n))"

definition strlen64 :: "string \<Rightarrow> 64 word" where
  "strlen64 s = of_nat (length s)"

fun add_words :: "64 word \<Rightarrow> string list \<Rightarrow> 64 word option" where
  "add_words acc [] = Some acc"
| "add_words acc (x # xs) =
     (case add_text_bytes acc (strlen64 x) of None \<Rightarrow> None | Some a \<Rightarrow> add_words a xs)"

fun add_probes :: "64 word \<Rightarrow> shell_path_probe list \<Rightarrow> 64 word option" where
  "add_probes acc [] = Some acc"
| "add_probes acc (p # ps) =
     (case add_words acc [probe_arg p, probe_resolved p, probe_head p] of
        None \<Rightarrow> None
      | Some a \<Rightarrow> add_probes a ps)"

definition shell_view_segment_bytes ::
  "cstring_opt \<Rightarrow> string list \<Rightarrow> shell_path_probe list \<Rightarrow> 64 word option" where
  "shell_view_segment_bytes cwd words probes =
     (let nwords = of_nat (length words); nprobes = of_nat (length probes)
      in case add_text_bytes (8 + 32 + 8) (case cwd of None \<Rightarrow> 0 | Some c \<Rightarrow> strlen64 c) of
           None \<Rightarrow> None
         | Some acc \<Rightarrow>
             (case (if words = [] then Some acc
                    else if nwords > SIZE_MAX div 8 then None
                    else (case add_bytes acc (nwords * 8) of None \<Rightarrow> None | Some a \<Rightarrow> add_words a words)) of
                None \<Rightarrow> None
              | Some acc1 \<Rightarrow>
                  (case (if probes = [] then Some acc1
                         else if nprobes > SIZE_MAX div 32 then None
                         else (case add_bytes acc1 (nprobes * 32) of None \<Rightarrow> None | Some a \<Rightarrow> add_probes a probes)) of
                     None \<Rightarrow> None
                   | Some acc2 \<Rightarrow> add_bytes acc2 256)))"

text \<open>The results of \<open>phronesis_build_shell_view\<close>: 0, -1, -2 and -3.\<close>

datatype 'a view_rc = ViewOk 'a | ViewFailed | ViewWordTooLong | ViewTooManyWords

text \<open>First pass over argv: validate each word and sum the bytes of the copy.\<close>

fun measure_words :: "capn_text list \<Rightarrow> nat \<Rightarrow> nat view_rc" where
  "measure_words [] bytes = ViewOk bytes"
| "measure_words (t # ts) bytes =
     (if t_len t < 0 \<or> t_len t > 0 \<and> t_str t = None then ViewFailed
      else if nat (t_len t) > PHRONESIS_SHELL_WORD_MAX then ViewWordTooLong
      else if bytes + (nat (t_len t) + 1) > unat SIZE_MAX then ViewFailed
      else measure_words ts (bytes + (nat (t_len t) + 1)))"

text \<open>Second pass: copy each word with a NUL after it. A word is used through its pointer from here on, so it
  ends at its first NUL byte.\<close>

fun copy_words :: "capn_text list \<Rightarrow> nat \<Rightarrow> nat \<Rightarrow> string list option" where
  "copy_words [] off bytes = Some []"
| "copy_words (t # ts) off bytes =
     (if t_len t < 0 \<or> off + nat (t_len t) + 1 > bytes then None
      else map_option ((#) (cstr (text_bytes t))) (copy_words ts (off + nat (t_len t) + 1) bytes))"

definition copy_argv :: "capn_text list \<Rightarrow> string list view_rc" where
  "copy_argv argv =
     (if argv = [] then ViewOk []
      else if length argv > PHRONESIS_SHELL_ARGV_MAX then ViewTooManyWords
      else
        (case measure_words argv 0 of
           ViewOk bytes \<Rightarrow> (case copy_words argv 0 bytes of None \<Rightarrow> ViewFailed | Some ws \<Rightarrow> ViewOk ws)
         | ViewFailed \<Rightarrow> ViewFailed
         | ViewWordTooLong \<Rightarrow> ViewWordTooLong
         | ViewTooManyWords \<Rightarrow> ViewTooManyWords))"

text \<open>The probe of one word, or \<open>None\<close> where the loop continues without one.\<close>

definition probe_word :: "world \<Rightarrow> cstring_opt \<Rightarrow> cstring_opt \<Rightarrow> string \<Rightarrow> shell_path_probe option" where
  "probe_word w workspace cwd tok =
     (if tok = [] \<or> cstr_at tok 0 = CHR ''-'' then None
      else if slash \<notin> set tok \<and> dot \<notin> set tok then None
      else if length tok \<ge> PHRONESIS_PATH_MAX then None
      else
        (case phronesis_resolve_script cwd (Some tok) PHRONESIS_PATH_MAX of
           None \<Rightarrow> None
         | Some ab \<Rightarrow>
             if \<not> pack_path_under_workspace workspace (Some ab) then None
             else if length ab \<ge> PHRONESIS_PATH_MAX then None
             else
               (case fopen_r w ab of
                  None \<Rightarrow> Some \<lparr>probe_arg = tok, probe_resolved = ab, probe_exists = False, probe_head = []\<rparr>
                | Some b \<Rightarrow>
                    Some \<lparr>probe_arg = tok, probe_resolved = ab, probe_exists = True,
                          probe_head = cstr (take (SHELL_HEAD_MAX - 1) b)\<rparr>)))"

fun probe_loop :: "world \<Rightarrow> cstring_opt \<Rightarrow> cstring_opt \<Rightarrow> nat \<Rightarrow> nat \<Rightarrow> string list \<Rightarrow> shell_path_probe list" where
  "probe_loop w workspace cwd probe_cap pcount [] = []"
| "probe_loop w workspace cwd probe_cap pcount (tok # toks) =
     (if pcount \<ge> probe_cap then []
      else
        (case probe_word w workspace cwd tok of
           None \<Rightarrow> probe_loop w workspace cwd probe_cap pcount toks
         | Some p \<Rightarrow> p # probe_loop w workspace cwd probe_cap (Suc pcount) toks))"

definition probes_of :: "world \<Rightarrow> cstring_opt \<Rightarrow> cstring_opt \<Rightarrow> string list \<Rightarrow> shell_path_probe list" where
  "probes_of w workspace cwd words = probe_loop w workspace cwd (min (length words) SHELL_PROBE_MAX) 0 words"

definition probe_msg :: "shell_path_probe \<Rightarrow> path_probe" where
  "probe_msg p =
     \<lparr>pp_arg = ctext (Some (probe_arg p)), pp_resolved = ctext (Some (probe_resolved p)),
      pp_exists = probe_exists p, pp_head = ctext (Some (probe_head p))\<rparr>"

definition view_msg :: "world \<Rightarrow> cstring_opt \<Rightarrow> cstring_opt \<Rightarrow> string list \<Rightarrow> shell_view" where
  "view_msg w workspace cwd words =
     \<lparr>sv_underWorkspace = (nonempty cwd \<and> pack_path_under_workspace workspace cwd),
      sv_cwd = ctext (case cwd of None \<Rightarrow> Some [] | Some c \<Rightarrow> Some c),
      sv_argv = map (\<lambda>x. ctext (Some x)) words,
      sv_pathProbes = map probe_msg (probes_of w workspace cwd words)\<rparr>"

definition phronesis_build_shell_view ::
  "'m codec \<Rightarrow> world \<Rightarrow> cstring_opt \<Rightarrow> cstring_opt \<Rightarrow> capn_text list \<Rightarrow> bytes view_rc" where
  "phronesis_build_shell_view cd w workspace cwd argv =
     (case copy_argv argv of
        ViewOk words \<Rightarrow>
          (case shell_view_segment_bytes cwd words (probes_of w workspace cwd words) of
             None \<Rightarrow> ViewFailed
           | Some need \<Rightarrow>
               if unat need > INT_MAX - 4096 then ViewFailed
               else
                 (case build_ShellView cd (unat need) (view_msg w workspace cwd words) of
                    None \<Rightarrow> ViewFailed
                  | Some m \<Rightarrow> (case write_flat cd m of None \<Rightarrow> ViewFailed | Some b \<Rightarrow> ViewOk b)))
      | ViewFailed \<Rightarrow> ViewFailed
      | ViewWordTooLong \<Rightarrow> ViewWordTooLong
      | ViewTooManyWords \<Rightarrow> ViewTooManyWords)"

section \<open>Writing a message\<close>

lemma flat_loop_writes:
  assumes wr: "writes cd m b"
  shows "k \<le> 7 \<Longrightarrow> flat_loop cd m (8192 * 2 ^ k) = (if length b \<le> 1024 * 1024 then Some b else None)"
proof (induction "7 - k" arbitrary: k)
  case 0
  then have "k = 7" by simp
  then show ?case using wr by (subst flat_loop.simps) (simp add: writes_def)
next
  case (Suc j)
  have IH: "flat_loop cd m (8192 * 2 ^ Suc k) = (if length b \<le> 1024 * 1024 then Some b else None)"
    using Suc.hyps Suc.prems by (metis Suc_diff_Suc Suc_leI diff_Suc_Suc diff_is_0_eq' nat.inject not_less zero_less_Suc zero_less_diff)
  have k: "k \<le> 6" using Suc.hyps by simp
  have "(2::nat) ^ k \<le> 2 ^ 6" using k by (intro power_increasing) auto
  then have "8192 * 2 ^ k \<le> (524288 :: nat)" by simp
  then show ?case using wr IH by (subst flat_loop.simps) (auto simp: writes_def mult.commute)
qed

lemma write_flat_writes: "writes cd m b \<Longrightarrow> write_flat cd m = (if length b \<le> 1024 * 1024 then Some b else None)"
  using flat_loop_writes [of cd m b 0] by (simp add: write_flat_def)

lemma host_decision_says:
  assumes "decision_codec cd" "host_decision d"
  shows "\<exists>m b. build_PolicyDecision cd d = Some m \<and> writes cd m b \<and> length b \<le> 8192 \<and> says cd (Some b) d"
  using assms unfolding decision_codec_def small_message_def says_def by blast

lemma build_decision_says:
  assumes "decision_codec cd" "decision < 65536" "code < 65536" "length r \<le> 80"
  shows "says cd (build_policy_decision_reason cd decision code (Some r))
    \<lparr>pd_decision = decision, pd_reason = ctext (Some r), pd_agentId = None, pd_code = code\<rparr>"
proof -
  let ?d = "\<lparr>pd_decision = decision, pd_reason = ctext (Some r), pd_agentId = None, pd_code = code\<rparr>"
  have "host_decision ?d" using assms(2-4) by (auto simp: host_decision_def)
  then obtain m b where m: "build_PolicyDecision cd ?d = Some m" "writes cd m b" "length b \<le> 8192" "says cd (Some b) ?d"
    using host_decision_says [OF assms(1)] by blast
  have "write_flat cd m = Some b" using write_flat_writes [OF m(2)] m(3) by simp
  then show ?thesis using m by (simp add: build_policy_decision_reason_def)
qed

section \<open>The size of the segment\<close>

text \<open>What a text takes in the arena: its bytes, a NUL, rounded up to a word of eight bytes.\<close>

definition text_block :: "nat \<Rightarrow> nat" where
  "text_block n = 8 * (n div 8 + 1)"

lemma and_not_7: "((x :: 64 word) AND NOT 7) = push_bit 3 (drop_bit 3 x)"
proof -
  have m: "(7 :: 64 word) = mask 3" by (simp add: mask_eq_exp_minus_1)
  show ?thesis unfolding m by (rule bit_eqI) (auto simp: bit_simps)
qed

lemma round_to_8:
  assumes "n < 2 ^ 64"
  shows "((of_nat n :: 64 word) AND NOT 7) = of_nat (8 * (n div 8))"
proof -
  have "drop_bit 3 (of_nat n :: 64 word) = of_nat (n div 8)"
    using assms by (simp add: word_unat_eq_iff unat_drop_bit_eq unat_of_nat drop_bit_eq_div unat_div_distrib)
  then show ?thesis unfolding and_not_7 by (simp add: push_bit_eq_mult mult.commute)
qed

lemma SIZE_MAX_minus:
  assumes "a < 2 ^ 64" "n < 2 ^ 64"
  shows "((of_nat a :: 64 word) > SIZE_MAX - of_nat n) \<longleftrightarrow> a + n \<ge> 2 ^ 64"
proof -
  have "(SIZE_MAX - of_nat n) = of_nat (2 ^ 64 - 1 - n)"
    using assms(2) by (simp add: SIZE_MAX_def of_nat_diff)
  then have "unat (SIZE_MAX - of_nat n) = unat (of_nat (2 ^ 64 - 1 - n) :: 64 word)" by (simp only:)
  then have "unat (SIZE_MAX - of_nat n) = 2 ^ 64 - 1 - n" by (simp add: unat_of_nat)
  then show ?thesis using assms by (auto simp: word_less_nat_alt unat_of_nat)
qed

text \<open>The ideal of both additions: exact, or refused when the sum does not fit \<open>size_t\<close>.\<close>

definition add_exact :: "nat \<Rightarrow> nat \<Rightarrow> 64 word option" where
  "add_exact a n = (if a + n < 2 ^ 64 then Some (of_nat (a + n)) else None)"

lemma add_bytes_exact: "a < 2 ^ 64 \<Longrightarrow> n < 2 ^ 64 \<Longrightarrow> add_bytes (of_nat a) (of_nat n) = add_exact a n"
  using SIZE_MAX_minus [of a n] by (simp add: add_bytes_def add_exact_def)

lemma add_text_bytes_exact:
  assumes a: "a < 2 ^ 64" and n: "n < 2 ^ 64"
  shows "add_text_bytes (of_nat a) (of_nat n) = add_exact a (text_block n)"
proof (cases "n + 8 < 2 ^ 64")
  case True
  have small: "\<not> (of_nat n :: 64 word) > SIZE_MAX - 8" using SIZE_MAX_minus [of n 8] n True by simp
  have "(of_nat n + 1 + 7 :: 64 word) = of_nat (n + 8)" by simp
  moreover have "8 * ((n + 8) div 8) = text_block n" unfolding text_block_def by presburger
  ultimately have r: "((of_nat n + 1 + 7 :: 64 word) AND NOT 7) = of_nat (text_block n)"
    using round_to_8 [OF True] by metis
  have "text_block n < 2 ^ 64" using True by (simp add: text_block_def)
  then show ?thesis
    using small SIZE_MAX_minus [OF a] unfolding add_text_bytes_def r by (simp add: add_exact_def)
next
  case False
  then have big: "(of_nat n :: 64 word) > SIZE_MAX - 8" using SIZE_MAX_minus [of n 8] n by simp
  have "text_block n \<ge> 2 ^ 64" using False by (simp add: text_block_def)
  then show ?thesis using big by (simp add: add_text_bytes_def add_exact_def)
qed

definition words_size :: "string list \<Rightarrow> nat" where
  "words_size xs = sum_list (map (\<lambda>x. text_block (length x)) xs)"

definition probe_texts :: "shell_path_probe \<Rightarrow> string list" where
  "probe_texts p = [probe_arg p, probe_resolved p, probe_head p]"

definition in_memory :: "string list \<Rightarrow> bool" where
  "in_memory xs \<longleftrightarrow> length xs < 2 ^ 64 \<and> (\<forall>x \<in> set xs. length x < 2 ^ 64)"

lemma add_words_exact:
  "a < 2 ^ 64 \<Longrightarrow> \<forall>x \<in> set xs. length x < 2 ^ 64 \<Longrightarrow> add_words (of_nat a) xs = add_exact a (words_size xs)"
proof (induction xs arbitrary: a)
  case Nil
  then show ?case by (simp add: add_exact_def words_size_def)
next
  case (Cons x xs)
  have step: "add_text_bytes (of_nat a) (strlen64 x) = add_exact a (text_block (length x))"
    using add_text_bytes_exact Cons.prems by (simp add: strlen64_def)
  show ?case
  proof (cases "a + text_block (length x) < 2 ^ 64")
    case True
    then have "add_words (of_nat (a + text_block (length x))) xs = add_exact (a + text_block (length x)) (words_size xs)"
      using Cons.IH [of "a + text_block (length x)"] Cons.prems(2) by (metis list.set_intros(2))
    then show ?thesis using True by (simp add: step add_exact_def words_size_def add.assoc)
  next
    case False
    then show ?thesis by (simp add: step add_exact_def words_size_def)
  qed
qed

lemma add_probes_words: "add_probes acc ps = add_words acc (concat (map probe_texts ps))"
  by (induction ps arbitrary: acc) (auto simp: probe_texts_def split: option.splits)

lemma add_exact_then:
  assumes "a + n < 2 ^ 64 \<Longrightarrow> F (of_nat (a + n)) = add_exact (a + n) k"
  shows "(case add_exact a n of None \<Rightarrow> None | Some x \<Rightarrow> F x) = add_exact a (n + k)"
  using assms by (auto simp: add_exact_def add.assoc)

lemma SIZE_MAX_unat: "unat SIZE_MAX = 18446744073709551615"
proof -
  have "SIZE_MAX = of_nat 18446744073709551615" by (simp add: SIZE_MAX_def)
  then have "unat SIZE_MAX = unat (of_nat 18446744073709551615 :: 64 word)" by (simp only:)
  then show ?thesis by (simp only: unat_of_nat) simp
qed

text \<open>A list of \<open>n\<close> elements: \<open>c\<close> bytes for each, with the test against overflow of the product, then the rest.\<close>

lemma counted_exact:
  assumes a: "a < 2 ^ 64" and n: "n < 2 ^ 64" and c: "c = 8 \<and> C = 8 \<or> c = 32 \<and> C = (32 :: 64 word)"
    and G: "\<And>b. b < 2 ^ 64 \<Longrightarrow> G (of_nat b) = add_exact b k" and e: "emp \<Longrightarrow> n = 0 \<and> k = 0"
  shows "(if emp then Some (of_nat a)
     else if (of_nat n :: 64 word) > SIZE_MAX div C then None
     else (case add_bytes (of_nat a) (of_nat n * C) of None \<Rightarrow> None | Some b \<Rightarrow> G b)) = add_exact a (c * n + k)"
proof -
  have d: "unat (SIZE_MAX div C) = 18446744073709551615 div c"
    using c by (auto simp: unat_div_distrib SIZE_MAX_unat)
  have big: "(of_nat n :: 64 word) > SIZE_MAX div C \<longleftrightarrow> c * n \<ge> 2 ^ 64"
    using c n d by (auto simp: word_less_nat_alt unat_of_nat)
  show ?thesis
  proof (cases "emp \<or> c * n \<ge> 2 ^ 64")
    case True
    then show ?thesis using big e a by (auto simp: add_exact_def)
  next
    case False
    have p: "of_nat n * C = of_nat (c * n)" using c by (auto simp: mult.commute)
    have "add_bytes (of_nat a) (of_nat n * C) = add_exact a (c * n)"
      unfolding p using False by (intro add_bytes_exact a) simp
    moreover have "(case add_exact a (c * n) of None \<Rightarrow> None | Some b \<Rightarrow> G b) = add_exact a (c * n + k)"
      by (rule add_exact_then) (rule G)
    ultimately show ?thesis using False big by simp
  qed
qed

section \<open>Argv\<close>

text \<open>A text as the generated readers return it: no negative length, and bytes when it is not empty.\<close>

definition text_wf :: "capn_text \<Rightarrow> bool" where
  "text_wf t \<longleftrightarrow> 0 \<le> t_len t \<and> (t_len t > 0 \<longrightarrow> t_str t \<noteq> None)"

definition copy_size :: "capn_text list \<Rightarrow> nat" where
  "copy_size ts = sum_list (map (\<lambda>t. nat (t_len t) + 1) ts)"

lemma copy_size_bound:
  "\<forall>t \<in> set ts. nat (t_len t) \<le> PHRONESIS_SHELL_WORD_MAX \<Longrightarrow> copy_size ts \<le> length ts * (PHRONESIS_SHELL_WORD_MAX + 1)"
  by (induction ts) (auto simp: copy_size_def)

lemma measure_words_ok:
  assumes "\<forall>t \<in> set ts. text_wf t \<and> nat (t_len t) \<le> PHRONESIS_SHELL_WORD_MAX" "n + copy_size ts \<le> unat SIZE_MAX"
  shows "measure_words ts n = ViewOk (n + copy_size ts)"
  using assms
proof (induction ts arbitrary: n)
  case Nil
  then show ?case by (simp add: copy_size_def)
next
  case (Cons t ts)
  have t: "text_wf t" "nat (t_len t) \<le> PHRONESIS_SHELL_WORD_MAX" using Cons.prems(1) by auto
  have s: "n + copy_size (t # ts) = n + (nat (t_len t) + 1) + copy_size ts" by (simp add: copy_size_def)
  have "measure_words ts (n + (nat (t_len t) + 1)) = ViewOk (n + copy_size (t # ts))"
    using Cons.IH [of "n + (nat (t_len t) + 1)"] Cons.prems s by auto
  moreover have "\<not> n + (nat (t_len t) + 1) > unat SIZE_MAX" using Cons.prems(2) s by simp
  moreover have "\<not> (t_len t < 0 \<or> t_len t > 0 \<and> t_str t = None)" using t(1) by (auto simp: text_wf_def)
  ultimately show ?case using t(2) by simp
qed

lemma measure_words_long:
  assumes "\<forall>t \<in> set ts. text_wf t" "\<exists>t \<in> set ts. nat (t_len t) > PHRONESIS_SHELL_WORD_MAX"
    "n + length ts * (PHRONESIS_SHELL_WORD_MAX + 1) \<le> unat SIZE_MAX"
  shows "measure_words ts n = ViewWordTooLong"
  using assms
proof (induction ts arbitrary: n)
  case (Cons t ts)
  show ?case
  proof (cases "nat (t_len t) > PHRONESIS_SHELL_WORD_MAX")
    case True
    then show ?thesis using Cons.prems(1) by (simp add: text_wf_def)
  next
    case False
    then have "measure_words ts (n + (nat (t_len t) + 1)) = ViewWordTooLong"
      using Cons.prems by (intro Cons.IH) auto
    moreover have "\<not> n + (nat (t_len t) + 1) > unat SIZE_MAX" using Cons.prems(3) False by simp
    ultimately show ?thesis using False Cons.prems(1) by (simp add: text_wf_def)
  qed
qed simp

lemma copy_words_ok:
  assumes "\<forall>t \<in> set ts. text_wf t" "off + copy_size ts \<le> bytes"
  shows "copy_words ts off bytes = Some (map (\<lambda>t. cstr (text_bytes t)) ts)"
  using assms
proof (induction ts arbitrary: off)
  case (Cons t ts)
  have "off + nat (t_len t) + 1 + copy_size ts \<le> bytes" using Cons.prems(2) by (simp add: copy_size_def)
  then have "copy_words ts (off + nat (t_len t) + 1) bytes = Some (map (\<lambda>t. cstr (text_bytes t)) ts)"
    using Cons.IH Cons.prems(1) by simp
  then show ?case using Cons.prems by (simp add: text_wf_def copy_size_def)
qed simp

lemma copy_argv_spec:
  assumes wf: "\<forall>t \<in> set argv. text_wf t"
  shows "copy_argv argv =
    (if length argv > PHRONESIS_SHELL_ARGV_MAX then ViewTooManyWords
     else if \<exists>t \<in> set argv. nat (t_len t) > PHRONESIS_SHELL_WORD_MAX then ViewWordTooLong
     else ViewOk (map (\<lambda>t. cstr (text_bytes t)) argv))"
proof (cases "argv = [] \<or> length argv > PHRONESIS_SHELL_ARGV_MAX")
  case True
  then show ?thesis by (auto simp: copy_argv_def PHRONESIS_SHELL_ARGV_MAX_def)
next
  case False
  have "length argv * (PHRONESIS_SHELL_WORD_MAX + 1) \<le> PHRONESIS_SHELL_ARGV_MAX * (PHRONESIS_SHELL_WORD_MAX + 1)"
    using False by (intro mult_le_mono1) simp
  then have fit: "length argv * (PHRONESIS_SHELL_WORD_MAX + 1) \<le> unat SIZE_MAX"
    by (simp add: SIZE_MAX_unat PHRONESIS_SHELL_WORD_MAX_def PHRONESIS_SHELL_ARGV_MAX_def)
  show ?thesis
  proof (cases "\<exists>t \<in> set argv. nat (t_len t) > PHRONESIS_SHELL_WORD_MAX")
    case True
    then have "measure_words argv 0 = ViewWordTooLong" using measure_words_long [OF wf True, of 0] fit by simp
    then show ?thesis using True False by (simp add: copy_argv_def)
  next
    case small: False
    then have ok: "\<forall>t \<in> set argv. text_wf t \<and> nat (t_len t) \<le> PHRONESIS_SHELL_WORD_MAX" using wf by auto
    then have "copy_size argv \<le> unat SIZE_MAX" using copy_size_bound [of argv] fit by (meson le_trans)
    then have "measure_words argv 0 = ViewOk (copy_size argv)" using measure_words_ok [OF ok, of 0] by simp
    moreover have "copy_words argv 0 (copy_size argv) = Some (map (\<lambda>t. cstr (text_bytes t)) argv)"
      using copy_words_ok [OF wf, of 0] by simp
    ultimately show ?thesis using False small by (simp add: copy_argv_def)
  qed
qed

section \<open>Probes\<close>

lemma pack_path_under_workspace_split:
  assumes "NUL \<notin> set p"
  shows "pack_path_under_workspace (Some r) (Some p) \<longleftrightarrow>
    r \<noteq> [] \<and> cstr_at p 0 = slash \<and> (\<exists>rest. p = trim_root 1 r @ rest \<and> (rest = [] \<or> hd rest = slash))"
  using boundary_iff [OF assms, of r 1]
  by (cases p) (auto simp: pack_path_under_workspace_def Let_def nonempty_def)

interpretation view_scope: rooted_scope "\<lambda>r p. pack_path_under_workspace (Some r) (Some p)" "trim_root 1"
  by unfold_locales (simp_all add: pack_path_under_workspace_split)

lemma probe_word_facts:
  assumes "probe_word w ws cwd tok = Some p"
  shows "probe_arg p = tok" "pack_path_under_workspace ws (Some (probe_resolved p))"
    "phronesis_resolve_script cwd (Some tok) PHRONESIS_PATH_MAX = Some (probe_resolved p)"
    "length (probe_head p) < SHELL_HEAD_MAX" "NUL \<notin> set (probe_head p)"
    "probe_exists p = (fopen_r w (probe_resolved p) \<noteq> None)"
proof -
  have "length (cstr (take (SHELL_HEAD_MAX - 1) b)) < SHELL_HEAD_MAX" for b
    using length_takeWhile_le [of "\<lambda>c. c \<noteq> NUL" "take (SHELL_HEAD_MAX - 1) b"]
    by (simp add: cstr_def SHELL_HEAD_MAX_def)
  moreover have "NUL \<notin> set (cstr b)" for b by (auto simp: cstr_def dest: set_takeWhileD)
  ultimately show "probe_arg p = tok" "pack_path_under_workspace ws (Some (probe_resolved p))"
    "phronesis_resolve_script cwd (Some tok) PHRONESIS_PATH_MAX = Some (probe_resolved p)"
    "length (probe_head p) < SHELL_HEAD_MAX" "NUL \<notin> set (probe_head p)"
    "probe_exists p = (fopen_r w (probe_resolved p) \<noteq> None)"
    using assms by (auto simp: probe_word_def SHELL_HEAD_MAX_def split: if_splits option.splits)
qed

lemma probe_loop_take:
  "probe_loop w ws cwd lim k toks = take (lim - k) (List.map_filter (probe_word w ws cwd) toks)"
proof (induction toks arbitrary: k)
  case (Cons t ts)
  show ?case
  proof (cases "lim - k")
    case (Suc n)
    then have "lim - Suc k = n" "k < lim" by simp_all
    then show ?thesis using Cons.IH Suc by (simp add: List.map_filter_simps split: option.splits)
  qed simp
qed (simp add: List.map_filter_simps)

lemma probes_of_take: "probes_of w ws cwd words = take SHELL_PROBE_MAX (List.map_filter (probe_word w ws cwd) words)"
proof -
  have "length (List.map_filter f xs) \<le> length xs" for f :: "string \<Rightarrow> shell_path_probe option" and xs
    by (induction xs) (auto simp: List.map_filter_simps split: option.splits)
  then have "length words \<le> SHELL_PROBE_MAX \<Longrightarrow> length (List.map_filter (probe_word w ws cwd) words) \<le> SHELL_PROBE_MAX"
    by (meson le_trans)
  then show ?thesis using \<open>\<And>xs f. length (List.map_filter f xs) \<le> length xs\<close> by (simp add: probes_of_def probe_loop_take min_def)
qed

section \<open>The exact size\<close>

lemma segment_bytes:
  assumes c: "length cwd < 2 ^ 64" and ws: "in_memory words" and pn: "length probes < 2 ^ 64"
    and pt: "in_memory (concat (map probe_texts probes))"
  shows "shell_view_segment_bytes (Some cwd) words probes =
    add_exact 0 (304 + text_block (length cwd) + (8 * length words + words_size words)
       + (32 * length probes + words_size (concat (map probe_texts probes))))"
proof -
  let ?W = "words_size words" and ?P = "words_size (concat (map probe_texts probes))"
  have "words = [] \<Longrightarrow> length words = 0 \<and> ?W = 0" by (simp add: words_size_def)
  then have W: "(if words = [] then Some (of_nat a) else if (of_nat (length words) :: 64 word) > SIZE_MAX div 8 then None
      else (case add_bytes (of_nat a) (of_nat (length words) * 8) of None \<Rightarrow> None | Some x \<Rightarrow> add_words x words))
    = add_exact a (8 * length words + ?W)" if "a < 2 ^ 64" for a
    using that ws add_words_exact by (intro counted_exact) (auto simp: in_memory_def)
  have "probes = [] \<Longrightarrow> length probes = 0 \<and> ?P = 0" by (simp add: words_size_def)
  then have P: "(if probes = [] then Some (of_nat a) else if (of_nat (length probes) :: 64 word) > SIZE_MAX div 32 then None
      else (case add_bytes (of_nat a) (of_nat (length probes) * 32) of None \<Rightarrow> None | Some x \<Rightarrow> add_probes x probes))
    = add_exact a (32 * length probes + ?P)" if "a < 2 ^ 64" for a
    using that pn pt add_words_exact by (intro counted_exact) (auto simp: in_memory_def add_probes_words)
  have E: "add_bytes (of_nat a) 256 = add_exact a 256" if "a < 2 ^ 64" for a
    using add_bytes_exact [OF that, of 256] by simp
  have T: "add_text_bytes (8 + 32 + 8) (strlen64 cwd) = add_exact 48 (text_block (length cwd))"
    using add_text_bytes_exact [of 48 "length cwd"] c by (simp add: strlen64_def)
  have "shell_view_segment_bytes (Some cwd) words probes =
    add_exact 48 (text_block (length cwd) + (8 * length words + ?W + (32 * length probes + ?P + 256)))"
    unfolding shell_view_segment_bytes_def Let_def option.case T
    by (intro add_exact_then) (simp only: W, intro add_exact_then, simp only: P, intro add_exact_then, rule E)
  then show ?thesis by (simp add: add_exact_def algebra_simps)
qed

lemma resolve_script_length: "phronesis_resolve_script cwd script n = Some p \<Longrightarrow> length p < n"
  by (auto simp: phronesis_resolve_script_def Let_def trim_len_le min_def split: option.splits if_splits)

lemma set_map_filter: "y \<in> set (List.map_filter f xs) \<longleftrightarrow> (\<exists>x \<in> set xs. f x = Some y)"
  by (induction xs) (auto simp: List.map_filter_simps split: option.splits)

lemma probes_of_facts:
  assumes "p \<in> set (probes_of w ws cwd words)"
  obtains tok where "tok \<in> set words" "probe_word w ws cwd tok = Some p"
  using assms set_take_subset by (fastforce simp: probes_of_take set_map_filter)

lemma probe_texts_bound:
  assumes "p \<in> set (probes_of w ws cwd words)" "x \<in> set (probe_texts p)"
  shows "length x < 8192"
proof -
  obtain tok where tok: "probe_word w ws cwd tok = Some p" using probes_of_facts [OF assms(1)] by blast
  have "length tok < PHRONESIS_PATH_MAX" using tok by (auto simp: probe_word_def split: if_splits)
  moreover have "length (probe_resolved p) < PHRONESIS_PATH_MAX" using resolve_script_length probe_word_facts(3) [OF tok] by blast
  ultimately show ?thesis
    using assms(2) probe_word_facts(1,4) [OF tok]
    by (auto simp: probe_texts_def PHRONESIS_PATH_MAX_def SHELL_HEAD_MAX_def)
qed

definition view_size :: "string \<Rightarrow> string list \<Rightarrow> shell_path_probe list \<Rightarrow> nat" where
  "view_size cwd words probes =
     304 + text_block (length cwd) + (8 * length words + words_size words)
       + (32 * length probes + words_size (concat (map probe_texts probes)))"

lemma words_size_bound:
  assumes "\<forall>x \<in> set xs. length x \<le> n"
  shows "words_size xs \<le> length xs * (n + 8)"
  using assms
proof (induction xs)
  case (Cons x xs)
  have "text_block (length x) \<le> n + 8" using Cons.prems by (auto simp: text_block_def)
  then show ?case using Cons by (auto simp: words_size_def)
qed (simp add: words_size_def)

lemma probes_in_memory:
  "length (probes_of w ws cwd words) \<le> 32" "in_memory (concat (map probe_texts (probes_of w ws cwd words)))"
proof -
  show l: "length (probes_of w ws cwd words) \<le> 32" by (simp add: probes_of_take SHELL_PROBE_MAX_def)
  have "length (concat (map probe_texts ps)) = 3 * length ps" for ps by (induction ps) (auto simp: probe_texts_def)
  moreover have "\<forall>x \<in> set (concat (map probe_texts (probes_of w ws cwd words))). length x < 8192"
    using probe_texts_bound by fastforce
  moreover have "(8192 :: nat) < 2 ^ 64" by simp
  ultimately show "in_memory (concat (map probe_texts (probes_of w ws cwd words)))"
    unfolding in_memory_def using l less_trans by fastforce
qed

lemma shell_view_eq:
  assumes wf: "\<forall>t \<in> set argv. text_wf t" and c: "length cwd < 2 ^ 32"
  shows "phronesis_build_shell_view cd w ws (Some cwd) argv =
    (if length argv > 32768 then ViewTooManyWords
     else if \<exists>t \<in> set argv. nat (t_len t) > 131072 then ViewWordTooLong
     else
       let words = map (\<lambda>t. cstr (text_bytes t)) argv;
           n = view_size cwd words (probes_of w ws (Some cwd) words)
       in if n > INT_MAX - 4096 then ViewFailed
          else (case Option.bind (build_ShellView cd n (view_msg w ws (Some cwd) words)) (write_flat cd) of
                  None \<Rightarrow> ViewFailed | Some b \<Rightarrow> ViewOk b))"
proof (cases "length argv > 32768 \<or> (\<exists>t \<in> set argv. nat (t_len t) > 131072)")
  case True
  then show ?thesis
    using copy_argv_spec [OF wf]
    by (auto simp: phronesis_build_shell_view_def PHRONESIS_SHELL_ARGV_MAX_def PHRONESIS_SHELL_WORD_MAX_def)
next
  case False
  define words where "words = map (\<lambda>t. cstr (text_bytes t)) argv"
  let ?ps = "probes_of w ws (Some cwd) words"
  have cp: "copy_argv argv = ViewOk words"
    using copy_argv_spec [OF wf] False by (simp add: words_def PHRONESIS_SHELL_ARGV_MAX_def PHRONESIS_SHELL_WORD_MAX_def)
  have wl: "\<forall>x \<in> set words. length x \<le> 131072"
  proof
    fix x assume "x \<in> set words"
    then obtain t where t: "t \<in> set argv" "x = cstr (text_bytes t)" by (auto simp: words_def)
    have "length (text_bytes t) \<le> 131072" using False t(1) by (auto simp: text_bytes_def text_len_def min_def)
    then show "length x \<le> 131072" using t(2) length_takeWhile_le le_trans by (fastforce simp: cstr_def)
  qed
  have wn: "length words \<le> 32768" using False by (simp add: words_def)
  have mem: "in_memory words" using wl wn by (fastforce simp: in_memory_def)
  have size: "view_size cwd words ?ps < 2 ^ 64"
  proof -
    let ?ts = "concat (map probe_texts ?ps)"
    have "words_size words \<le> 32768 * 131080"
      using words_size_bound [OF wl] mult_le_mono1 [OF wn, of 131080] by simp
    moreover have "length (concat (map probe_texts ps)) = 3 * length ps" for ps by (induction ps) (auto simp: probe_texts_def)
    then have "length ?ts \<le> 96" using probes_in_memory(1) [of w ws "Some cwd" words] by simp
    then have "words_size ?ts \<le> 96 * 8200"
      using words_size_bound [of ?ts 8192] probe_texts_bound [of _ w ws "Some cwd" words] mult_le_mono1 [of "length ?ts" 96 8200]
      by fastforce
    moreover have "text_block (length cwd) \<le> 2 ^ 32 + 8" using c by (simp add: text_block_def)
    ultimately show ?thesis using wn probes_in_memory(1) [of w ws "Some cwd" words] by (simp add: view_size_def)
  qed
  have "shell_view_segment_bytes (Some cwd) words ?ps = add_exact 0 (view_size cwd words ?ps)"
    unfolding view_size_def using mem probes_in_memory [of w ws "Some cwd" words] c by (intro segment_bytes) auto
  then have seg: "shell_view_segment_bytes (Some cwd) words ?ps = Some (of_nat (view_size cwd words ?ps))"
    using size by (simp add: add_exact_def)
  have un: "unat (of_nat (view_size cwd words ?ps) :: 64 word) = view_size cwd words ?ps" using size by (simp add: unat_of_nat)
  have "phronesis_build_shell_view cd w ws (Some cwd) argv =
     (if view_size cwd words ?ps > INT_MAX - 4096 then ViewFailed
      else (case Option.bind (build_ShellView cd (view_size cwd words ?ps) (view_msg w ws (Some cwd) words)) (write_flat cd) of
              None \<Rightarrow> ViewFailed | Some b \<Rightarrow> ViewOk b))"
    unfolding phronesis_build_shell_view_def cp view_rc.case seg option.case un by (simp split: option.split)
  then show ?thesis using False unfolding words_def Let_def by simp
qed

text \<open>The two errors for oversized argv, and nothing else, from the sizes alone.\<close>

lemma view_limits:
  assumes "\<forall>t \<in> set argv. text_wf t" "length cwd < 2 ^ 32"
  shows "(phronesis_build_shell_view cd w ws (Some cwd) argv = ViewTooManyWords \<longleftrightarrow> length argv > 32768)
    \<and> (phronesis_build_shell_view cd w ws (Some cwd) argv = ViewWordTooLong \<longleftrightarrow>
         length argv \<le> 32768 \<and> (\<exists>t \<in> set argv. t_len t > 131072))"
proof -
  have "nat (t_len t) > 131072 \<longleftrightarrow> t_len t > 131072" for t by auto
  then show ?thesis unfolding shell_view_eq [OF assms] Let_def by (auto split: option.split)
qed

section \<open>What a probe is\<close>

text \<open>The specification of a probe, written without the loops of the code. A root loses its slashes at the end, but
  never its first byte; a word that is not absolute goes below the working directory; and a path is below a
  root when it is the root, or goes on with a slash.\<close>

definition stripped :: "string \<Rightarrow> string" where
  "stripped s = (let t = rev (dropWhile (\<lambda>c. c = slash) (rev s)) in if t = [] then take 1 s else t)"

definition text_below :: "string \<Rightarrow> string \<Rightarrow> bool" where
  "text_below root p \<longleftrightarrow> root \<noteq> [] \<and> p \<noteq> [] \<and> hd p = slash \<and> prefix (stripped root) p
     \<and> (drop (length (stripped root)) p = [] \<or> hd (drop (length (stripped root)) p) = slash)"

definition joined :: "string \<Rightarrow> string \<Rightarrow> string" where
  "joined cwd tok = (if hd tok = slash then tok else stripped cwd @ slash # tok)"

definition path_like :: "string \<Rightarrow> bool" where
  "path_like tok \<longleftrightarrow> tok \<noteq> [] \<and> hd tok \<noteq> CHR ''-'' \<and> (slash \<in> set tok \<or> dot \<in> set tok)"

definition probe_spec :: "world \<Rightarrow> string \<Rightarrow> string \<Rightarrow> string \<Rightarrow> shell_path_probe option" where
  "probe_spec w ws cwd tok =
     (let r = joined cwd tok
      in if path_like tok \<and> length tok < 512 \<and> length r < 512 \<and> (hd tok = slash \<or> cwd \<noteq> [] \<and> hd cwd = slash) \<and> text_below ws r
         then Some \<lparr>probe_arg = tok, probe_resolved = r, probe_exists = (fopen_r w r \<noteq> None),
                    probe_head = (case fopen_r w r of None \<Rightarrow> [] | Some b \<Rightarrow> takeWhile (\<lambda>c. c \<noteq> NUL) (take 8191 b))\<rparr>
         else None)"

lemma trim_root_stripped: "trim_root 1 s = stripped s"
proof (cases "s = []")
  case False
  obtain t where t: "s = trim_root 1 s @ t" "set t \<subseteq> {slash}" using trim_root_decomp by blast
  let ?u = "trim_root 1 s"
  have d: "dropWhile (\<lambda>c. c = slash) (rev s) = dropWhile (\<lambda>c. c = slash) (rev ?u)"
    using t(2) by (subst t(1)) (auto simp: dropWhile_append)
  have len: "length ?u = trim_len 1 s (length s)" by (rule length_trim_root)
  have "1 \<le> length ?u" unfolding len using False by (intro trim_len_ge) (cases s; simp)
  then obtain v x where u: "?u = v @ [x]" by (cases ?u rule: rev_cases) auto
  show ?thesis
  proof (cases v)
    case Nil
    then have "take 1 s = [x]" using t(1) u by (metis append_Cons append_Nil take_Suc_Cons take0 One_nat_def)
    then show ?thesis using d u Nil by (cases "x = slash") (simp_all add: stripped_def)
  next
    case (Cons y ys)
    then have l: "1 < trim_len 1 s (length s)" using len u by simp
    have "cstr_at (v @ x # t) (length v) = x" by (simp add: cstr_at_append cstr_at_def)
    moreover have "v @ x # t = s" "trim_len 1 s (length s) - 1 = length v" using t(1) u len by simp_all
    ultimately have "cstr_at s (trim_len 1 s (length s) - 1) = x" by simp
    then have "x \<noteq> slash" using trim_len_last [OF l] by simp
    then show ?thesis using d u by (simp add: stripped_def)
  qed
qed (simp add: trim_root_def stripped_def)

lemma under_text_below: "NUL \<notin> set p \<Longrightarrow> pack_path_under_workspace ws (Some p) = text_below (case ws of None \<Rightarrow> [] | Some r \<Rightarrow> r) p"
proof (cases ws)
  case (Some r)
  assume n: "NUL \<notin> set p"
  have "(\<exists>rest. p = stripped r @ rest \<and> (rest = [] \<or> hd rest = slash))
    \<longleftrightarrow> prefix (stripped r) p \<and> (drop (length (stripped r)) p = [] \<or> hd (drop (length (stripped r)) p) = slash)"
    by (auto simp: prefix_def)
  moreover have "cstr_at p 0 = slash \<longleftrightarrow> p \<noteq> [] \<and> hd p = slash" by (cases p) (simp_all add: cstr_at_def)
  ultimately show ?thesis using Some pack_path_under_workspace_split [OF n, of r]
    unfolding trim_root_stripped text_below_def by auto
qed (simp add: pack_path_under_workspace_def nonempty_def text_below_def)

lemma resolve_script_spec:
  assumes "tok \<noteq> []"
  shows "phronesis_resolve_script (Some cwd) (Some tok) PHRONESIS_PATH_MAX =
    (if length (joined cwd tok) < 512 \<and> (hd tok = slash \<or> cwd \<noteq> [] \<and> hd cwd = slash) then Some (joined cwd tok) else None)"
proof -
  have t: "take (trim_len 1 cwd (length cwd)) cwd = stripped cwd" "trim_len 1 cwd (length cwd) = length (stripped cwd)"
    using trim_root_stripped [of cwd] length_trim_root [of 1 cwd] by (simp_all add: trim_root_def)
  have c: "cstr_at x 0 = slash \<longleftrightarrow> x \<noteq> [] \<and> hd x = slash" for x by (cases x) (simp_all add: cstr_at_def)
  have "take (length (stripped cwd)) cwd = stripped cwd" using t by simp
  then show ?thesis using assms by (auto simp: phronesis_resolve_script_def Let_def t [unfolded One_nat_def] c joined_def PHRONESIS_PATH_MAX_def)
qed

lemma joined_nul: "NUL \<notin> set cwd \<Longrightarrow> NUL \<notin> set tok \<Longrightarrow> NUL \<notin> set (joined cwd tok)"
  unfolding joined_def trim_root_stripped [symmetric] trim_root_def by (auto dest: in_set_takeD)

lemma probe_word_spec:
  assumes n: "NUL \<notin> set cwd" "NUL \<notin> set tok"
  shows "probe_word w ws (Some cwd) tok = probe_spec w (case ws of None \<Rightarrow> [] | Some r \<Rightarrow> r) cwd tok"
proof (cases "path_like tok \<and> length tok < 512")
  case False
  then show ?thesis by (cases tok) (auto simp: probe_word_def probe_spec_def path_like_def cstr_at_def PHRONESIS_PATH_MAX_def Let_def)
next
  case True
  then have t: "tok \<noteq> []" "cstr_at tok 0 \<noteq> CHR ''-''" "slash \<in> set tok \<or> dot \<in> set tok" "length tok < 512"
    by (cases tok; auto simp: path_like_def cstr_at_def)+
  note u = under_text_below [OF joined_nul [OF n], of ws]
  show ?thesis
    using t True unfolding probe_word_def resolve_script_spec [OF t(1)] probe_spec_def Let_def
    by (auto simp: u PHRONESIS_PATH_MAX_def SHELL_HEAD_MAX_def cstr_def split: option.split)
qed

lemma probes_of_spec:
  assumes "NUL \<notin> set cwd" "\<forall>x \<in> set words. NUL \<notin> set x"
  shows "probes_of w ws (Some cwd) words = take 32 (List.map_filter (probe_spec w (case ws of None \<Rightarrow> [] | Some r \<Rightarrow> r) cwd) words)"
proof -
  have "List.map_filter (probe_word w ws (Some cwd)) words = List.map_filter (probe_spec w (case ws of None \<Rightarrow> [] | Some r \<Rightarrow> r) cwd) words"
    using assms(2) probe_word_spec [OF assms(1)] by (induction words) (auto simp: List.map_filter_simps split: option.split)
  then show ?thesis by (simp add: probes_of_take SHELL_PROBE_MAX_def)
qed

lemma path_comps_stripped [simp]: "path_comps (stripped s) = path_comps s"
  by (rule path_comps_trim_root [of 1 s, unfolded trim_root_stripped])

lemma text_below_comps: "NUL \<notin> set p \<Longrightarrow> text_below ws p \<Longrightarrow> prefix (path_comps ws) (path_comps p)"
  using view_scope.under_comps [of p ws] under_text_below [of p "Some ws"] by simp

text \<open>Where a path leads when no link is on the way: a dot stays, two dots go up, and any other name goes down.\<close>

fun walk_comps :: "string list \<Rightarrow> string list \<Rightarrow> string list" where
  "walk_comps at [] = at"
| "walk_comps at (c # cs) = walk_comps (if c = ''.'' then at else if c = ''..'' then butlast at else at @ [c]) cs"

lemma walk_comps_append: "walk_comps at (xs @ ys) = walk_comps (walk_comps at xs) ys"
  by (induction xs arbitrary: at) auto

lemma walk_comps_down: "''..'' \<notin> set cs \<Longrightarrow> prefix at (walk_comps at cs)"
proof (induction cs arbitrary: at)
  case (Cons c cs)
  have "prefix (if c = ''.'' then at else at @ [c]) (walk_comps (if c = ''.'' then at else at @ [c]) cs)"
    using Cons by auto
  then show ?case using Cons.prems by (auto dest: append_prefixD)
qed simp

lemma path_comps_joined: "path_comps (joined cwd tok) = (if hd tok = slash then path_comps tok else path_comps cwd @ path_comps tok)"
  by (simp add: joined_def path_comps_append_slash)

text \<open>A word, and for a relative one a working directory, without dot-dot stays below the workspace.\<close>

lemma probe_spec_stays:
  assumes p: "probe_spec w ws cwd tok = Some p" and n: "NUL \<notin> set (joined cwd tok)"
    and d: "''..'' \<notin> set (path_comps tok)" "hd tok = slash \<or> ''..'' \<notin> set (path_comps cwd)"
  shows "prefix (walk_comps [] (path_comps ws)) (walk_comps [] (path_comps (probe_resolved p)))"
proof -
  have r: "probe_resolved p = joined cwd tok" "text_below ws (joined cwd tok)" using p by (auto simp: probe_spec_def Let_def split: if_splits)
  obtain zs where z: "path_comps (joined cwd tok) = path_comps ws @ zs" using text_below_comps [OF n r(2)] by (auto simp: prefix_def)
  have "''..'' \<notin> set (path_comps (joined cwd tok))" using d by (auto simp: path_comps_joined)
  then have "''..'' \<notin> set zs" using z by simp
  then show ?thesis unfolding r(1) z walk_comps_append by (rule walk_comps_down)
qed

section \<open>What a view says\<close>





section \<open>Properties\<close>

text \<open>C31: The size of the first segment is computed exactly. For strings and lists that exist in memory the
  routine returns the sum of what the root, the structs, the pointers and every text take (each text
  with its NUL, rounded up to eight bytes) plus the slack, and it fails exactly when that sum
  does not fit \<open>size_t\<close>: no addition wraps around.\<close>

theorem segment_bytes_exact:
  assumes c: "length cwd < 2 ^ 64" and ws: "in_memory words" and pn: "length probes < 2 ^ 64"
    and pt: "in_memory (concat (map probe_texts probes))"
  shows "shell_view_segment_bytes (Some cwd) words probes =
    add_exact 0 (304 + text_block (length cwd) + (8 * length words + words_size words)
       + (32 * length probes + words_size (concat (map probe_texts probes))))"
  using segment_bytes [OF assms] .

lemma segment_bytes_exact_witness:
  "shell_view_segment_bytes (Some ''/ws'') [''ls'', ''./run.py'']
     [\<lparr>probe_arg = ''./run.py'', probe_resolved = ''/ws/./run.py'', probe_exists = True, probe_head = ''x''\<rparr>] = Some 424"
proof -
  let ?ps = "[\<lparr>probe_arg = ''./run.py'', probe_resolved = ''/ws/./run.py'', probe_exists = True, probe_head = ''x''\<rparr>]"
  have "in_memory [''ls'', ''./run.py'']" "in_memory (concat (map probe_texts ?ps))"
    by (simp_all add: in_memory_def probe_texts_def)
  then show ?thesis
    using segment_bytes_exact [of "''/ws''" "[''ls'', ''./run.py'']" ?ps]
    by (simp add: add_exact_def text_block_def words_size_def probe_texts_def)
qed


text \<open>Two words, one of which names a file of the workspace, for every message runtime.\<close>

definition probe_world :: world where
  "probe_world = fresh_world\<lparr>w_fs := (\<lambda>k. if k = [''ws'', ''a.py''] then Some (Reg ''import x'') else Some (Dir 493))\<rparr>"

definition script_probe :: shell_path_probe where
  "script_probe = \<lparr>probe_arg = ''a.py'', probe_resolved = ''/ws/a.py'', probe_exists = True, probe_head = ''import x''\<rparr>"

lemma script_probes: "List.map_filter (probe_spec probe_world ''/ws'' ''/ws'') [''uv'', ''a.py''] = [script_probe]"
  by code_simp


text \<open>C29: What a probe shows, exactly, and how far it is confined. The probes of a view are those of the first 32 words
  that qualify: a word that is not an option, has a slash or a dot, and fits the path buffer with the working directory before
  it, and whose path, as text, starts with the workspace up to a component boundary. A probe has the word, that path, whether
  the path opens, and then its first 8191 bytes up to a NUL. The components of the workspace are a prefix of those of the
  path; when neither the word nor, for a relative word, the working directory has a dot-dot component, the path also
  leads below the workspace on a tree without links. A word with dot-dot is not normalised and may leave it.\<close>

theorem probes_exact:
  assumes c: "NUL \<notin> set cwd" "\<forall>x \<in> set words. NUL \<notin> set x"
  shows "probes_of w (Some ws) (Some cwd) words = take 32 (List.map_filter (probe_spec w ws cwd) words)
    \<and> (\<forall>p \<in> set (probes_of w (Some ws) (Some cwd) words).
         prefix (path_comps ws) (path_comps (probe_resolved p))
         \<and> (''..'' \<notin> set (path_comps (probe_arg p)) \<and> (hd (probe_arg p) = slash \<or> ''..'' \<notin> set (path_comps cwd)) \<longrightarrow>
              prefix (walk_comps [] (path_comps ws)) (walk_comps [] (path_comps (probe_resolved p)))))"
proof -
  have e: "probes_of w (Some ws) (Some cwd) words = take 32 (List.map_filter (probe_spec w ws cwd) words)"
    using probes_of_spec [OF c, of w "Some ws"] by simp
  have "prefix (path_comps ws) (path_comps (probe_resolved p))
      \<and> (''..'' \<notin> set (path_comps (probe_arg p)) \<and> (hd (probe_arg p) = slash \<or> ''..'' \<notin> set (path_comps cwd)) \<longrightarrow>
           prefix (walk_comps [] (path_comps ws)) (walk_comps [] (path_comps (probe_resolved p))))"
    if pm: "p \<in> set (probes_of w (Some ws) (Some cwd) words)" for p
  proof -
    obtain tok where tok: "tok \<in> set words" "probe_spec w ws cwd tok = Some p"
      using pm unfolding e by (auto simp: set_map_filter dest!: in_set_takeD)
    then have "probe_arg p = tok" "probe_resolved p = joined cwd tok" "text_below ws (joined cwd tok)"
      by (auto simp: probe_spec_def Let_def split: if_splits)
    moreover have "NUL \<notin> set (joined cwd tok)" using c tok(1) joined_nul by blast
    ultimately show ?thesis using text_below_comps probe_spec_stays [OF tok(2)] by simp
  qed
  then show ?thesis using e by blast
qed

lemma probes_exact_witness:
  "probes_of probe_world (Some ''/ws'') (Some ''/ws'') [''uv'', ''a.py''] = [script_probe]
   \<and> prefix (walk_comps [] (path_comps ''/ws'')) (walk_comps [] (path_comps (probe_resolved script_probe)))"
proof -
  have n: "NUL \<notin> set ''/ws''" "\<forall>x \<in> set [''uv'', ''a.py'']. NUL \<notin> set x" by simp_all
  have d: "''..'' \<notin> set (path_comps (probe_arg script_probe))" "''..'' \<notin> set (path_comps ''/ws'')" by code_simp+
  note t = probes_exact [OF n, of probe_world "''/ws''", unfolded script_probes]
  then have e: "probes_of probe_world (Some ''/ws'') (Some ''/ws'') [''uv'', ''a.py''] = [script_probe]" by simp
  show ?thesis using t d unfolding e by simp
qed

text \<open>Containment of a probe is lexical only. A word that starts with dot-dot passes the test of the probe loop,
  since the resolved path still begins with the workspace: whenever the host can open the file that the path
  names, outside the workspace or not, its head goes into the view.\<close>

lemma probe_follows_dotdot:
  assumes ws: "cstr_at ws 0 = slash" "1 < length ws" "last ws \<noteq> slash" and len: "length ws + length rest < 500"
    and op: "fopen_r w (ws @ ''/../'' @ rest) = Some b"
  shows "probe_word w (Some ws) (Some ws) (''../'' @ rest) =
    Some \<lparr>probe_arg = ''../'' @ rest, probe_resolved = ws @ ''/../'' @ rest, probe_exists = True, probe_head = cstr (take 8191 b)\<rparr>"
proof -
  have lst: "cstr_at ws (length ws - 1) \<noteq> slash" using ws(2,3) by (cases ws rule: rev_cases) (simp_all add: cstr_at_def)
  have tl: "trim_len 1 ws (length ws) = length ws" using ws(2) lst by (intro trim_len_eq) auto
  have r: "phronesis_resolve_script (Some ws) (Some (''../'' @ rest)) PHRONESIS_PATH_MAX = Some (ws @ ''/../'' @ rest)"
    using ws(1) len tl by (simp add: phronesis_resolve_script_def cstr_at_def PHRONESIS_PATH_MAX_def Let_def split: if_splits)
  have u: "pack_path_under_workspace (Some ws) (Some (ws @ ''/../'' @ rest))"
    using ws tl by (cases ws) (auto simp: pack_path_under_workspace_def nonempty_def strncmp_eq_def cstr_at_def nth_append Let_def)
  show ?thesis
    using len op unfolding probe_word_def r option.case
    using u by (simp add: cstr_at_def PHRONESIS_PATH_MAX_def SHELL_HEAD_MAX_def)
qed

text \<open>A host whose paths resolve dot-dot, with a file outside the workspace.\<close>

definition dotdot_world :: world where
  "dotdot_world = fresh_world\<lparr>
     w_canon := (\<lambda>p. if p = ''/ws/../etc/passwd'' then [''etc'', ''passwd''] else path_comps p),
     w_fs := (\<lambda>k. if k = [''etc'', ''passwd''] then Some (Reg ''root:x:0:0'') else if k = [] \<or> k = [''ws''] \<or> k = [''etc''] then Some (Dir 493) else None)\<rparr>"

lemma probe_follows_dotdot_witness:
  "map_option probe_head (probe_word dotdot_world (Some ''/ws'') (Some ''/ws'') ''../etc/passwd'') = Some ''root:x:0:0''"
proof -
  have "fopen_r dotdot_world (''/ws'' @ ''/../'' @ ''etc/passwd'') = Some ''root:x:0:0''" by code_simp
  moreover have "cstr_at ''/ws'' 0 = slash" by code_simp
  moreover have "cstr ''root:x:0:0'' = ''root:x:0:0''" by code_simp
  ultimately show ?thesis using probe_follows_dotdot [of "''/ws''" "''etc/passwd''" dotdot_world "''root:x:0:0''"] by simp
qed


end
