(* ===== verification/Pack_Eval.thy ===== *)
theory Pack_Eval
  imports Shell_View
begin

text \<open>
  src/policy\_janet.c, lines 1545 to the end: calling the packs. Every loaded pack that defines the entry
  is called with the message, and the answers are composed fail-closed: the first error or denial
  decides, otherwise the highest rank wins (prompt over allow). The Janet machine is the parameter \<open>vm\<close>.
\<close>

section \<open>Calling the packs\<close>

definition decision_rank :: "nat \<Rightarrow> nat" where
  "decision_rank d =
     (if d = decision_ord DENY then 3 else if d = decision_ord PROMPT then 2
      else if d = decision_ord ALLOW then 1 else 3)"

definition read_decision_fields :: "'m codec \<Rightarrow> bytes \<Rightarrow> (nat \<times> nat) option" where
  "read_decision_fields cd buf =
     (if buf = [] then None
      else
        (case capn_init_mem cd buf of
           None \<Rightarrow> None
         | Some m \<Rightarrow> Some (pd_decision (read_PolicyDecision cd m), pd_code (read_PolicyDecision cd m))))"

text \<open>The results 0, -1, -2 and -3 of \<open>pack_pcall_fn\<close>.\<close>

datatype pack_rc = PackOk bytes | PackNoEntry | PackRuntime | PackBad

definition pack_pcall_fn :: "('e, 'f) vm \<Rightarrow> 'f \<Rightarrow> bytes \<Rightarrow> pack_rc" where
  "pack_pcall_fn vm fnv inp =
     (if inp = [] then PackNoEntry
      else
        (case janet_pcall vm fnv inp of
           PcallError \<Rightarrow> PackRuntime
         | PcallOther \<Rightarrow> PackBad
         | PcallBuffer b \<Rightarrow> if b = [] then PackBad else PackOk b))"

text \<open>What the loop over the packs leaves: a pack's message, or a denial the host builds with this code.\<close>

datatype composed = Answer bytes | HostDeny reason

fun compose_loop ::
  "('e, 'f) vm \<Rightarrow> 'm codec \<Rightarrow> ('f pack_slot \<Rightarrow> 'f option) \<Rightarrow> bytes \<Rightarrow> 'f pack_slot list \<Rightarrow>
   bool \<Rightarrow> bytes option \<Rightarrow> nat \<Rightarrow> composed" where
  "compose_loop vm cd entry inp [] any best best_rank =
     (if \<not> any then HostDeny PACK_MISSING
      else (case best of None \<Rightarrow> HostDeny PACK_MISSING | Some b \<Rightarrow> Answer b))"
| "compose_loop vm cd entry inp (p # ps) any best best_rank =
     (case entry p of
        None \<Rightarrow> compose_loop vm cd entry inp ps any best best_rank
      | Some fnv \<Rightarrow>
          (case pack_pcall_fn vm fnv inp of
             PackNoEntry \<Rightarrow> HostDeny PACK_MISSING
           | PackRuntime \<Rightarrow> HostDeny PACK_RUNTIME_ERROR
           | PackBad \<Rightarrow> HostDeny PACK_BAD_RESULT
           | PackOk one \<Rightarrow>
               (case read_decision_fields cd one of
                  None \<Rightarrow> HostDeny PACK_BAD_RESULT
                | Some (dec, code) \<Rightarrow>
                    if dec = decision_ord DENY then Answer one
                    else if decision_rank dec > best_rank then
                      compose_loop vm cd entry inp ps True (Some one) (decision_rank dec)
                    else compose_loop vm cd entry inp ps True best best_rank)))"

definition host_deny :: "'m codec \<Rightarrow> reason \<Rightarrow> bytes option" where
  "host_deny cd r = build_policy_decision_code cd 0 (reason_ord r)"

definition compose_pack_entry ::
  "('e, 'f) vm \<Rightarrow> 'm codec \<Rightarrow> world \<Rightarrow> bool \<Rightarrow> bytes \<Rightarrow> 'f pack_host \<Rightarrow> bytes option \<times> 'f pack_host" where
  "compose_pack_entry vm cd w need_flag_shell inp st =
     (case load_pack_once vm w st of
        (False, st1) \<Rightarrow> (host_deny cd PACK_MISSING, st1)
      | (True, st1) \<Rightarrow>
          ((case compose_loop vm cd (if need_flag_shell then shell_fn else audio_fn) inp (packs st1) False None 0 of
              Answer b \<Rightarrow> Some b
            | HostDeny r \<Rightarrow> host_deny cd r), st1))"

definition phronesis_shell_pack ::
  "('e, 'f) vm \<Rightarrow> 'm codec \<Rightarrow> world \<Rightarrow> cstring_opt \<Rightarrow> cstring_opt \<Rightarrow> capn_text list \<Rightarrow> 'f pack_host \<Rightarrow>
   bytes option \<times> 'f pack_host" where
  "phronesis_shell_pack vm cd w workspace cwd argv st =
     (case load_pack_once vm w st of
        (False, st1) \<Rightarrow> (host_deny cd PACK_MISSING, st1)
      | (True, st1) \<Rightarrow>
          (case phronesis_build_shell_view cd w workspace cwd argv of
             ViewWordTooLong \<Rightarrow>
               (build_policy_decision_reason cd 0 (reason_ord FIELD_TOO_LONG)
                  (Some (snprintf_buf 80 (''argv word exceeds '' @ show_nat PHRONESIS_SHELL_WORD_MAX @ '' bytes''))), st1)
           | ViewTooManyWords \<Rightarrow>
               (build_policy_decision_reason cd 0 (reason_ord FIELD_TOO_LONG)
                  (Some (snprintf_buf 80 (''argv count exceeds '' @ show_nat PHRONESIS_SHELL_ARGV_MAX))), st1)
           | ViewFailed \<Rightarrow> (host_deny cd SHELL_VIEW_BUILD_FAILED, st1)
           | ViewOk b \<Rightarrow> compose_pack_entry vm cd w True b st1))"

definition phronesis_audio_pack ::
  "('e, 'f) vm \<Rightarrow> 'm codec \<Rightarrow> world \<Rightarrow> bytes \<Rightarrow> 'f pack_host \<Rightarrow> bytes option \<times> 'f pack_host" where
  "phronesis_audio_pack vm cd w inp st = compose_pack_entry vm cd w False inp st"

section \<open>What the loop computes\<close>

text \<open>The answer of one pack: an error with the code the host denies with, or a readable message with its decision.\<close>

definition pack_answer :: "('e, 'f) vm \<Rightarrow> 'm codec \<Rightarrow> bytes \<Rightarrow> 'f \<Rightarrow> reason + nat \<times> bytes" where
  "pack_answer vm cd inp f =
     (case pack_pcall_fn vm f inp of
        PackNoEntry \<Rightarrow> Inl PACK_MISSING
      | PackRuntime \<Rightarrow> Inl PACK_RUNTIME_ERROR
      | PackBad \<Rightarrow> Inl PACK_BAD_RESULT
      | PackOk b \<Rightarrow> (case read_decision_fields cd b of None \<Rightarrow> Inl PACK_BAD_RESULT | Some (d, c) \<Rightarrow> Inr (d, b)))"

text \<open>The specification: the first error or denial decides; without one, the first answer of the highest rank.\<close>

fun decisive :: "reason + nat \<times> bytes \<Rightarrow> bool" where
  "decisive (Inl r) = True"
| "decisive (Inr (d, b)) = (d = 0)"

fun answer_rank :: "reason + nat \<times> bytes \<Rightarrow> nat" where
  "answer_rank (Inl r) = 3"
| "answer_rank (Inr (d, b)) = decision_rank d"

fun as_composed :: "(reason + nat \<times> bytes) option \<Rightarrow> composed" where
  "as_composed None = HostDeny PACK_MISSING"
| "as_composed (Some (Inl r)) = HostDeny r"
| "as_composed (Some (Inr (d, b))) = Answer b"

definition first_max :: "('a \<Rightarrow> nat) \<Rightarrow> 'a list \<Rightarrow> 'a option" where
  "first_max rank xs = find (\<lambda>x. \<forall>y \<in> set xs. rank y \<le> rank x) xs"

definition compose_spec :: "(reason + nat \<times> bytes) list \<Rightarrow> composed" where
  "compose_spec rs =
     as_composed (case find decisive rs of Some r \<Rightarrow> Some r | None \<Rightarrow> first_max answer_rank rs)"

lemma find_append: "find P (xs @ ys) = (case find P xs of Some x \<Rightarrow> Some x | None \<Rightarrow> find P ys)"
  by (induction xs) auto

lemma find_NoneI: "\<forall>x \<in> set xs. \<not> P x \<Longrightarrow> find P xs = None"
  by (simp add: find_None_iff)

lemma first_max_Nil [simp]: "first_max rank [] = None"
  by (simp add: first_max_def)

lemma first_max_in: "first_max rank xs = Some m \<Longrightarrow> m \<in> set xs \<and> (\<forall>y \<in> set xs. rank y \<le> rank m)"
  by (auto simp: first_max_def find_Some_iff)

lemma find_cong_set: "(\<And>x. x \<in> set xs \<Longrightarrow> P x = Q x) \<Longrightarrow> find P xs = find Q xs"
  by (induction xs) auto

lemma first_max_snoc:
  assumes "first_max rank xs = Some m"
  shows "first_max rank (xs @ [x]) = Some (if rank x > rank m then x else m)"
proof -
  note m = first_max_in [OF assms]
  show ?thesis
  proof (cases "rank x > rank m")
    case True
    have "find (\<lambda>z. \<forall>y \<in> set (xs @ [x]). rank y \<le> rank z) xs = None"
      using m True by (intro find_NoneI) (fastforce simp: not_le)
    moreover have "\<forall>y \<in> set xs. rank y \<le> rank x" using m True by (meson le_trans less_imp_le)
    ultimately show ?thesis using True by (simp add: first_max_def find_append)
  next
    case False
    have "find (\<lambda>z. \<forall>y \<in> set (xs @ [x]). rank y \<le> rank z) xs = find (\<lambda>z. \<forall>y \<in> set xs. rank y \<le> rank z) xs"
    proof (rule find_cong_set)
      fix z assume "z \<in> set xs"
      have "rank x \<le> rank z" if "\<forall>y \<in> set xs. rank y \<le> rank z" using that m False by (meson le_trans not_less)
      then show "(\<forall>y \<in> set (xs @ [x]). rank y \<le> rank z) = (\<forall>y \<in> set xs. rank y \<le> rank z)" by auto
    qed
    then show ?thesis using False assms by (simp add: first_max_def find_append)
  qed
qed

lemma first_max_single [simp]: "first_max rank [x] = Some x"
  by (simp add: first_max_def)

lemma decision_rank_pos: "decision_rank d > 0"
  by (simp add: decision_rank_def)

text \<open>The state of the loop after the answers \<open>rs\<close>, none of them decisive.\<close>

definition loop_state :: "(reason + nat \<times> bytes) list \<Rightarrow> bool \<Rightarrow> bytes option \<Rightarrow> nat \<Rightarrow> bool" where
  "loop_state rs any best best_rank \<longleftrightarrow>
     find decisive rs = None \<and> any = (rs \<noteq> [])
     \<and> (case first_max answer_rank rs of
          None \<Rightarrow> rs = [] \<and> best = None \<and> best_rank = 0
        | Some m \<Rightarrow> \<exists>d b. m = Inr (d, b) \<and> best = Some b \<and> best_rank = decision_rank d)"

lemma loop_state_step:
  assumes "loop_state rs any best best_rank" "d \<noteq> 0"
  shows "if decision_rank d > best_rank then loop_state (rs @ [Inr (d, b)]) True (Some b) (decision_rank d)
         else loop_state (rs @ [Inr (d, b)]) True best best_rank"
proof (cases "first_max answer_rank rs")
  case None
  then show ?thesis using assms decision_rank_pos [of d] by (auto simp: loop_state_def find_append)
next
  case (Some m)
  then obtain d' b' where m: "m = Inr (d', b')" "best = Some b'" "best_rank = decision_rank d'" "find decisive rs = None"
    using assms(1) by (auto simp: loop_state_def)
  show ?thesis using first_max_snoc [OF Some, of "Inr (d, b)"] m assms(2) by (auto simp: loop_state_def find_append)
qed

lemma compose_loop_spec:
  assumes "loop_state rs any best best_rank"
  shows "compose_loop vm cd entry inp ps any best best_rank
    = compose_spec (rs @ map (pack_answer vm cd inp) (List.map_filter entry ps))"
  using assms
proof (induction ps arbitrary: rs any best best_rank)
  case Nil
  then show ?case by (auto simp: loop_state_def compose_spec_def List.map_filter_simps split: option.splits)
next
  case (Cons p ps)
  show ?case
  proof (cases "entry p")
    case None
    then show ?thesis using Cons by (simp add: List.map_filter_simps)
  next
    case (Some f)
    let ?a = "pack_answer vm cd inp f" and ?rest = "map (pack_answer vm cd inp) (List.map_filter entry ps)"
    have nd: "find decisive rs = None" using Cons.prems by (simp add: loop_state_def)
    have eq: "rs @ map (pack_answer vm cd inp) (List.map_filter entry (p # ps)) = (rs @ [?a]) @ ?rest"
      using Some by (simp add: List.map_filter_simps)
    show ?thesis
    proof (cases "decisive ?a")
      case True
      then have "compose_spec ((rs @ [?a]) @ ?rest) = as_composed (Some ?a)"
        using nd by (simp add: compose_spec_def find_append)
      moreover have "compose_loop vm cd entry inp (p # ps) any best best_rank = as_composed (Some ?a)"
        using Some True by (auto simp: pack_answer_def split: pack_rc.splits option.splits)
      ultimately show ?thesis unfolding eq by simp
    next
      case False
      then obtain d b c where a: "?a = Inr (d, b)" "d \<noteq> 0" "pack_pcall_fn vm f inp = PackOk b" "read_decision_fields cd b = Some (d, c)"
        by (auto simp: pack_answer_def split: pack_rc.splits option.splits)
      show ?thesis
        using Cons.IH loop_state_step [OF Cons.prems a(2), of b] Some a unfolding eq by (auto split: if_splits)
    qed
  qed
qed

lemma compose_loop_start:
  "compose_loop vm cd entry inp ps False None 0 = compose_spec (map (pack_answer vm cd inp) (List.map_filter entry ps))"
  using compose_loop_spec [of "[]" False None 0] by (simp add: loop_state_def)


section \<open>Decisions on the wire\<close>

text \<open>The denial the pack host builds itself.\<close>

definition deny_with :: "reason \<Rightarrow> string \<Rightarrow> policy_decision" where
  "deny_with r why = \<lparr>pd_decision = 0, pd_reason = ctext (Some why), pd_agentId = None, pd_code = reason_ord r\<rparr>"

lemma build_deny_says:
  assumes "decision_codec cd" "r \<in> set reason_table" "length why \<le> 80"
  shows "says cd (build_policy_decision_reason cd 0 (reason_ord r) (Some why)) (deny_with r why)"
  unfolding deny_with_def using assms reason_ord_bound [OF assms(2)] by (intro build_decision_says) auto

lemma host_deny_says: "decision_codec cd \<Longrightarrow> r \<in> set reason_table \<Longrightarrow> says cd (host_deny cd r) (deny_with r [])"
  unfolding host_deny_def build_policy_decision_code_def by (rule build_deny_says) auto

lemma pack_reasons: "PACK_MISSING \<in> set reason_table" "PACK_RUNTIME_ERROR \<in> set reason_table"
  "PACK_BAD_RESULT \<in> set reason_table" "SHELL_VIEW_BUILD_FAILED \<in> set reason_table" "FIELD_TOO_LONG \<in> set reason_table"
  by (simp_all add: reason_table_def)

lemma pack_answer_says:
  assumes "pack_answer vm cd inp f = Inr (d, b)"
  shows "\<exists>m. says cd (Some b) m \<and> pd_decision m = d"
  using assms by (auto simp: pack_answer_def read_decision_fields_def says_def split: pack_rc.splits option.splits if_splits)

lemma pack_answer_Inl: "pack_answer vm cd inp f = Inl r \<Longrightarrow> r \<in> set reason_table"
  using pack_reasons by (auto simp: pack_answer_def split: pack_rc.splits option.splits)

lemma compose_spec_cases:
  obtains r where "compose_spec rs = HostDeny r" "r = PACK_MISSING \<or> Inl r \<in> set rs"
  | b where "compose_spec rs = Answer b" "Inr (0, b) \<in> set rs"
  | d b where "compose_spec rs = Answer b" "Inr (d, b) \<in> set rs" "\<forall>x \<in> set rs. \<not> decisive x \<and> answer_rank x \<le> decision_rank d"
proof (cases "find decisive rs")
  case None
  then have nd: "\<forall>x \<in> set rs. \<not> decisive x" by (simp add: find_None_iff)
  show ?thesis
  proof (cases "first_max answer_rank rs")
    case None
    then show ?thesis using that(1) \<open>find decisive rs = None\<close> by (simp add: compose_spec_def)
  next
    case (Some m)
    obtain d b where "m = Inr (d, b)" using nd first_max_in [OF Some] by (cases m) auto
    then show ?thesis using that(3) [of b d] first_max_in [OF Some] nd Some \<open>find decisive rs = None\<close> by (simp add: compose_spec_def)
  qed
next
  case (Some x)
  then have x: "x \<in> set rs" "decisive x" by (auto simp: find_Some_iff)
  show ?thesis
  proof (cases x)
    case (Inl r)
    then show ?thesis using that(1) x Some by (simp add: compose_spec_def)
  next
    case (Inr y)
    then show ?thesis using that(2) [of "snd y"] x Some by (cases y) (simp add: compose_spec_def)
  qed
qed

lemma decision_rank_allow: "decision_rank d \<le> decision_rank 1 \<longleftrightarrow> d = 1"
  by (simp add: decision_rank_def)

lemma pack_host_answers:
  assumes cd: "decision_codec cd" and out: "compose_pack_entry vm cd w sh inp st = (out, st')"
  defines "fs \<equiv> List.map_filter (if sh then shell_fn else audio_fn) (packs st')"
  shows "\<exists>d. says cd out d
    \<and> (pd_decision d \<noteq> 0 \<longrightarrow>
         fst (load_pack_once vm w st)
         \<and> (\<exists>f \<in> set fs. \<exists>b. pack_answer vm cd inp f = Inr (pd_decision d, b) \<and> out = Some b)
         \<and> (\<forall>f \<in> set fs. \<exists>d' b. pack_answer vm cd inp f = Inr (d', b) \<and> d' \<noteq> 0 \<and> decision_rank d' \<le> decision_rank (pd_decision d)))
    \<and> (pd_decision d = 1 \<longrightarrow> (\<forall>f \<in> set fs. \<exists>b. pack_answer vm cd inp f = Inr (1, b)))"
proof (cases "fst (load_pack_once vm w st)")
  case False
  then have "out = host_deny cd PACK_MISSING"
    using out by (cases "load_pack_once vm w st") (auto simp: compose_pack_entry_def)
  then show ?thesis using host_deny_says [OF cd pack_reasons(1)] by (auto simp: deny_with_def)
next
  case True
  then have ld: "load_pack_once vm w st = (True, st')"
    using out by (cases "load_pack_once vm w st") (auto simp: compose_pack_entry_def)
  let ?rs = "map (pack_answer vm cd inp) fs"
  have o: "out = (case compose_spec ?rs of Answer b \<Rightarrow> Some b | HostDeny r \<Rightarrow> host_deny cd r)"
    using out ld by (simp add: compose_pack_entry_def fs_def compose_loop_start)
  show ?thesis
  proof (cases rule: compose_spec_cases [of ?rs])
    case (1 r)
    then have "r = PACK_MISSING \<or> (\<exists>f. pack_answer vm cd inp f = Inl r)" by (auto dest: sym)
    then have "r \<in> set reason_table" by (auto simp: pack_reasons dest: pack_answer_Inl)
    from host_deny_says [OF cd this] show ?thesis using o 1(1) by (intro exI [of _ "deny_with r []"]) (simp add: deny_with_def)
  next
    case (2 b)
    then obtain f where f: "pack_answer vm cd inp f = Inr (0, b)" by auto
    obtain m where m: "says cd (Some b) m" "pd_decision m = 0" using pack_answer_says [OF f] by blast
    then show ?thesis using 2(1) o by (intro exI [of _ m]) simp
  next
    case (3 d b)
    then obtain f where f: "f \<in> set fs" "pack_answer vm cd inp f = Inr (d, b)" by auto
    obtain m where m: "says cd (Some b) m" "pd_decision m = d" using pack_answer_says [OF f(2)] by blast
    have all: "\<exists>d' b'. pack_answer vm cd inp g = Inr (d', b') \<and> d' \<noteq> 0 \<and> decision_rank d' \<le> decision_rank d" if "g \<in> set fs" for g
      using 3(3) that by (cases "pack_answer vm cd inp g") auto
    have "\<exists>b'. pack_answer vm cd inp g = Inr (1, b')" if "g \<in> set fs" "d = 1" for g
      using all [OF that(1)] that(2) decision_rank_allow by metis
    then show ?thesis using m f 3(1) o ld all by (intro exI [of _ m]) auto
  qed
qed

section \<open>Properties\<close>

text \<open>C23: The loop over the packs computes its specification: the first error or denial among the packs that define
  the entry, in load order, is the result; without one it is the first answer of the highest rank; with no
  pack that defines the entry it is a host denial.\<close>

theorem pack_composition:
  "compose_loop vm cd entry inp ps False None 0 = compose_spec (map (pack_answer vm cd inp) (List.map_filter entry ps))"
  by (rule compose_loop_start)

text \<open>C3: Composition is fail-closed. The pack host always answers with a readable decision. When that is not a
  denial, the packs are loaded, some pack defines the entry, the answer is the unchanged message of one
  of them, and every pack that defines the entry gave a readable decision that is not a denial and ranks
  no higher. An allow means that every one of them said allow. So a denial, a run-time error or an
  unreadable result of any pack is a denial of the whole.\<close>

theorem compose_fail_closed:
  assumes cd: "decision_codec cd" and out: "compose_pack_entry vm cd w sh inp st = (out, st')"
  defines "fs \<equiv> List.map_filter (if sh then shell_fn else audio_fn) (packs st')"
  shows "\<exists>d. says cd out d
    \<and> (pd_decision d \<noteq> 0 \<longrightarrow>
         fst (load_pack_once vm w st)
         \<and> (\<exists>f \<in> set fs. \<exists>b. pack_answer vm cd inp f = Inr (pd_decision d, b) \<and> out = Some b)
         \<and> (\<forall>f \<in> set fs. \<exists>d' b. pack_answer vm cd inp f = Inr (d', b) \<and> d' \<noteq> 0 \<and> decision_rank d' \<le> decision_rank (pd_decision d)))
    \<and> (pd_decision d = 1 \<longrightarrow> (\<forall>f \<in> set fs. \<exists>b. pack_answer vm cd inp f = Inr (1, b)))"
  using pack_host_answers [OF cd out] unfolding fs_def .

text \<open>A machine whose functions answer with their own text, and three packs on the wire of \<open>demo_codec\<close>.\<close>

definition pack_says :: "nat \<Rightarrow> nat \<Rightarrow> string \<Rightarrow> bytes" where
  "pack_says d c why = ''0'' @ hex_fixed 4 d @ hex_fixed 4 c @ why"

definition slot_saying :: "nat \<Rightarrow> nat \<Rightarrow> string pack_slot" where
  "slot_saying d c = \<lparr>shell_fn = Some (pack_says d c ''why''), audio_fn = None, pack_path = ''/opt/law/a.janet''\<rparr>"

definition three_packs :: "string pack_host" where
  "three_packs = initial_host\<lparr>pack_loaded := True, packs := [slot_saying 1 20, slot_saying 2 7, slot_saying 1 20]\<rparr>"

lemma compose_fail_closed_witness:
  "fst (compose_pack_entry demo_vm demo_codec fresh_world True ''view'' three_packs) = Some (pack_says 2 7 ''why'')
   \<and> (\<exists>d. says demo_codec (Some (pack_says 2 7 ''why'')) d \<and> pd_decision d = 2)"
proof -
  let ?r = "compose_pack_entry demo_vm demo_codec fresh_world True ''view'' three_packs"
  have e: "fst ?r = Some (pack_says 2 7 ''why'')" by code_simp
  have "?r = (fst ?r, snd ?r)" by simp
  from compose_fail_closed [OF demo_decision_codec this]
  obtain d where d: "says demo_codec (fst ?r) d" by blast
  have "says demo_codec (fst ?r) (read_PolicyDecision demo_codec (pack_says 2 7 ''why''))"
    unfolding e says_def by (simp add: demo_codec_def pack_says_def)
  moreover have "pd_decision (read_PolicyDecision demo_codec (pack_says 2 7 ''why'')) = 2" by code_simp
  ultimately show ?thesis using d e says_fun by metis
qed

text \<open>C32: A shell check that is too large is denied with its reason. With packs loaded, more than 32768 words
  or a word of more than 128 KiB is a \<open>fieldTooLong\<close> denial that names the limit, before any pack runs; with no
  packs it is \<open>packMissing\<close>; and in every case the caller gets a readable decision.\<close>

theorem shell_pack_limits:
  assumes cd: "decision_codec cd" and wf: "\<forall>t \<in> set argv. text_wf t" and c: "length cwd < 2 ^ 32"
  shows "\<exists>d. says cd (fst (phronesis_shell_pack vm cd w ws (Some cwd) argv st)) d
    \<and> (\<not> fst (load_pack_once vm w st) \<longrightarrow> d = deny_with PACK_MISSING [])
    \<and> (fst (load_pack_once vm w st) \<and> length argv > 32768 \<longrightarrow> d = deny_with FIELD_TOO_LONG ''argv count exceeds 32768'')
    \<and> (fst (load_pack_once vm w st) \<and> length argv \<le> 32768 \<and> (\<exists>t \<in> set argv. t_len t > 131072) \<longrightarrow>
         d = deny_with FIELD_TOO_LONG ''argv word exceeds 131072 bytes'')"
proof (cases "load_pack_once vm w st")
  case (Pair ok st1)
  have msg: "snprintf_buf 80 (''argv word exceeds '' @ show_nat PHRONESIS_SHELL_WORD_MAX @ '' bytes'') = ''argv word exceeds 131072 bytes''"
    "snprintf_buf 80 (''argv count exceeds '' @ show_nat PHRONESIS_SHELL_ARGV_MAX) = ''argv count exceeds 32768''" by code_simp+
  note long = build_deny_says [OF cd pack_reasons(5)]
  let ?v = "phronesis_build_shell_view cd w ws (Some cwd) argv"
  note v = view_limits [OF wf c, of cd w ws]
  show ?thesis
  proof (cases ok)
    case False
    then show ?thesis using Pair host_deny_says [OF cd pack_reasons(1)] by (auto simp: phronesis_shell_pack_def)
  next
    case True
    show ?thesis
    proof (cases ?v)
      case (ViewOk b)
      obtain out st2 where "compose_pack_entry vm cd w True b st1 = (out, st2)" by fastforce
      moreover from pack_host_answers [OF cd this] obtain d where "says cd out d" by blast
      ultimately show ?thesis using Pair True ViewOk v by (auto simp: phronesis_shell_pack_def)
    next
      case ViewFailed
      then show ?thesis using Pair True v host_deny_says [OF cd pack_reasons(4)] by (auto simp: phronesis_shell_pack_def)
    next
      case ViewWordTooLong
      then show ?thesis using Pair True v long [of "''argv word exceeds 131072 bytes''"] msg by (auto simp: phronesis_shell_pack_def)
    next
      case ViewTooManyWords
      then show ?thesis using Pair True v long [of "''argv count exceeds 32768''"] msg by (auto simp: phronesis_shell_pack_def)
    qed
  qed
qed

lemma shell_pack_limits_witness:
  "says demo_codec (fst (phronesis_shell_pack demo_vm demo_codec fresh_world (Some ''/ws'') (Some ''/ws'')
       [\<lparr>t_len = 200000, t_str = Some ''x''\<rparr>] three_packs))
     (deny_with FIELD_TOO_LONG ''argv word exceeds 131072 bytes'')"
proof -
  let ?a = "[\<lparr>t_len = 200000, t_str = Some ''x''\<rparr>]"
  have wf: "\<forall>t \<in> set ?a. text_wf t" by (simp add: text_wf_def)
  have ld: "fst (load_pack_once demo_vm fresh_world three_packs)" by code_simp
  have c: "length ''/ws'' < 2 ^ 32" by simp
  show ?thesis using shell_pack_limits [OF demo_decision_codec wf c, of demo_vm fresh_world "Some ''/ws''" three_packs] ld by auto
qed


end
