(* ===== verification/Capnp_Api.thy ===== *)
theory Capnp_Api
  imports Supervisor Pack_Eval
begin

text \<open>
  src/capnp\_api.c: interface Policyd, one entry point per method. Each takes the bytes of a parameter
  message and answers with the bytes of a result message (\<open>None\<close> is a NULL \<open>*out\<close>). The state is the
  supervisor (\<open>None\<close> for a NULL handle), the host \<open>world\<close>, and for the pack methods the pack host. A NULL
  input pointer is the empty input, which the code treats the same way. The trace macros are no-ops in the
  product build and are modelled in theory \<open>Trace\<close>.
\<close>

section \<open>Messages\<close>

definition PHRONESIS_CAPNP_MAX_BODY :: nat where "PHRONESIS_CAPNP_MAX_BODY = 512 * 1024"

definition cap_max :: nat where "cap_max = 1024 * 1024"

function msg_loop :: "'m codec \<Rightarrow> 'm \<Rightarrow> nat \<Rightarrow> bytes option" where
  "msg_loop cd m cap =
     (if cap = 0 \<or> cap > cap_max then None
      else
        (case capn_write_mem cd m cap of
           Some b \<Rightarrow> Some b
         | None \<Rightarrow> if cap > cap_max div 2 then None else msg_loop cd m (cap * 2)))"
  by pat_completeness auto
termination
  by (relation "measure (\<lambda>(cd, m, cap). cap_max + 1 - cap)") auto

declare msg_loop.simps [simp del]

definition write_msg :: "'m codec \<Rightarrow> 'm \<Rightarrow> bytes option" where
  "write_msg cd m =
     (case msg_loop cd m 8192 of
        None \<Rightarrow> None
      | Some b \<Rightarrow> if length b > PHRONESIS_CAPNP_MAX_BODY then None else Some b)"

definition put_agent :: "agent_id \<Rightarrow> agent_id option" where
  "put_agent a = Some \<lparr>aid_hi = aid_hi a, aid_lo = aid_lo a\<rparr>"

definition read_agent :: "agent_id option \<Rightarrow> agent_id" where
  "read_agent p = (case p of None \<Rightarrow> null_agent | Some a \<Rightarrow> a)"

definition workspace_for ::
  "supervisor option \<Rightarrow> agent_id \<Rightarrow> nat \<Rightarrow> world \<Rightarrow> cstring_opt \<times> supervisor option \<times> world" where
  "workspace_for so a ws_len w =
     (if ws_len = 0 then (None, so, w)
      else
        let hex = phronesis_agent_id_to_hex (aid_hi a) (aid_lo a)
        in if hex = [] then (None, so, w)
           else
             (case phronesis_supervisor_status so (Some hex) w of
                (Inl e, so1, w1) \<Rightarrow> (None, so1, w1)
              | (Inr st, so1, w1) \<Rightarrow>
                  (if st_workspace st = [] then None else Some (snprintf_buf ws_len (st_workspace st)), so1, w1)))"

definition emit_decision :: "'m codec \<Rightarrow> policy_result \<Rightarrow> agent_id \<Rightarrow> cstring_opt \<Rightarrow> bytes option" where
  "emit_decision cd pr a reason =
     (case build_PolicyDecision cd
             \<lparr>pd_decision = decision_ord (pr_decision pr),
              pd_reason = ctext (case reason of None \<Rightarrow> Some [] | Some r \<Rightarrow> Some r),
              pd_agentId = put_agent a, pd_code = reason_ord (pr_code pr)\<rparr> of
        None \<Rightarrow> None
      | Some m \<Rightarrow> write_msg cd m)"

definition emit_code :: "'m codec \<Rightarrow> decision \<Rightarrow> reason \<Rightarrow> agent_id \<Rightarrow> bytes option" where
  "emit_code cd d c a = emit_decision cd (phronesis_policy_result_set d c) a None"

definition deny_msg :: "'m codec \<Rightarrow> agent_id \<Rightarrow> reason \<Rightarrow> bytes option" where
  "deny_msg cd a c = emit_code cd DENY c a"

definition deny_reason :: "'m codec \<Rightarrow> agent_id \<Rightarrow> reason \<Rightarrow> string \<Rightarrow> bytes option" where
  "deny_reason cd a c why = emit_decision cd (phronesis_policy_result_set DENY c) a (Some why)"

text \<open>\<open>Some out\<close> when lockdown fired and \<open>out\<close> was written.\<close>

definition deny_if_all :: "'m codec \<Rightarrow> env \<Rightarrow> agent_id \<Rightarrow> bytes option option" where
  "deny_if_all cd e a = (if \<not> phronesis_policy_deny_all e then None else Some (emit_code cd DENY DENY_ALL a))"

definition admit_running_agent ::
  "supervisor option \<Rightarrow> agent_id \<Rightarrow> world \<Rightarrow> reason option \<times> supervisor option \<times> world" where
  "admit_running_agent so a w =
     (if aid_hi a = 0 \<and> aid_lo a = 0 then (Some INVALID_MESSAGE, so, w)
      else phronesis_policy_require_running_agent so (Some (phronesis_agent_id_to_hex (aid_hi a) (aid_lo a))) w)"

datatype 'm open_rc = Opened 'm | BadMessage | BodyTooLong

definition open_in :: "'m codec \<Rightarrow> bytes \<Rightarrow> 'm open_rc" where
  "open_in cd inp =
     (if inp = [] then BadMessage
      else if length inp > PHRONESIS_CAPNP_MAX_BODY then BodyTooLong
      else (case capn_init_mem cd inp of None \<Rightarrow> BadMessage | Some m \<Rightarrow> Opened m))"

text \<open>The message when \<open>open_in\<close> returned 0, for the callers that only test against 0.\<close>

definition opened :: "'m codec \<Rightarrow> bytes \<Rightarrow> 'm option" where
  "opened cd inp = (case open_in cd inp of Opened m \<Rightarrow> Some m | _ \<Rightarrow> None)"

section \<open>Checks\<close>

definition phronesis_status :: "'m codec \<Rightarrow> supervisor option \<Rightarrow> bytes option" where
  "phronesis_status cd so =
     (case build_PolicydStatus cd
             \<lparr>ps_version = ctext (Some phronesis_version_string), ps_apiVersion = phronesis_api_version,
              ps_stateDir = ctext (if so \<noteq> None then phronesis_supervisor_state_dir so else Some []),
              ps_runtimeDir = ctext (if so \<noteq> None then phronesis_supervisor_runtime_dir so else Some []),
              ps_ready = (so \<noteq> None)\<rparr> of
        None \<Rightarrow> None
      | Some m \<Rightarrow> write_msg cd m)"

text \<open>The seat actions of the schema: publishRun 0, readRun 1, listRuns 2, listEvents 3.\<close>

definition phronesis_check_seat ::
  "'m codec \<Rightarrow> supervisor option \<Rightarrow> bytes \<Rightarrow> world \<Rightarrow> bytes option \<times> supervisor option \<times> world" where
  "phronesis_check_seat cd so inp w =
     (case opened cd inp of
        None \<Rightarrow> (deny_msg cd null_agent INVALID_MESSAGE, so, w)
      | Some m \<Rightarrow>
          let sc = read_SeatCheck cd m; agent = read_agent (sc_agentId sc)
          in case deny_if_all cd (w_env w) agent of
               Some out \<Rightarrow> (out, so, w)
             | None \<Rightarrow>
                 (case admit_running_agent so agent w of
                    (Some code, so1, w1) \<Rightarrow> (deny_msg cd agent code, so1, w1)
                  | (None, so1, w1) \<Rightarrow>
                      (emit_decision cd
                         (if sc_action sc = 0 \<or> sc_action sc = 1 \<or> sc_action sc = 2 \<or> sc_action sc = 3
                          then phronesis_policy_result_set ALLOW SEAT_BOARD_ALLOW
                          else phronesis_policy_result_set DENY UNKNOWN_SEAT_ACTION) agent None, so1, w1)))"

definition phronesis_check_model ::
  "'m codec \<Rightarrow> supervisor option \<Rightarrow> bytes \<Rightarrow> world \<Rightarrow> bytes option \<times> supervisor option \<times> world" where
  "phronesis_check_model cd so inp w =
     (case opened cd inp of
        None \<Rightarrow> (deny_msg cd null_agent INVALID_MESSAGE, so, w)
      | Some m \<Rightarrow>
          let agent = read_agent (mc_agentId (read_ModelCheck cd m))
          in case deny_if_all cd (w_env w) agent of
               Some out \<Rightarrow> (out, so, w)
             | None \<Rightarrow>
                 (case admit_running_agent so agent w of
                    (Some code, so1, w1) \<Rightarrow> (deny_msg cd agent code, so1, w1)
                  | (None, so1, w1) \<Rightarrow>
                      (emit_decision cd (phronesis_policy_result_set ALLOW MODEL_START_ALLOW) agent None, so1, w1)))"

text \<open>\<open>path[0] ? path : NULL\<close> of a buffer.\<close>

definition or_null :: "string \<Rightarrow> cstring_opt" where
  "or_null s = (if s = [] then None else Some s)"

text \<open>The path actions of the schema: read 0, write 1, delete 2; any other value reads.\<close>

definition path_action :: "nat \<Rightarrow> string" where
  "path_action n = (if n = 1 then ''write'' else if n = 2 then ''delete'' else ''read'')"

definition phronesis_check_path ::
  "'m codec \<Rightarrow> supervisor option \<Rightarrow> bytes \<Rightarrow> world \<Rightarrow> bytes option \<times> supervisor option \<times> world" where
  "phronesis_check_path cd so inp w =
     (case opened cd inp of
        None \<Rightarrow> (deny_msg cd null_agent INVALID_MESSAGE, so, w)
      | Some m \<Rightarrow>
          let pc = read_PathCheck cd m; agent = read_agent (pc_agentId pc)
          in case deny_if_all cd (w_env w) agent of
               Some out \<Rightarrow> (out, so, w)
             | None \<Rightarrow>
                 (case workspace_for so agent PHRONESIS_PATH_MAX w of
                    (ws, so1, w1) \<Rightarrow>
                      let pl = text_len (pc_path pc)
                      in if pl \<ge> PHRONESIS_PATH_MAX \<or> pl > 0 \<and> t_str (pc_path pc) = None
                         then (deny_msg cd agent FIELD_TOO_LONG, so1, w1)
                         else
                           let path = cstr (text_bytes (pc_path pc));
                               pr = phronesis_policy_eval (w_env w1) ws (Some ''fs'') (Some (path_action (pc_action pc))) (or_null path)
                           in (emit_decision cd pr agent None, so1, w1)))"

definition shell_check_body ::
  "('e, 'f) vm \<Rightarrow> 'm codec \<Rightarrow> agent_id \<Rightarrow> cstring_opt \<Rightarrow> shell_check \<Rightarrow> world \<Rightarrow> 'f pack_host \<Rightarrow> bytes option \<times> 'f pack_host" where
  "shell_check_body vm cd agent ws sc w st =
     (let cl = text_len (sh_cwd sc)
      in if cl \<ge> PHRONESIS_PATH_MAX \<or> cl > 0 \<and> t_str (sh_cwd sc) = None
         then (deny_msg cd agent FIELD_TOO_LONG, st)
         else
           let cwd = cstr (text_bytes (sh_cwd sc));
               pr = phronesis_policy_eval (w_env w) ws (Some ''shell'') (Some ''exec'') (or_null cwd)
           in if pr_decision pr \<noteq> ALLOW then (emit_decision cd pr agent None, st)
              else if sh_argv sc \<noteq> [] then
                (case phronesis_shell_pack vm cd w ws (Some cwd) (sh_argv sc) st of
                   (pack_out, st1) \<Rightarrow>
                     (if pack_out \<noteq> None \<and> pack_out \<noteq> Some [] then pack_out
                      else deny_msg cd agent PACK_BAD_RESULT, st1))
              else (emit_decision cd pr agent None, st))"

definition phronesis_check_shell ::
  "('e, 'f) vm \<Rightarrow> 'm codec \<Rightarrow> supervisor option \<Rightarrow> bytes \<Rightarrow> world \<Rightarrow> 'f pack_host \<Rightarrow>
   bytes option \<times> supervisor option \<times> world \<times> 'f pack_host" where
  "phronesis_check_shell vm cd so inp w st =
     (case open_in cd inp of
        BodyTooLong \<Rightarrow>
          (deny_reason cd null_agent FIELD_TOO_LONG
             (snprintf_buf 80 (''command body exceeds '' @ show_nat PHRONESIS_CAPNP_MAX_BODY @ '' bytes'')), so, w, st)
      | BadMessage \<Rightarrow> (deny_msg cd null_agent INVALID_MESSAGE, so, w, st)
      | Opened m \<Rightarrow>
          let sc = read_ShellCheck cd m; agent = read_agent (sh_agentId sc)
          in case deny_if_all cd (w_env w) agent of
               Some out \<Rightarrow> (out, so, w, st)
             | None \<Rightarrow>
                 (case workspace_for so agent PHRONESIS_PATH_MAX w of
                    (ws, so1, w1) \<Rightarrow>
                      (case shell_check_body vm cd agent ws sc w1 st of (out, st1) \<Rightarrow> (out, so1, w1, st1))))"

text \<open>The risk actions of the schema: secretExport is 1.\<close>

definition phronesis_check_risk :: "'m codec \<Rightarrow> bytes \<Rightarrow> world \<Rightarrow> bytes option" where
  "phronesis_check_risk cd inp w =
     (case opened cd inp of
        None \<Rightarrow> deny_msg cd null_agent INVALID_MESSAGE
      | Some m \<Rightarrow>
          let rc = read_RiskCheck cd m; agent = read_agent (rk_agentId rc)
          in case deny_if_all cd (w_env w) agent of
               Some out \<Rightarrow> out
             | None \<Rightarrow>
                 emit_decision cd
                   (if rk_action rc = 1 then phronesis_policy_result_set DENY SECRET_EXPORT_DENIED
                    else phronesis_policy_result_set PROMPT HIGH_RISK_PROMPT) agent None)"

definition policy_result_from_capnp :: "'m codec \<Rightarrow> bytes \<Rightarrow> policy_result option" where
  "policy_result_from_capnp cd msg =
     (if msg = [] then None
      else
        (case capn_init_mem cd msg of
           None \<Rightarrow> None
         | Some m \<Rightarrow>
             let d = read_PolicyDecision cd m
             in Some (phronesis_policy_result_set (decision_of_ord (pd_decision d)) (reason_of_ord (pd_code d)))))"

definition phronesis_check_audio ::
  "('e, 'f) vm \<Rightarrow> 'm codec \<Rightarrow> bytes \<Rightarrow> world \<Rightarrow> 'f pack_host \<Rightarrow> bytes option \<times> 'f pack_host" where
  "phronesis_check_audio vm cd inp w st =
     (case opened cd inp of
        None \<Rightarrow> (deny_msg cd null_agent INVALID_MESSAGE, st)
      | Some m \<Rightarrow>
          let agent = read_agent (au_agentId (read_AudioCheck cd m))
          in case deny_if_all cd (w_env w) agent of
               Some out \<Rightarrow> (out, st)
             | None \<Rightarrow>
                 if phronesis_env_truthy (w_env w) ''PHRONESIS_AUDIO_ALLOW''
                 then (emit_code cd ALLOW AUDIO_FIXTURE_ALLOW agent, st)
                 else
                   (case phronesis_audio_pack vm cd w inp st of
                      (pack_out, st1) \<Rightarrow>
                        (case Option.bind pack_out (policy_result_from_capnp cd) of
                           None \<Rightarrow> (deny_msg cd agent PACK_BAD_RESULT, st1)
                         | Some pr \<Rightarrow> (emit_decision cd pr agent None, st1))))"

section \<open>Admission, status, reload\<close>

definition phronesis_admit_seat ::
  "'m codec \<Rightarrow> supervisor option \<Rightarrow> bytes \<Rightarrow> world \<Rightarrow> bytes option \<times> supervisor option \<times> world" where
  "phronesis_admit_seat cd so inp w =
     (case opened cd inp of
        None \<Rightarrow> (deny_msg cd null_agent INVALID_MESSAGE, so, w)
      | Some m \<Rightarrow>
          let agent = read_agent (ad_agentId (read_AdmitSeat cd m))
          in case Option.bind (build_SeatCheck cd \<lparr>sc_agentId = put_agent agent, sc_action = 0\<rparr>) (write_msg cd) of
               None \<Rightarrow> (deny_msg cd agent INVALID_MESSAGE, so, w)
             | Some inner \<Rightarrow> phronesis_check_seat cd so inner w)"

definition phronesis_admit_model ::
  "'m codec \<Rightarrow> supervisor option \<Rightarrow> bytes \<Rightarrow> world \<Rightarrow> bytes option \<times> supervisor option \<times> world" where
  "phronesis_admit_model cd so inp w =
     (case opened cd inp of
        None \<Rightarrow> (deny_msg cd null_agent INVALID_MESSAGE, so, w)
      | Some m \<Rightarrow>
          let agent = read_agent (ad_agentId (read_AdmitModel cd m))
          in case Option.bind (build_ModelCheck cd \<lparr>mc_agentId = put_agent agent, mc_model = ctext (Some [])\<rparr>) (write_msg cd) of
               None \<Rightarrow> (deny_msg cd agent INVALID_MESSAGE, so, w)
             | Some inner \<Rightarrow> phronesis_check_model cd so inner w)"

text \<open>The two answers of \<open>agentStatus\<close>; the state \<open>missing\<close> of the schema is 3, the mode \<open>develop\<close> 0.\<close>

definition status_msg :: "agent_id \<Rightarrow> agent_status \<Rightarrow> agent_status_msg" where
  "status_msg a st =
     \<lparr>as_id = put_agent a, as_state = agent_state_int (st_state st), as_pid = st_pid st, as_pgid = st_pgid st,
      as_exitStatus = st_exit_status st, as_mode = 0, as_workspace = ctext (Some (st_workspace st)),
      as_hasCgroup = st_has_cgroup st, as_detail = ctext (Some [])\<rparr>"

definition missing_msg :: "agent_id \<Rightarrow> agent_status_msg" where
  "missing_msg a =
     \<lparr>as_id = put_agent a, as_state = 3, as_pid = 0, as_pgid = 0, as_exitStatus = 0, as_mode = 0,
      as_workspace = \<lparr>t_len = 0, t_str = None\<rparr>, as_hasCgroup = False, as_detail = ctext (Some ''agent not found'')\<rparr>"

definition emit_status :: "'m codec \<Rightarrow> agent_status_msg \<Rightarrow> bytes option" where
  "emit_status cd s = Option.bind (build_AgentStatus cd s) (write_msg cd)"

definition phronesis_agent_status ::
  "'m codec \<Rightarrow> supervisor option \<Rightarrow> bytes \<Rightarrow> world \<Rightarrow> bytes option \<times> supervisor option \<times> world" where
  "phronesis_agent_status cd so inp w =
     (case opened cd inp of
        None \<Rightarrow> (emit_status cd (missing_msg null_agent), so, w)
      | Some m \<Rightarrow>
          let agent = read_agent (read_AgentQuery cd m); hex = phronesis_agent_id_to_hex (aid_hi agent) (aid_lo agent)
          in if hex = [] \<or> so = None then (emit_status cd (missing_msg agent), so, w)
             else
               (case phronesis_supervisor_status so (Some hex) w of
                  (Inl e, so1, w1) \<Rightarrow> (emit_status cd (missing_msg agent), so1, w1)
                | (Inr st, so1, w1) \<Rightarrow> (emit_status cd (status_msg agent st), so1, w1)))"

definition phronesis_reload_shell_pack ::
  "('e, 'f) vm \<Rightarrow> 'm codec \<Rightarrow> bytes \<Rightarrow> world \<Rightarrow> 'f pack_host \<Rightarrow> bytes option \<times> world \<times> 'f pack_host" where
  "phronesis_reload_shell_pack vm cd inp w st =
     (case opened cd inp of
        None \<Rightarrow> (deny_msg cd null_agent INVALID_MESSAGE, w, st)
      | Some m \<Rightarrow>
          let rp = read_ReloadShellPack cd m; pl = text_len rp
          in if pl = 0 \<or> pl \<ge> 4096 * 16 \<or> t_str rp = None
             then (deny_msg cd null_agent PACK_PATH_INVALID, w, st)
             else
               case deny_if_all cd (w_env w) null_agent of
                 Some out \<Rightarrow> (out, w, st)
               | None \<Rightarrow>
                   (case phronesis_shell_pack_reload_internal vm (Some (cstr (text_bytes rp))) w st of
                      (r, w1, st1) \<Rightarrow>
                        (emit_decision cd
                           (case r of
                              LoadOk \<Rightarrow> phronesis_policy_result_set ALLOW PACK_RELOADED
                            | LoadInvalid \<Rightarrow> phronesis_policy_result_set DENY PACK_PATH_INVALID
                            | LoadFailed \<Rightarrow> phronesis_policy_result_set DENY PACK_LOAD_FAILED) null_agent None, w1, st1)))"

section \<open>Answers\<close>

text \<open>The message the host writes for a decision of its own.\<close>

definition host_answer :: "decision \<Rightarrow> reason \<Rightarrow> agent_id \<Rightarrow> string \<Rightarrow> policy_decision" where
  "host_answer d c a why =
     \<lparr>pd_decision = decision_ord d, pd_reason = ctext (Some why), pd_agentId = Some a, pd_code = reason_ord c\<rparr>"

lemma host_answer_sel [simp]:
  "pd_decision (host_answer d c a why) = decision_ord d" "pd_code (host_answer d c a why) = reason_ord c"
  "pd_agentId (host_answer d c a why) = Some a" "pd_reason (host_answer d c a why) = ctext (Some why)"
  by (simp_all add: host_answer_def)

lemma says_deny: "says cd out (host_answer DENY c a why) \<Longrightarrow> \<exists>d. says cd out d \<and> pd_decision d = 0"
  by (rule exI [of _ "host_answer DENY c a why"]) simp

lemma msg_loop_writes:
  assumes wr: "writes cd m b"
  shows "k \<le> 7 \<Longrightarrow> msg_loop cd m (8192 * 2 ^ k) = (if length b \<le> 1024 * 1024 then Some b else None)"
proof (induction "7 - k" arbitrary: k)
  case 0
  then have "k = 7" by simp
  then show ?case using wr by (subst msg_loop.simps) (simp add: writes_def cap_max_def)
next
  case (Suc j)
  then have k: "k \<le> 6" "j = 7 - Suc k" by simp_all
  have IH: "msg_loop cd m (8192 * 2 ^ Suc k) = (if length b \<le> 1024 * 1024 then Some b else None)"
    using Suc.hyps(1) [OF k(2)] k(1) by simp
  have "(2::nat) ^ k \<le> 2 ^ 6" using k(1) by (intro power_increasing) auto
  then have "8192 * 2 ^ k \<le> (524288 :: nat)" by simp
  then show ?case using wr IH by (subst msg_loop.simps) (auto simp: writes_def cap_max_def mult.commute)
qed

lemma write_msg_writes: "writes cd m b \<Longrightarrow> write_msg cd m = (if length b \<le> 524288 then Some b else None)"
  using msg_loop_writes [of cd m b 0] by (simp add: write_msg_def PHRONESIS_CAPNP_MAX_BODY_def)

lemma small_message_writes:
  "small_message cd mo b m' \<Longrightarrow> \<exists>q. mo = Some q \<and> write_msg cd q = Some b \<and> b \<noteq> [] \<and> length b \<le> 8192 \<and> capn_init_mem cd b = Some m'"
  by (auto simp: small_message_def write_msg_writes)

lemma put_agent_Some [simp]: "put_agent a = Some a"
  by (simp add: put_agent_def)

lemma emit_decision_says:
  assumes "decision_codec cd" "decision_ord (pr_decision pr) < 65536" "reason_ord (pr_code pr) < 65536" "length why \<le> 80"
    and "r = Some why \<or> r = None \<and> why = []"
  shows "says cd (emit_decision cd pr a r) (host_answer (pr_decision pr) (pr_code pr) a why)"
proof -
  let ?d = "host_answer (pr_decision pr) (pr_code pr) a why"
  have "host_decision ?d" using assms(2-4) by (auto simp: host_decision_def host_answer_def)
  then obtain m b where m: "build_PolicyDecision cd ?d = Some m" "writes cd m b" "length b \<le> 8192" "says cd (Some b) ?d"
    using host_decision_says [OF assms(1)] by blast
  have "write_msg cd m = Some b" using write_msg_writes [OF m(2)] m(3) by simp
  moreover have "emit_decision cd pr a r = write_msg cd m"
    using m(1) assms(5) by (auto simp: emit_decision_def host_answer_def)
  ultimately show ?thesis using m(4) by simp
qed

text \<open>A result that the host produced itself: a named code and one of the three decisions.\<close>

definition host_result :: "policy_result \<Rightarrow> bool" where
  "host_result pr \<longleftrightarrow> pr_code pr \<in> set reason_table \<and> decision_ord (pr_decision pr) \<le> 2"

lemma emit_host_says:
  "decision_codec cd \<Longrightarrow> host_result pr \<Longrightarrow> says cd (emit_decision cd pr a None) (host_answer (pr_decision pr) (pr_code pr) a [])"
  using reason_ord_bound [of "pr_code pr"] by (intro emit_decision_says) (auto simp: host_result_def)

lemma host_result_set [simp]:
  "host_result (phronesis_policy_result_set d c) \<longleftrightarrow> c \<in> set reason_table \<and> decision_ord d \<le> 2"
  by (simp add: host_result_def)

lemma emit_code_says:
  "decision_codec cd \<Longrightarrow> c \<in> set reason_table \<Longrightarrow> decision_ord d \<le> 2 \<Longrightarrow> says cd (emit_code cd d c a) (host_answer d c a [])"
  using emit_host_says [of cd "phronesis_policy_result_set d c" a] by (simp add: emit_code_def)

lemma deny_msg_says: "decision_codec cd \<Longrightarrow> c \<in> set reason_table \<Longrightarrow> says cd (deny_msg cd a c) (host_answer DENY c a [])"
  by (simp add: deny_msg_def emit_code_says)

lemma deny_reason_says:
  "decision_codec cd \<Longrightarrow> c \<in> set reason_table \<Longrightarrow> length why \<le> 80 \<Longrightarrow>
   says cd (deny_reason cd a c why) (host_answer DENY c a why)"
  using emit_decision_says [of cd "phronesis_policy_result_set DENY c" why "Some why" a] reason_ord_bound [of c]
  by (simp add: deny_reason_def)

lemma api_reasons: "INVALID_MESSAGE \<in> set reason_table" "FIELD_TOO_LONG \<in> set reason_table" "DENY_ALL \<in> set reason_table"
  "TOOLS_DEFAULT_DENY \<in> set reason_table" "SEAT_BOARD_ALLOW \<in> set reason_table" "UNKNOWN_SEAT_ACTION \<in> set reason_table"
  "MODEL_START_ALLOW \<in> set reason_table" "PACK_BAD_RESULT \<in> set reason_table" "SECRET_EXPORT_DENIED \<in> set reason_table"
  "HIGH_RISK_PROMPT \<in> set reason_table" "AUDIO_FIXTURE_ALLOW \<in> set reason_table" "PACK_PATH_INVALID \<in> set reason_table"
  "PACK_RELOADED \<in> set reason_table" "PACK_LOAD_FAILED \<in> set reason_table"
  by (simp_all add: reason_table_def)

lemma pred_if: "P a \<Longrightarrow> P b \<Longrightarrow> P (if c then a else b)"
  by simp

lemma policy_eval_host_result: "host_result (phronesis_policy_eval e ws tool action path)"
  unfolding phronesis_policy_eval_def
  by (intro pred_if [where P = host_result]) (simp_all add: reason_table_def)

lemma deny_if_all_cases:
  assumes "decision_codec cd"
  shows "deny_if_all cd e a = (if phronesis_policy_deny_all e then Some (emit_code cd DENY DENY_ALL a) else None)"
    and "says cd (emit_code cd DENY DENY_ALL a) (host_answer DENY DENY_ALL a [])"
  using assms by (simp_all add: deny_if_all_def emit_code_says api_reasons)

lemma require_running_codes:
  "phronesis_policy_require_running_agent so aid w = (Some c, so1, w1) \<Longrightarrow> c \<in> set reason_table"
  by (auto simp: phronesis_policy_require_running_agent_def api_reasons split: if_splits prod.splits sum.splits)

lemma admit_running_codes: "admit_running_agent so a w = (Some c, so1, w1) \<Longrightarrow> c \<in> set reason_table"
  using require_running_codes by (fastforce simp: admit_running_agent_def api_reasons split: if_splits)

text \<open>Every answer of the pack host is readable.\<close>

lemma shell_pack_answers:
  assumes cd: "decision_codec cd"
  shows "\<exists>d. says cd (fst (phronesis_shell_pack vm cd w ws cwd argv st)) d"
proof (cases "load_pack_once vm w st")
  case (Pair ok st1)
  note long = build_deny_says [OF cd pack_reasons(5)]
  have len: "length (snprintf_buf 80 s) \<le> 80" for s by (simp add: snprintf_buf_def)
  show ?thesis
  proof (cases ok)
    case False
    then show ?thesis using Pair host_deny_says [OF cd pack_reasons(1)] by (auto simp: phronesis_shell_pack_def)
  next
    case True
    show ?thesis
    proof (cases "phronesis_build_shell_view cd w ws cwd argv")
      case (ViewOk b)
      obtain out st2 where "compose_pack_entry vm cd w True b st1 = (out, st2)" by fastforce
      moreover from pack_host_answers [OF cd this] obtain d where "says cd out d" by blast
      ultimately show ?thesis using Pair True ViewOk by (auto simp: phronesis_shell_pack_def)
    qed (use Pair True host_deny_says [OF cd pack_reasons(4)] long [OF len] in \<open>auto simp: phronesis_shell_pack_def\<close>)
  qed
qed

lemma audio_pack_answers: "decision_codec cd \<Longrightarrow> \<exists>d. says cd (fst (phronesis_audio_pack vm cd w inp st)) d"
  using pack_host_answers [of cd vm w False inp st] unfolding phronesis_audio_pack_def by (metis prod.collapse)


section \<open>What each entry point answers\<close>

lemma opened_Some: "opened cd inp = Some m \<longleftrightarrow> inp \<noteq> [] \<and> length inp \<le> 524288 \<and> capn_init_mem cd inp = Some m"
  by (auto simp: opened_def open_in_def PHRONESIS_CAPNP_MAX_BODY_def split: option.splits)

lemma open_in_Opened: "open_in cd inp = Opened m \<longleftrightarrow> opened cd inp = Some m"
  by (cases "open_in cd inp") (auto simp: opened_def)

abbreviation agent_key :: "agent_id \<Rightarrow> string" where
  "agent_key a \<equiv> phronesis_agent_id_to_hex (aid_hi a) (aid_lo a)"

lemma admit_effect:
  assumes "sup_ok s" "admit_running_agent (Some s) a w = (c, so', w')"
  shows "\<exists>s'. so' = Some s' \<and> only_agent (agent_key a) s s'
    \<and> (c = None \<longrightarrow> a \<noteq> null_agent \<and> (\<exists>x. view s' (agent_key a) = Some x \<and> slot_state x = AGENT_RUNNING))"
proof (cases "aid_hi a = 0 \<and> aid_lo a = 0")
  case True
  then show ?thesis using assms only_agent_refl by (auto simp: admit_running_agent_def)
next
  case False
  then have "phronesis_policy_require_running_agent (Some s) (Some (agent_key a)) w = (c, so', w')"
    using assms(2) by (simp add: admit_running_agent_def split: if_splits)
  from require_running_effect [OF assms(1) this] show ?thesis using False by (auto simp: or_empty_def null_agent_def)
qed

lemma workspace_effect:
  assumes "sup_ok s" "workspace_for (Some s) a n w = (ws, so', w')"
  shows "\<exists>s'. so' = Some s' \<and> only_agent (agent_key a) s s'
    \<and> (\<forall>p. ws = Some p \<longrightarrow> (\<exists>x. view s' (agent_key a) = Some x \<and> p = snprintf_buf n (snprintf_buf PHRONESIS_PATH_MAX (slot_workspace x))))"
proof (cases "n = 0 \<or> agent_key a = []")
  case True
  then show ?thesis using assms only_agent_refl by (auto simp: workspace_for_def Let_def split: if_splits)
next
  case False
  obtain r so1 w1 where st: "phronesis_supervisor_status (Some s) (Some (agent_key a)) w = (r, so1, w1)" by (metis prod.collapse)
  show ?thesis
    using status_effect [OF assms(1) st] assms(2) False st
    by (cases r) (auto simp: workspace_for_def or_empty_def status_of_def split: if_splits)
qed

text \<open>The contract that the entry points share: a message that cannot be opened and lockdown are denied before
  anything else happens, and leave the state as it was (\<open>idle\<close>).\<close>

locale guarded_entry =
  fixes cd :: "'m codec"
    and entry :: "bytes \<Rightarrow> world \<Rightarrow> bytes option \<times> 's"
    and idle :: "world \<Rightarrow> 's"
  assumes bad: "opened cd inp = None \<Longrightarrow> entry inp w = (deny_msg cd null_agent INVALID_MESSAGE, idle w)"
    and lock: "opened cd inp = Some m \<Longrightarrow> phronesis_policy_deny_all (w_env w) \<Longrightarrow> \<exists>a. entry inp w = (emit_code cd DENY DENY_ALL a, idle w)"
begin

lemma bad_message:
  "decision_codec cd \<Longrightarrow> opened cd inp = None \<Longrightarrow>
   snd (entry inp w) = idle w \<and> says cd (fst (entry inp w)) (host_answer DENY INVALID_MESSAGE null_agent [])"
  by (simp add: bad deny_msg_says api_reasons)

lemma lockdown_message:
  "decision_codec cd \<Longrightarrow> opened cd inp = Some m \<Longrightarrow> phronesis_policy_deny_all (w_env w) \<Longrightarrow>
   snd (entry inp w) = idle w \<and> (\<exists>a. says cd (fst (entry inp w)) (host_answer DENY DENY_ALL a []))"
  using lock [of inp m w] emit_code_says [of cd DENY_ALL DENY] api_reasons(3) by fastforce

text \<open>Under lockdown the entry denies whatever the input.\<close>

lemma lockdown_denies:
  assumes "decision_codec cd" "phronesis_policy_deny_all (w_env w)"
  shows "snd (entry inp w) = idle w \<and> (\<exists>d. says cd (fst (entry inp w)) d \<and> pd_decision d = 0)"
proof (cases "opened cd inp")
  case None
  then show ?thesis using bad_message [OF assms(1) None, of w] says_deny by blast
next
  case (Some m)
  then show ?thesis using lockdown_message [OF assms(1) Some assms(2)] says_deny by blast
qed

end

text \<open>The condition under which an entry that admits an agent allows.\<close>

definition admitted ::
  "'m codec \<Rightarrow> ('m \<Rightarrow> agent_id) \<Rightarrow> ('m \<Rightarrow> decision \<times> reason) \<Rightarrow> supervisor option \<Rightarrow> bytes \<Rightarrow> world \<Rightarrow> bool" where
  "admitted cd agent_of grant so inp w \<longleftrightarrow>
     (\<exists>m. opened cd inp = Some m \<and> \<not> phronesis_policy_deny_all (w_env w) \<and> fst (grant m) = ALLOW
        \<and> fst (admit_running_agent so (agent_of m) w) = None)"

text \<open>The entry points that admit an agent: after the guards, only a running agent gets the answer that the message
  asks for (\<open>grant\<close>).\<close>

locale admitting_entry =
  fixes cd :: "'m codec"
    and entry :: "supervisor option \<Rightarrow> bytes \<Rightarrow> world \<Rightarrow> bytes option \<times> supervisor option \<times> world"
    and agent_of :: "'m \<Rightarrow> agent_id"
    and grant :: "'m \<Rightarrow> decision \<times> reason"
  assumes refuse: "opened cd inp = None \<Longrightarrow> entry so inp w = (deny_msg cd null_agent INVALID_MESSAGE, so, w)"
    and locked: "opened cd inp = Some m \<Longrightarrow> phronesis_policy_deny_all (w_env w) \<Longrightarrow>
      entry so inp w = (emit_code cd DENY DENY_ALL (agent_of m), so, w)"
    and gate: "opened cd inp = Some m \<Longrightarrow> \<not> phronesis_policy_deny_all (w_env w) \<Longrightarrow> admit_running_agent so (agent_of m) w = (c, so1, w1) \<Longrightarrow>
      entry so inp w = (case c of Some code \<Rightarrow> deny_msg cd (agent_of m) code
                        | None \<Rightarrow> emit_code cd (fst (grant m)) (snd (grant m)) (agent_of m), so1, w1)"
    and grant_named: "snd (grant m) \<in> set reason_table" "fst (grant m) = ALLOW \<or> fst (grant m) = DENY"

sublocale admitting_entry \<subseteq> guard: guarded_entry cd "entry so" "\<lambda>w. (so, w)" for so
  by unfold_locales (auto simp: refuse locked)

context admitting_entry
begin

lemma grant_says: "decision_codec cd \<Longrightarrow>
  says cd (emit_code cd (fst (grant m)) (snd (grant m)) a) (host_answer (fst (grant m)) (snd (grant m)) a [])"
  using grant_named [of m] by (intro emit_code_says) auto

lemma allow_iff:
  assumes c: "decision_codec cd"
  shows "\<exists>d. says cd (fst (entry so inp w)) d \<and> pd_decision d = (if admitted cd agent_of grant so inp w then 1 else 0)
    \<and> (\<forall>m. opened cd inp = Some m \<longrightarrow> pd_agentId d = Some (agent_of m))"
proof (cases "opened cd inp")
  case None
  then show ?thesis using refuse [OF None, of so w] deny_msg_says [OF c api_reasons(1), of null_agent]
    by (intro exI [of _ "host_answer DENY INVALID_MESSAGE null_agent []"]) (simp add: admitted_def)
next
  case (Some m)
  show ?thesis
  proof (cases "phronesis_policy_deny_all (w_env w)")
    case True
    then show ?thesis using locked [OF Some True, of so] Some emit_code_says [OF c api_reasons(3), of DENY "agent_of m"]
      by (intro exI [of _ "host_answer DENY DENY_ALL (agent_of m) []"]) (simp add: admitted_def)
  next
    case nl: False
    obtain r so1 w1 where ad: "admit_running_agent so (agent_of m) w = (r, so1, w1)" by (metis prod.collapse)
    note g = gate [OF Some nl ad]
    show ?thesis
    proof (cases r)
      case None
      then show ?thesis using g grant_says [OF c, of m "agent_of m"] Some nl ad grant_named(2) [of m]
        by (intro exI [of _ "host_answer (fst (grant m)) (snd (grant m)) (agent_of m) []"]) (auto simp: admitted_def)
    next
      case s: (Some code)
      then show ?thesis using g deny_msg_says [OF c admit_running_codes [OF ad [unfolded s]], of "agent_of m"] Some nl ad
        by (intro exI [of _ "host_answer DENY code (agent_of m) []"]) (simp add: admitted_def)
    qed
  qed
qed

text \<open>On a well-formed supervisor an admitted agent has a running slot.\<close>

lemma admitted_running:
  assumes ok: "sup_ok s" and a: "admitted cd agent_of grant (Some s) inp w"
  shows "\<exists>m s' w' x. opened cd inp = Some m \<and> snd (entry (Some s) inp w) = (Some s', w') \<and> agent_of m \<noteq> null_agent
    \<and> view s' (agent_key (agent_of m)) = Some x \<and> slot_state x = AGENT_RUNNING"
proof -
  obtain m where m: "opened cd inp = Some m" "\<not> phronesis_policy_deny_all (w_env w)" "fst (admit_running_agent (Some s) (agent_of m) w) = None"
    using a by (auto simp: admitted_def)
  then obtain so1 w1 where ad: "admit_running_agent (Some s) (agent_of m) w = (None, so1, w1)" by (metis prod.collapse)
  show ?thesis using admit_effect [OF ok ad] gate [OF m(1,2) ad] m(1) by fastforce
qed

end

interpretation seat: admitting_entry cd "phronesis_check_seat cd" "\<lambda>m. read_agent (sc_agentId (read_SeatCheck cd m))"
    "\<lambda>m. if sc_action (read_SeatCheck cd m) \<le> 3 then (ALLOW, SEAT_BOARD_ALLOW) else (DENY, UNKNOWN_SEAT_ACTION)" for cd
proof -
  have act: "(x = 0 \<or> x = 1 \<or> x = 2 \<or> x = 3) = (x \<le> 3)" for x :: nat by auto
  show "admitting_entry cd (phronesis_check_seat cd) (\<lambda>m. read_agent (sc_agentId (read_SeatCheck cd m)))
    (\<lambda>m. if sc_action (read_SeatCheck cd m) \<le> 3 then (ALLOW, SEAT_BOARD_ALLOW) else (DENY, UNKNOWN_SEAT_ACTION))"
    by unfold_locales
      (auto simp: phronesis_check_seat_def deny_if_all_def Let_def emit_code_def api_reasons act split: option.splits)
qed

interpretation model: admitting_entry cd "phronesis_check_model cd" "\<lambda>m. read_agent (mc_agentId (read_ModelCheck cd m))"
    "\<lambda>m. (ALLOW, MODEL_START_ALLOW)" for cd
  by unfold_locales
    (auto simp: phronesis_check_model_def deny_if_all_def Let_def emit_code_def api_reasons split: option.splits)

interpretation path: guarded_entry cd "phronesis_check_path cd so" "\<lambda>w. (so, w)" for cd so
  by unfold_locales (auto simp: phronesis_check_path_def deny_if_all_def Let_def)

interpretation risk: guarded_entry cd "\<lambda>inp w. (phronesis_check_risk cd inp w, w)" "\<lambda>w. w" for cd
  by unfold_locales (auto simp: phronesis_check_risk_def deny_if_all_def Let_def)

interpretation audio: guarded_entry cd "\<lambda>inp w. phronesis_check_audio vm cd inp w st" "\<lambda>w. st" for cd vm st
  by unfold_locales (auto simp: phronesis_check_audio_def deny_if_all_def Let_def)

lemma check_shell_long:
  assumes "decision_codec cd" "length inp > 524288"
  shows "\<exists>out. phronesis_check_shell vm cd so inp w st = (out, so, w, st)
    \<and> says cd out (host_answer DENY FIELD_TOO_LONG null_agent ''command body exceeds 524288 bytes'')"
proof -
  have "snprintf_buf 80 (''command body exceeds '' @ show_nat PHRONESIS_CAPNP_MAX_BODY @ '' bytes'') = ''command body exceeds 524288 bytes''"
    by code_simp
  moreover have "open_in cd inp = BodyTooLong" using assms(2) by (auto simp: open_in_def PHRONESIS_CAPNP_MAX_BODY_def)
  ultimately show ?thesis using deny_reason_says [OF assms(1) api_reasons(2), of "''command body exceeds 524288 bytes''"]
    by (simp add: phronesis_check_shell_def)
qed

lemma check_shell_lockdown:
  assumes "decision_codec cd" "phronesis_policy_deny_all (w_env w)"
  shows "snd (phronesis_check_shell vm cd so inp w st) = (so, w, st)
    \<and> (\<exists>d. says cd (fst (phronesis_check_shell vm cd so inp w st)) d \<and> pd_decision d = 0)"
proof (cases "open_in cd inp")
  case BodyTooLong
  then have "length inp > 524288" by (auto simp: open_in_def PHRONESIS_CAPNP_MAX_BODY_def split: if_splits option.splits)
  then obtain out where "phronesis_check_shell vm cd so inp w st = (out, so, w, st)"
    "says cd out (host_answer DENY FIELD_TOO_LONG null_agent ''command body exceeds 524288 bytes'')"
    using check_shell_long [OF assms(1)] by blast
  then show ?thesis using says_deny by simp
next
  case BadMessage
  then show ?thesis using says_deny [OF deny_msg_says [OF assms(1) api_reasons(1), of null_agent]]
    by (simp add: phronesis_check_shell_def)
next
  case (Opened m)
  then show ?thesis
    using assms(2) says_deny [OF emit_code_says [OF assms(1) api_reasons(3), of DENY "read_agent (sh_agentId (read_ShellCheck cd m))"]]
    by (simp add: phronesis_check_shell_def deny_if_all_def Let_def)
qed

lemma check_risk_opened:
  assumes "decision_codec cd" "opened cd inp = Some m" "\<not> phronesis_policy_deny_all (w_env w)"
  shows "says cd (phronesis_check_risk cd inp w)
    (if rk_action (read_RiskCheck cd m) = 1 then host_answer DENY SECRET_EXPORT_DENIED (read_agent (rk_agentId (read_RiskCheck cd m))) []
     else host_answer PROMPT HIGH_RISK_PROMPT (read_agent (rk_agentId (read_RiskCheck cd m))) [])"
proof -
  have "host_result (phronesis_policy_result_set DENY SECRET_EXPORT_DENIED)"
    "host_result (phronesis_policy_result_set PROMPT HIGH_RISK_PROMPT)" by (simp_all add: api_reasons)
  note emit_host_says [OF assms(1) this(1)] emit_host_says [OF assms(1) this(2)]
  then show ?thesis using assms(2,3) by (simp add: phronesis_check_risk_def deny_if_all_def Let_def)
qed

lemma admit_seat_is_check:
  assumes "seat_codec cd" "opened cd inp = Some m"
  shows "\<exists>inner m'. opened cd inner = Some m' \<and> read_SeatCheck cd m' = \<lparr>sc_agentId = Some (read_agent (ad_agentId (read_AdmitSeat cd m))), sc_action = 0\<rparr>
    \<and> phronesis_admit_seat cd so inp w = phronesis_check_seat cd so inner w"
proof -
  let ?c = "\<lparr>sc_agentId = Some (read_agent (ad_agentId (read_AdmitSeat cd m))), sc_action = 0\<rparr>"
  obtain b m' where b: "small_message cd (build_SeatCheck cd ?c) b m'" "read_SeatCheck cd m' = ?c"
    using assms(1) [unfolded seat_codec_def, THEN spec [where x = ?c]] by auto
  obtain q where q: "build_SeatCheck cd ?c = Some q" "write_msg cd q = Some b" "b \<noteq> []" "length b \<le> 8192" "capn_init_mem cd b = Some m'"
    using small_message_writes [OF b(1)] by blast
  have "opened cd b = Some m'" using q by (simp add: opened_Some)
  moreover have "phronesis_admit_seat cd so inp w = phronesis_check_seat cd so b w"
    using assms(2) q by (simp add: phronesis_admit_seat_def Let_def)
  ultimately show ?thesis using b(2) by blast
qed

lemma admit_model_is_check:
  assumes "model_codec cd" "opened cd inp = Some m"
  shows "\<exists>inner m'. opened cd inner = Some m' \<and> mc_agentId (read_ModelCheck cd m') = Some (read_agent (ad_agentId (read_AdmitModel cd m)))
    \<and> phronesis_admit_model cd so inp w = phronesis_check_model cd so inner w"
proof -
  let ?a = "Some (read_agent (ad_agentId (read_AdmitModel cd m)))"
  let ?c = "\<lparr>mc_agentId = ?a, mc_model = ctext (Some [])\<rparr>"
  obtain b m' where b: "small_message cd (build_ModelCheck cd ?c) b m'" "mc_agentId (read_ModelCheck cd m') = ?a"
    using assms(1) [unfolded model_codec_def, THEN spec [where x = ?a]] by auto
  obtain q where q: "build_ModelCheck cd ?c = Some q" "write_msg cd q = Some b" "b \<noteq> []" "length b \<le> 8192" "capn_init_mem cd b = Some m'"
    using small_message_writes [OF b(1)] by blast
  have "opened cd b = Some m'" using q by (simp add: opened_Some)
  moreover have "phronesis_admit_model cd so inp w = phronesis_check_model cd so b w"
    using assms(2) q by (simp add: phronesis_admit_model_def Let_def)
  ultimately show ?thesis using b(2) by blast
qed


lemma workspace_slot:
  assumes ok: "sup_ok s" and ws: "workspace_for (Some s) a PHRONESIS_PATH_MAX w = (ws, so', w')"
  obtains s' where "so' = Some s'" "sup_ok s'" "only_agent (agent_key a) s s'"
    "\<And>p. ws = Some p \<Longrightarrow> \<exists>x. view s' (agent_key a) = Some x \<and> p = slot_workspace x"
proof -
  obtain s' where s': "so' = Some s'" "only_agent (agent_key a) s s'"
    "\<forall>p. ws = Some p \<longrightarrow> (\<exists>x. view s' (agent_key a) = Some x
       \<and> p = snprintf_buf PHRONESIS_PATH_MAX (snprintf_buf PHRONESIS_PATH_MAX (slot_workspace x)))"
    using workspace_effect [OF ok ws] by blast
  have ok': "sup_ok s'" using s'(2) by (simp add: only_agent_def)
  have "\<exists>x. view s' (agent_key a) = Some x \<and> p = slot_workspace x" if p: "ws = Some p" for p
  proof -
    obtain x where x: "view s' (agent_key a) = Some x"
      "p = snprintf_buf PHRONESIS_PATH_MAX (snprintf_buf PHRONESIS_PATH_MAX (slot_workspace x))" using s'(3) p by blast
    have "snprintf_fits PHRONESIS_PATH_MAX (slot_workspace x)"
      using view_SomeD [OF ok' x(1)] by (simp add: slot_ok_def text_ok_def snprintf_fits_def)
    then show ?thesis using x by simp
  qed
  then show ?thesis using that s'(1,2) ok' by blast
qed

text \<open>A text that does not fit its buffer, as the path and shell checks test it.\<close>

definition overlong :: "capn_text \<Rightarrow> bool" where
  "overlong t \<longleftrightarrow> text_len t \<ge> 512 \<or> text_len t > 0 \<and> t_str t = None"

lemma check_path_opened:
  assumes cd: "decision_codec cd" and op: "opened cd inp = Some m" and nl: "\<not> phronesis_policy_deny_all (w_env w)"
    and ws: "workspace_for so (read_agent (pc_agentId (read_PathCheck cd m))) PHRONESIS_PATH_MAX w = (ws, so1, w1)"
  defines "a \<equiv> read_agent (pc_agentId (read_PathCheck cd m))"
    and "pr \<equiv> phronesis_policy_eval (w_env w1) ws (Some ''fs'') (Some (path_action (pc_action (read_PathCheck cd m))))
                (or_null (cstr (text_bytes (pc_path (read_PathCheck cd m)))))"
  shows "\<exists>out. phronesis_check_path cd so inp w = (out, so1, w1)
    \<and> says cd out (if overlong (pc_path (read_PathCheck cd m)) then host_answer DENY FIELD_TOO_LONG a []
                   else host_answer (pr_decision pr) (pr_code pr) a [])"
  using op nl ws deny_msg_says [OF cd api_reasons(2), of a] emit_host_says [OF cd policy_eval_host_result]
  by (simp add: phronesis_check_path_def deny_if_all_def Let_def overlong_def a_def pr_def PHRONESIS_PATH_MAX_def)

lemma decision_ord_1: "decision_ord d = 1 \<and> decision_ord d \<le> 2 \<Longrightarrow> d = ALLOW \<or> d = DECISION_OTHER 1"
  by (cases d) auto

lemma policy_eval_named: "pr_decision (phronesis_policy_eval e ws tool action path) \<in> {DENY, ALLOW, PROMPT}"
  unfolding phronesis_policy_eval_def
  by (intro pred_if [where P = "\<lambda>pr. pr_decision pr \<in> {DENY, ALLOW, PROMPT}"]) simp_all

lemma policy_eval_ord_1: "decision_ord (pr_decision (phronesis_policy_eval e ws tool action path)) = 1 \<longleftrightarrow>
    pr_decision (phronesis_policy_eval e ws tool action path) = ALLOW"
  using policy_eval_named [of e ws tool action path] by auto

text \<open>An allow of the shell pack: every pack with the entry allowed the view.\<close>

definition packs_allow :: "('e, 'f) vm \<Rightarrow> 'm codec \<Rightarrow> ('f pack_slot \<Rightarrow> 'f option) \<Rightarrow> bytes \<Rightarrow> 'f pack_host \<Rightarrow> bool" where
  "packs_allow vm cd entry msg st \<longleftrightarrow>
     List.map_filter entry (packs st) \<noteq> []
     \<and> (\<forall>f \<in> set (List.map_filter entry (packs st)). \<exists>b. pack_answer vm cd msg f = Inr (1, b))"

lemma compose_allow:
  assumes "decision_codec cd" "compose_pack_entry vm cd w sh inp st = (out, st')" "says cd out d" "pd_decision d = 1"
  shows "packs_allow vm cd (if sh then shell_fn else audio_fn) inp st'"
proof -
  let ?fs = "List.map_filter (if sh then shell_fn else audio_fn) (packs st')"
  from pack_host_answers [OF assms(1,2)] obtain d' where d': "says cd out d'"
    and nz: "pd_decision d' \<noteq> 0 \<longrightarrow> (\<exists>f \<in> set ?fs. \<exists>b. pack_answer vm cd inp f = Inr (pd_decision d', b) \<and> out = Some b)"
    and al: "pd_decision d' = 1 \<longrightarrow> (\<forall>f \<in> set ?fs. \<exists>b. pack_answer vm cd inp f = Inr (1, b))"
    by blast
  have eq: "d' = d" using says_fun [OF d' assms(3)] .
  have "?fs \<noteq> []" using nz eq assms(4) by auto
  then show ?thesis using al eq assms(4) by (simp add: packs_allow_def)
qed

lemma deny_not_allow:
  assumes "says cd out (deny_with r why)" "says cd out d"
  shows "pd_decision d = 0"
  using says_fun [OF assms] by (auto simp: deny_with_def)

lemma shell_pack_allow:
  assumes cd: "decision_codec cd" and sp: "phronesis_shell_pack vm cd w ws cwd argv st = (out, st')"
    and d: "says cd out d" "pd_decision d = 1"
  shows "\<exists>msg. phronesis_build_shell_view cd w ws cwd argv = ViewOk msg \<and> packs_allow vm cd shell_fn msg st'"
proof -
  have len: "length (snprintf_buf 80 s) \<le> 80" for s by (simp add: snprintf_buf_def)
  note no = deny_not_allow [OF host_deny_says [OF cd pack_reasons(1)]] deny_not_allow [OF host_deny_says [OF cd pack_reasons(4)]]
    deny_not_allow [OF build_deny_says [OF cd pack_reasons(5) len]]
  obtain ok st1 where ld: "load_pack_once vm w st = (ok, st1)" by fastforce
  have ok: ok
  proof (rule ccontr)
    assume "\<not> ok"
    then have "out = host_deny cd PACK_MISSING" using sp ld by (simp add: phronesis_shell_pack_def)
    then show False using no(1) d by simp
  qed
  show ?thesis
  proof (cases "phronesis_build_shell_view cd w ws cwd argv")
    case (ViewOk b)
    then have "compose_pack_entry vm cd w True b st1 = (out, st')" using sp ld ok by (simp add: phronesis_shell_pack_def)
    from compose_allow [OF cd this d] ViewOk show ?thesis by simp
  next
    case ViewFailed
    then show ?thesis using sp ld ok no(2) d by (simp add: phronesis_shell_pack_def)
  next
    case ViewWordTooLong
    then have "\<exists>s. out = build_policy_decision_reason cd 0 (reason_ord FIELD_TOO_LONG) (Some (snprintf_buf 80 s))"
      using sp ld ok by (auto simp: phronesis_shell_pack_def)
    then show ?thesis using no(3) d by fastforce
  next
    case ViewTooManyWords
    then have "\<exists>s. out = build_policy_decision_reason cd 0 (reason_ord FIELD_TOO_LONG) (Some (snprintf_buf 80 s))"
      using sp ld ok by (auto simp: phronesis_shell_pack_def)
    then show ?thesis using no(3) d by fastforce
  qed
qed

lemma host_answer_allow: "says cd out (host_answer e c a why) \<Longrightarrow> says cd out d \<Longrightarrow> pd_decision d = decision_ord e"
  using says_fun by fastforce

lemma shell_body_answers:
  assumes cd: "decision_codec cd"
  shows "\<exists>d. says cd (fst (shell_check_body vm cd a ws sc w st)) d"
proof -
  let ?cwd = "cstr (text_bytes (sh_cwd sc))"
  let ?pr = "phronesis_policy_eval (w_env w) ws (Some ''shell'') (Some ''exec'') (or_null ?cwd)"
  obtain out st1 where sp: "phronesis_shell_pack vm cd w ws (Some ?cwd) (sh_argv sc) st = (out, st1)" by fastforce
  then obtain d where d: "says cd out d" using shell_pack_answers [OF cd, of vm w ws "Some ?cwd" "sh_argv sc" st] by auto
  then have ne: "out \<noteq> None \<and> out \<noteq> Some []" by (auto simp: says_def)
  show ?thesis
  proof (cases "text_len (sh_cwd sc) \<ge> PHRONESIS_PATH_MAX \<or> text_len (sh_cwd sc) > 0 \<and> t_str (sh_cwd sc) = None")
    case True
    then have "fst (shell_check_body vm cd a ws sc w st) = deny_msg cd a FIELD_TOO_LONG"
      unfolding shell_check_body_def Let_def by simp
    then show ?thesis using deny_msg_says [OF cd api_reasons(2), of a] by auto
  next
    case long: False
    show ?thesis
    proof (cases "pr_decision ?pr = ALLOW \<and> sh_argv sc \<noteq> []")
      case True
      then have "fst (shell_check_body vm cd a ws sc w st) = out"
        using long sp ne unfolding shell_check_body_def Let_def by auto
      then show ?thesis using d by auto
    next
      case False
      then have "fst (shell_check_body vm cd a ws sc w st) = emit_decision cd ?pr a None"
        using long unfolding shell_check_body_def Let_def by auto
      then show ?thesis using emit_host_says [OF cd policy_eval_host_result] by metis
    qed
  qed
qed

lemma shell_body_allow:
  assumes cd: "decision_codec cd" and sb: "shell_check_body vm cd a ws sc w st = (out, st')" and d: "says cd out d" "pd_decision d = 1"
  defines "cwd \<equiv> cstr (text_bytes (sh_cwd sc))"
  shows "path_under_workspace ws (Some cwd) \<and> \<not> path_is_sensitive (Some cwd)
    \<and> (sh_argv sc \<noteq> [] \<longrightarrow>
         (\<exists>msg. phronesis_build_shell_view cd w ws (Some cwd) (sh_argv sc) = ViewOk msg \<and> packs_allow vm cd shell_fn msg st'))"
proof -
  let ?pr = "phronesis_policy_eval (w_env w) ws (Some ''shell'') (Some ''exec'') (or_null cwd)"
  have long: "\<not> (text_len (sh_cwd sc) \<ge> PHRONESIS_PATH_MAX \<or> text_len (sh_cwd sc) > 0 \<and> t_str (sh_cwd sc) = None)"
  proof
    assume "text_len (sh_cwd sc) \<ge> PHRONESIS_PATH_MAX \<or> text_len (sh_cwd sc) > 0 \<and> t_str (sh_cwd sc) = None"
    then have "out = deny_msg cd a FIELD_TOO_LONG" using sb unfolding shell_check_body_def Let_def by simp
    then show False using host_answer_allow [OF deny_msg_says [OF cd api_reasons(2)]] d by simp
  qed
  have al: "pr_decision ?pr = ALLOW"
  proof (rule ccontr)
    assume n: "pr_decision ?pr \<noteq> ALLOW"
    then have "out = emit_decision cd ?pr a None" using sb long unfolding shell_check_body_def Let_def cwd_def by simp
    then have "decision_ord (pr_decision ?pr) = 1" using host_answer_allow [OF emit_host_says [OF cd policy_eval_host_result]] d by simp
    then show False using n policy_eval_ord_1 by simp
  qed
  have u: "path_under_workspace ws (or_null cwd)" "\<not> path_is_sensitive (or_null cwd)"
    using al by (simp_all add: allow_table board_action_def)
  have on: "or_null cwd = Some cwd"
    using under_nonempty [OF u(1)] by (auto simp: or_null_def nonempty_def split: if_splits)
  have pack: "\<exists>msg. phronesis_build_shell_view cd w ws (Some cwd) (sh_argv sc) = ViewOk msg \<and> packs_allow vm cd shell_fn msg st'"
    if "sh_argv sc \<noteq> []"
  proof -
    obtain po st1 where sp: "phronesis_shell_pack vm cd w ws (Some cwd) (sh_argv sc) st = (po, st1)" by fastforce
    obtain e where e: "says cd po e" using shell_pack_answers [OF cd, of vm w ws "Some cwd" "sh_argv sc" st] sp by auto
    then have ne: "po \<noteq> None \<and> po \<noteq> Some []" by (auto simp: says_def)
    have "(out, st') = (po, st1)" using sb that long al sp ne unfolding shell_check_body_def Let_def cwd_def by simp
    then show ?thesis using shell_pack_allow [OF cd sp] d by simp
  qed
  show ?thesis using u pack unfolding on by blast
qed


lemma audio_opened:
  assumes cd: "decision_codec cd" "wire_ordinals cd" and op: "opened cd inp = Some m" and nl: "\<not> phronesis_policy_deny_all (w_env w)"
    and al: "\<not> phronesis_env_truthy (w_env w) ''PHRONESIS_AUDIO_ALLOW''"
    and ap: "compose_pack_entry vm cd w False inp st = (po, st1)" and e: "says cd po e"
  shows "\<exists>out. phronesis_check_audio vm cd inp w st = (out, st1)
    \<and> says cd out \<lparr>pd_decision = pd_decision e, pd_reason = ctext (Some []),
         pd_agentId = Some (read_agent (au_agentId (read_AudioCheck cd m))), pd_code = pd_code e\<rparr>"
proof -
  obtain b q where b: "po = Some b" "b \<noteq> []" "capn_init_mem cd b = Some q" "read_PolicyDecision cd q = e"
    using e by (auto simp: says_def)
  let ?pr = "phronesis_policy_result_set (decision_of_ord (pd_decision e)) (reason_of_ord (pd_code e))"
  let ?a = "read_agent (au_agentId (read_AudioCheck cd m))"
  have pr: "policy_result_from_capnp cd b = Some ?pr" using b by (simp add: policy_result_from_capnp_def Let_def)
  have lt: "pd_decision e < 65536 \<and> pd_code e < 65536" using cd(2) b(4) by (auto simp: wire_ordinals_def)
  have "says cd (emit_decision cd ?pr ?a None) (host_answer (pr_decision ?pr) (pr_code ?pr) ?a [])"
    using lt by (intro emit_decision_says [OF cd(1)]) auto
  moreover have "phronesis_check_audio vm cd inp w st = (emit_decision cd ?pr ?a None, st1)"
    using op nl al ap b(1) pr by (simp add: phronesis_check_audio_def phronesis_audio_pack_def deny_if_all_def Let_def)
  ultimately show ?thesis by (simp add: host_answer_def)
qed

lemma audio_answers:
  assumes cd: "decision_codec cd" "wire_ordinals cd"
  shows "\<exists>d. says cd (fst (phronesis_check_audio vm cd inp w st)) d"
proof (cases "opened cd inp = None \<or> phronesis_policy_deny_all (w_env w)")
  case True
  then show ?thesis using audio.bad_message [OF cd(1)] audio.lockdown_denies [OF cd(1)] by metis
next
  case False
  then obtain m where m: "opened cd inp = Some m" "\<not> phronesis_policy_deny_all (w_env w)" by auto
  obtain po st1 where ap: "compose_pack_entry vm cd w False inp st = (po, st1)" by fastforce
  obtain e where e: "says cd po e" using pack_host_answers [OF cd(1) ap] by blast
  show ?thesis
  proof (cases "phronesis_env_truthy (w_env w) ''PHRONESIS_AUDIO_ALLOW''")
    case True
    then show ?thesis
      using m emit_code_says [OF cd(1) api_reasons(11), of ALLOW "read_agent (au_agentId (read_AudioCheck cd m))"]
      by (auto simp: phronesis_check_audio_def deny_if_all_def Let_def)
  next
    case no: False
    then show ?thesis using audio_opened [OF cd m no ap e] by (metis fst_conv)
  qed
qed

lemma check_shell_answers:
  assumes cd: "decision_codec cd"
  shows "\<exists>d. says cd (fst (phronesis_check_shell vm cd so inp w st)) d"
proof (cases "open_in cd inp")
  case BodyTooLong
  then have "length inp > 524288" by (auto simp: open_in_def PHRONESIS_CAPNP_MAX_BODY_def split: if_splits option.splits)
  then show ?thesis using check_shell_long [OF cd] by (metis fst_conv)
next
  case BadMessage
  then show ?thesis using deny_msg_says [OF cd api_reasons(1), of null_agent] by (auto simp: phronesis_check_shell_def)
next
  case (Opened m)
  show ?thesis
  proof (cases "phronesis_policy_deny_all (w_env w)")
    case True
    then show ?thesis using check_shell_lockdown [OF cd] by blast
  next
    case False
    let ?sc = "read_ShellCheck cd m"
    let ?a = "read_agent (sh_agentId ?sc)"
    obtain ws so1 w1 where ws: "workspace_for so ?a PHRONESIS_PATH_MAX w = (ws, so1, w1)" by (metis prod.collapse)
    obtain out st1 where sb: "shell_check_body vm cd ?a ws ?sc w1 st = (out, st1)" by fastforce
    have "fst (phronesis_check_shell vm cd so inp w st) = out"
      using Opened False ws sb by (simp add: phronesis_check_shell_def deny_if_all_def Let_def)
    then show ?thesis using shell_body_answers [OF cd, of vm ?a ws ?sc w1 st] sb by simp
  qed
qed

lemma path_answers:
  assumes cd: "decision_codec cd"
  shows "\<exists>d. says cd (fst (phronesis_check_path cd so inp w)) d"
proof (cases "opened cd inp = None \<or> phronesis_policy_deny_all (w_env w)")
  case True
  then show ?thesis using path.bad_message [OF cd] path.lockdown_denies [OF cd] by metis
next
  case False
  then obtain m where m: "opened cd inp = Some m" "\<not> phronesis_policy_deny_all (w_env w)" by auto
  obtain ws so1 w1 where "workspace_for so (read_agent (pc_agentId (read_PathCheck cd m))) PHRONESIS_PATH_MAX w = (ws, so1, w1)"
    by (metis prod.collapse)
  from check_path_opened [OF cd m this] show ?thesis by (metis fst_conv)
qed

lemma risk_answers:
  assumes cd: "decision_codec cd"
  shows "\<exists>d. says cd (phronesis_check_risk cd inp w) d \<and> pd_decision d \<noteq> 1"
proof (cases "opened cd inp = None \<or> phronesis_policy_deny_all (w_env w)")
  case True
  then have "\<exists>d. says cd (phronesis_check_risk cd inp w) d \<and> pd_decision d = 0"
    using risk.bad_message [OF cd, of inp w] risk.lockdown_denies [OF cd, of w inp] says_deny by auto
  then show ?thesis by auto
next
  case False
  then obtain m where m: "opened cd inp = Some m" "\<not> phronesis_policy_deny_all (w_env w)" by auto
  show ?thesis
    using check_risk_opened [OF cd m] by (intro exI conjI, assumption) simp
qed

lemma admit_seat_answers:
  assumes cd: "decision_codec cd" "seat_codec cd"
  shows "\<exists>d. says cd (fst (phronesis_admit_seat cd so inp w)) d"
proof (cases "opened cd inp")
  case None
  then show ?thesis using deny_msg_says [OF cd(1) api_reasons(1), of null_agent] by (auto simp: phronesis_admit_seat_def)
next
  case (Some m)
  then show ?thesis using admit_seat_is_check [OF cd(2) Some, of so w] seat.allow_iff [OF cd(1)] by metis
qed

lemma admit_model_answers:
  assumes cd: "decision_codec cd" "model_codec cd"
  shows "\<exists>d. says cd (fst (phronesis_admit_model cd so inp w)) d"
proof (cases "opened cd inp")
  case None
  then show ?thesis using deny_msg_says [OF cd(1) api_reasons(1), of null_agent] by (auto simp: phronesis_admit_model_def)
next
  case (Some m)
  then show ?thesis using admit_model_is_check [OF cd(2) Some, of so w] model.allow_iff [OF cd(1)] by metis
qed

text \<open>The reload method, in terms of the reload of the pack host.\<close>

lemma reload_method:
  assumes cd: "decision_codec cd" and ok: "host_ok st" and rl: "phronesis_reload_shell_pack vm cd inp w st = (out, w', st')"
  shows "\<exists>d. says cd out d
    \<and> (pd_decision d = 1 \<and> \<not> phronesis_policy_deny_all (w_env w) \<and> packs st' \<noteq> [] \<and> pack_loaded st' \<and> \<not> pack_failed st'
         \<and> (env_flag_on (w_env w) ''PHRONESIS_DEV_PACK''
            \<or> (\<forall>p \<in> set (packs st'). pack_under_trusted_prefix (w_env w) (Some (pack_path p))))
       \<or> pd_decision d = 0 \<and> w' = w \<and> same_law st st'
       \<or> pd_decision d = 0 \<and> w' = w \<and> packs st' = [] \<and> pack_failed st')"
proof -
  have dn: "?thesis" if "out = deny_msg cd a c" "c \<in> set reason_table" "w' = w" "st' = st" for a c
    using deny_msg_says [OF cd that(2), of a] that by (intro exI [of _ "host_answer DENY c a []"]) simp
  show ?thesis
  proof (cases "opened cd inp")
    case None
    then show ?thesis using rl dn [of null_agent INVALID_MESSAGE] api_reasons(1) by (auto simp: phronesis_reload_shell_pack_def)
  next
    case (Some m)
    let ?rp = "read_ReloadShellPack cd m"
    show ?thesis
    proof (cases "text_len ?rp = 0 \<or> text_len ?rp \<ge> 4096 * 16 \<or> t_str ?rp = None")
      case True
      then have "(out, w', st') = (deny_msg cd null_agent PACK_PATH_INVALID, w, st)"
        using rl Some unfolding phronesis_reload_shell_pack_def Let_def by simp
      then show ?thesis using dn [of null_agent PACK_PATH_INVALID] api_reasons(12) by simp
    next
      case fits: False
      show ?thesis
      proof (cases "phronesis_policy_deny_all (w_env w)")
        case True
        then have "(out, w', st') = (deny_msg cd null_agent DENY_ALL, w, st)"
          using rl Some fits unfolding phronesis_reload_shell_pack_def Let_def deny_if_all_def deny_msg_def by auto
        then show ?thesis using dn [of null_agent DENY_ALL] api_reasons(3) by simp
      next
        case nl: False
        obtain r w1 st1 where ri: "phronesis_shell_pack_reload_internal vm (Some (cstr (text_bytes ?rp))) w st = (r, w1, st1)"
          by (metis prod.collapse)
        let ?pr = "case r of LoadOk \<Rightarrow> phronesis_policy_result_set ALLOW PACK_RELOADED
          | LoadInvalid \<Rightarrow> phronesis_policy_result_set DENY PACK_PATH_INVALID
          | LoadFailed \<Rightarrow> phronesis_policy_result_set DENY PACK_LOAD_FAILED"
        have o: "out = emit_decision cd ?pr null_agent None" "w' = w1" "st' = st1"
          using rl Some fits nl ri unfolding phronesis_reload_shell_pack_def Let_def deny_if_all_def by auto
        have hr: "host_result ?pr" by (cases r) (simp_all add: api_reasons)
        have "phronesis_shell_pack_reload vm (Some (cstr (text_bytes ?rp))) w st =
            (case r of LoadOk \<Rightarrow> OK | LoadInvalid \<Rightarrow> ERR_INVAL | LoadFailed \<Rightarrow> ERR_IO, w1, st1)"
          using ri by (cases r) (simp_all add: phronesis_shell_pack_reload_def)
        note ef = reload_effect [OF ok this]
        show ?thesis
          using emit_host_says [OF cd hr, of null_agent] o ef nl
          by (intro exI [of _ "host_answer (pr_decision ?pr) (pr_code ?pr) null_agent []"]) (cases r; simp)
      qed
    qed
  qed
qed


lemma reload_lockdown:
  assumes cd: "decision_codec cd" and l: "phronesis_policy_deny_all (w_env w)"
  shows "snd (phronesis_reload_shell_pack vm cd inp w st) = (w, st)
    \<and> (\<exists>d. says cd (fst (phronesis_reload_shell_pack vm cd inp w st)) d \<and> pd_decision d = 0)"
proof -
  have "\<exists>c \<in> set reason_table. phronesis_reload_shell_pack vm cd inp w st = (deny_msg cd null_agent c, w, st)"
    using l api_reasons(1,3,12) by (cases "opened cd inp")
      (auto simp: phronesis_reload_shell_pack_def Let_def deny_if_all_def deny_msg_def)
  then show ?thesis using says_deny [OF deny_msg_says [OF cd]] by auto
qed

lemma admit_lockdown:
  assumes cd: "decision_codec cd" "seat_codec cd" "model_codec cd" and l: "phronesis_policy_deny_all (w_env w)"
  shows "snd (phronesis_admit_seat cd so inp w) = (so, w) \<and> (\<exists>d. says cd (fst (phronesis_admit_seat cd so inp w)) d \<and> pd_decision d = 0)"
    and "snd (phronesis_admit_model cd so inp w) = (so, w) \<and> (\<exists>d. says cd (fst (phronesis_admit_model cd so inp w)) d \<and> pd_decision d = 0)"
proof -
  note dn = says_deny [OF deny_msg_says [OF cd(1) api_reasons(1)], of null_agent]
  show "snd (phronesis_admit_seat cd so inp w) = (so, w) \<and> (\<exists>d. says cd (fst (phronesis_admit_seat cd so inp w)) d \<and> pd_decision d = 0)"
  proof (cases "opened cd inp")
    case None
    then show ?thesis using dn by (simp add: phronesis_admit_seat_def)
  next
    case (Some m)
    obtain inner where "phronesis_admit_seat cd so inp w = phronesis_check_seat cd so inner w" using admit_seat_is_check [OF cd(2) Some] by blast
    then show ?thesis using seat.guard.lockdown_denies [OF cd(1) l] by simp
  qed
  show "snd (phronesis_admit_model cd so inp w) = (so, w) \<and> (\<exists>d. says cd (fst (phronesis_admit_model cd so inp w)) d \<and> pd_decision d = 0)"
  proof (cases "opened cd inp")
    case None
    then show ?thesis using dn by (simp add: phronesis_admit_model_def)
  next
    case (Some m)
    obtain inner where "phronesis_admit_model cd so inp w = phronesis_check_model cd so inner w" using admit_model_is_check [OF cd(3) Some] by blast
    then show ?thesis using model.guard.lockdown_denies [OF cd(1) l] by simp
  qed
qed


section \<open>Properties\<close>

text \<open>C5: Lockdown wins over everything. While \<open>PHRONESIS_DENY_ALL\<close> is set, every check, both admissions and the
  pack reload answer with a readable denial for every input, and none of them touches the supervisor, the
  host or the loaded packs.\<close>

theorem lockdown_denies_everything:
  assumes cd: "decision_codec cd" "seat_codec cd" "model_codec cd" and l: "phronesis_policy_deny_all (w_env w)"
  defines "denied \<equiv> \<lambda>out. \<exists>d. says cd out d \<and> pd_decision d = 0"
  shows "snd (phronesis_check_seat cd so inp w) = (so, w) \<and> denied (fst (phronesis_check_seat cd so inp w))
    \<and> snd (phronesis_check_model cd so inp w) = (so, w) \<and> denied (fst (phronesis_check_model cd so inp w))
    \<and> snd (phronesis_check_path cd so inp w) = (so, w) \<and> denied (fst (phronesis_check_path cd so inp w))
    \<and> snd (phronesis_check_shell vm cd so inp w st) = (so, w, st) \<and> denied (fst (phronesis_check_shell vm cd so inp w st))
    \<and> denied (phronesis_check_risk cd inp w)
    \<and> snd (phronesis_check_audio vm cd inp w st) = st \<and> denied (fst (phronesis_check_audio vm cd inp w st))
    \<and> snd (phronesis_admit_seat cd so inp w) = (so, w) \<and> denied (fst (phronesis_admit_seat cd so inp w))
    \<and> snd (phronesis_admit_model cd so inp w) = (so, w) \<and> denied (fst (phronesis_admit_model cd so inp w))
    \<and> snd (phronesis_reload_shell_pack vm cd inp w st) = (w, st) \<and> denied (fst (phronesis_reload_shell_pack vm cd inp w st))"
  unfolding denied_def
  using seat.guard.lockdown_denies [OF cd(1) l, of so inp] model.guard.lockdown_denies [OF cd(1) l, of so inp]
    path.lockdown_denies [OF cd(1) l, of so inp] check_shell_lockdown [OF cd(1) l, of vm so inp st]
    risk.lockdown_denies [OF cd(1) l, of inp] audio.lockdown_denies [OF cd(1) l, of vm inp st]
    admit_lockdown [OF cd l, of so inp] reload_lockdown [OF cd(1) l, of vm inp st]
  by auto

definition locked_world :: world where
  "locked_world = fresh_world\<lparr>w_env := (\<lambda>n. if n = ''PHRONESIS_DENY_ALL'' then Some ''1'' else None)\<rparr>"

lemma lockdown_denies_everything_witness:
  "(\<exists>d. says demo_codec (fst (phronesis_check_shell demo_vm demo_codec None ''0/ws'' locked_world three_packs)) d \<and> pd_decision d = 0)
   \<and> snd (phronesis_reload_shell_pack demo_vm demo_codec ''/opt/law'' locked_world three_packs) = (locked_world, three_packs)"
proof -
  have l: "phronesis_policy_deny_all (w_env locked_world)" by code_simp
  show ?thesis
    using lockdown_denies_everything [OF demo_decision_codec demo_seat_codec demo_model_codec l, of None "''0/ws''" demo_vm three_packs]
      lockdown_denies_everything [OF demo_decision_codec demo_seat_codec demo_model_codec l, of None "''/opt/law''" demo_vm three_packs]
    by blast
qed

text \<open>C21: Seat and model checks allow exactly the running agents. On a well-formed supervisor the answer is a readable
  allow or deny that echoes the agent of the message. It is allow exactly when the message opens, there is no
  lockdown, the identity check passes and, for a seat check, the action is one of the four board actions; and
  then the agent is not the null id and its slot in the supervisor is running.\<close>

theorem seat_model_allow_iff:
  fixes inp :: bytes and w :: world
  assumes cd: "decision_codec cd" and ok: "sup_ok s"
  defines "seat_ok \<equiv> (\<exists>m. opened cd inp = Some m \<and> \<not> phronesis_policy_deny_all (w_env w) \<and> sc_action (read_SeatCheck cd m) \<le> 3
      \<and> fst (admit_running_agent (Some s) (read_agent (sc_agentId (read_SeatCheck cd m))) w) = None)"
    and "model_ok \<equiv> (\<exists>m. opened cd inp = Some m \<and> \<not> phronesis_policy_deny_all (w_env w)
      \<and> fst (admit_running_agent (Some s) (read_agent (mc_agentId (read_ModelCheck cd m))) w) = None)"
  shows "(\<exists>d. says cd (fst (phronesis_check_seat cd (Some s) inp w)) d \<and> pd_decision d = (if seat_ok then 1 else 0)
        \<and> (\<forall>m. opened cd inp = Some m \<longrightarrow> pd_agentId d = Some (read_agent (sc_agentId (read_SeatCheck cd m)))))
    \<and> (\<exists>d. says cd (fst (phronesis_check_model cd (Some s) inp w)) d \<and> pd_decision d = (if model_ok then 1 else 0)
        \<and> (\<forall>m. opened cd inp = Some m \<longrightarrow> pd_agentId d = Some (read_agent (mc_agentId (read_ModelCheck cd m)))))
    \<and> (seat_ok \<longrightarrow> (\<exists>m s' w' x. opened cd inp = Some m \<and> snd (phronesis_check_seat cd (Some s) inp w) = (Some s', w')
          \<and> read_agent (sc_agentId (read_SeatCheck cd m)) \<noteq> null_agent
          \<and> view s' (agent_key (read_agent (sc_agentId (read_SeatCheck cd m)))) = Some x \<and> slot_state x = AGENT_RUNNING))
    \<and> (model_ok \<longrightarrow> (\<exists>m s' w' x. opened cd inp = Some m \<and> snd (phronesis_check_model cd (Some s) inp w) = (Some s', w')
          \<and> read_agent (mc_agentId (read_ModelCheck cd m)) \<noteq> null_agent
          \<and> view s' (agent_key (read_agent (mc_agentId (read_ModelCheck cd m)))) = Some x \<and> slot_state x = AGENT_RUNNING))"
proof -
  let ?seat = "admitted cd (\<lambda>m. read_agent (sc_agentId (read_SeatCheck cd m)))
    (\<lambda>m. if sc_action (read_SeatCheck cd m) \<le> 3 then (ALLOW, SEAT_BOARD_ALLOW) else (DENY, UNKNOWN_SEAT_ACTION)) (Some s) inp w"
  let ?model = "admitted cd (\<lambda>m. read_agent (mc_agentId (read_ModelCheck cd m))) (\<lambda>m. (ALLOW, MODEL_START_ALLOW)) (Some s) inp w"
  have S: "?seat = seat_ok" unfolding admitted_def seat_ok_def by (intro arg_cong [where f = Ex] ext) simp
  have M: "?model = model_ok" unfolding admitted_def model_ok_def by simp
  show ?thesis
    using seat.allow_iff [OF cd, of "Some s" inp w] model.allow_iff [OF cd, of "Some s" inp w]
      seat.admitted_running [OF ok, of cd inp w] model.admitted_running [OF ok, of cd inp w]
    unfolding S M by blast
qed

text \<open>An agent on the wire, with a running slot.\<close>

definition wire_agent :: agent_id where
  "wire_agent = \<lparr>aid_hi = 0, aid_lo = 1\<rparr>"

definition wired :: agent_slot where
  "wired = seated\<lparr>slot_id := ''00000000000000000000000000000001''\<rparr>"

definition wired_sup :: supervisor where
  "wired_sup = demo_sup\<lparr>agents := wired # replicate 15 zero_slot\<rparr>"

lemma wired_sup_ok: "sup_ok wired_sup"
proof -
  have sl: "slot_ok wired" by code_simp
  have r: "slot_ref wired_sup k i \<longleftrightarrow> i = 0 \<and> k = ''00000000000000000000000000000001''" for k i
    by (cases i) (auto simp: slot_ref_def wired_sup_def wired_def seated_def zero_slot_def)
  show ?thesis using sl unfolding sup_ok_def r by (simp add: wired_sup_def PHRONESIS_MAX_AGENTS_def)
qed

lemma seat_model_allow_iff_witness:
  "\<exists>d. says demo_codec (fst (phronesis_check_seat demo_codec (Some wired_sup) (enc_agent (Some wire_agent) @ ''0001'') demo_world)) d
     \<and> pd_decision d = 1 \<and> pd_agentId d = Some wire_agent"
proof -
  let ?i = "enc_agent (Some wire_agent) @ ''0001''"
  have op: "opened demo_codec ?i = Some ?i" by code_simp
  have rd: "read_agent (sc_agentId (read_SeatCheck demo_codec ?i)) = wire_agent" "sc_action (read_SeatCheck demo_codec ?i) \<le> 3" by code_simp+
  have ad: "fst (admit_running_agent (Some wired_sup) wire_agent demo_world) = None" "\<not> phronesis_policy_deny_all (w_env demo_world)" by code_simp+
  show ?thesis
    using seat_model_allow_iff [OF demo_decision_codec wired_sup_ok, of ?i demo_world] op rd ad by auto
qed

text \<open>The admissions are sugar for the checks. A message that opens is admitted by running the check of the same
  plane, publishRun for a seat, on a message with the same agent, so answer, supervisor and host are those of
  the check.\<close>

lemma admit_is_check:
  assumes "seat_codec cd" "model_codec cd" "opened cd inp = Some m"
  shows "(\<exists>inner m'. opened cd inner = Some m'
        \<and> read_SeatCheck cd m' = \<lparr>sc_agentId = Some (read_agent (ad_agentId (read_AdmitSeat cd m))), sc_action = 0\<rparr>
        \<and> phronesis_admit_seat cd so inp w = phronesis_check_seat cd so inner w)
    \<and> (\<exists>inner m'. opened cd inner = Some m'
        \<and> mc_agentId (read_ModelCheck cd m') = Some (read_agent (ad_agentId (read_AdmitModel cd m)))
        \<and> phronesis_admit_model cd so inp w = phronesis_check_model cd so inner w)"
  using admit_seat_is_check [OF assms(1,3)] admit_model_is_check [OF assms(2,3)] by blast

lemma admit_is_check_witness:
  "\<exists>inner. phronesis_admit_seat demo_codec (Some wired_sup) (enc_agent (Some wire_agent) @ ''note'') demo_world
     = phronesis_check_seat demo_codec (Some wired_sup) inner demo_world"
proof -
  have "opened demo_codec (enc_agent (Some wire_agent) @ ''note'') = Some (enc_agent (Some wire_agent) @ ''note'')" by code_simp
  from admit_is_check [OF demo_seat_codec demo_model_codec this] show ?thesis by blast
qed

text \<open>C10: A path check allows only inside the workspace of the agent. The answer is always readable, and an allow
  means: no lockdown, a path that fits its buffer and is not to be deleted, a slot for the agent in the
  supervisor, and the path lies in the workspace recorded in that slot and is not credential material.\<close>

theorem path_check_allow:
  assumes cd: "decision_codec cd" and ok: "sup_ok s"
  shows "\<exists>d s' w'. says cd (fst (phronesis_check_path cd (Some s) inp w)) d \<and> snd (phronesis_check_path cd (Some s) inp w) = (Some s', w')
    \<and> (pd_decision d = 1 \<longrightarrow>
        (\<exists>m x. opened cd inp = Some m \<and> \<not> phronesis_policy_deny_all (w_env w)
          \<and> view s' (agent_key (read_agent (pc_agentId (read_PathCheck cd m)))) = Some x
          \<and> text_len (pc_path (read_PathCheck cd m)) < 512 \<and> pc_action (read_PathCheck cd m) \<noteq> 2
          \<and> path_under_workspace (Some (slot_workspace x)) (Some (cstr (text_bytes (pc_path (read_PathCheck cd m)))))
          \<and> \<not> path_is_sensitive (Some (cstr (text_bytes (pc_path (read_PathCheck cd m)))))))"
proof (cases "opened cd inp = None \<or> phronesis_policy_deny_all (w_env w)")
  case True
  have "snd (phronesis_check_path cd (Some s) inp w) = (Some s, w)
    \<and> (\<exists>d. says cd (fst (phronesis_check_path cd (Some s) inp w)) d \<and> pd_decision d = 0)"
  proof (cases "opened cd inp")
    case None
    then show ?thesis using path.bad_message [OF cd None, of "Some s" w] says_deny by blast
  next
    case (Some m)
    then show ?thesis using True path.lockdown_denies [OF cd] by simp
  qed
  then show ?thesis by fastforce
next
  case False
  then obtain m where m: "opened cd inp = Some m" "\<not> phronesis_policy_deny_all (w_env w)" by auto
  let ?pc = "read_PathCheck cd m"
  let ?a = "read_agent (pc_agentId ?pc)" and ?p = "cstr (text_bytes (pc_path ?pc))"
  obtain ws so1 w1 where ws: "workspace_for (Some s) ?a PHRONESIS_PATH_MAX w = (ws, so1, w1)" by (metis prod.collapse)
  obtain s1 where s1: "so1 = Some s1" "\<And>p. ws = Some p \<Longrightarrow> \<exists>x. view s1 (agent_key ?a) = Some x \<and> p = slot_workspace x"
    using workspace_slot [OF ok ws] by metis
  let ?pr = "phronesis_policy_eval (w_env w1) ws (Some ''fs'') (Some (path_action (pc_action ?pc))) (or_null ?p)"
  let ?d = "if overlong (pc_path ?pc) then host_answer DENY FIELD_TOO_LONG ?a [] else host_answer (pr_decision ?pr) (pr_code ?pr) ?a []"
  obtain out where out: "phronesis_check_path cd (Some s) inp w = (out, so1, w1)" "says cd out ?d"
    using check_path_opened [OF cd m ws] by blast
  have "\<exists>x. view s1 (agent_key ?a) = Some x \<and> text_len (pc_path ?pc) < 512 \<and> pc_action ?pc \<noteq> 2
      \<and> path_under_workspace (Some (slot_workspace x)) (Some ?p) \<and> \<not> path_is_sensitive (Some ?p)"
    if al: "pd_decision ?d = 1"
  proof -
    have nl: "\<not> overlong (pc_path ?pc)" using al by (auto split: if_splits)
    then have "pr_decision ?pr = ALLOW" using al policy_eval_ord_1 by simp
    then have u: "path_under_workspace ws (or_null ?p)" "\<not> path_is_sensitive (or_null ?p)" "path_action (pc_action ?pc) \<noteq> ''delete''"
      by (auto simp: allow_table board_action_def)
    have on: "or_null ?p = Some ?p" using under_nonempty [OF u(1)] by (auto simp: or_null_def nonempty_def split: if_splits)
    obtain q where q: "ws = Some q" using u(1) by (cases ws) (auto simp: path_under_workspace_def)
    obtain x where "view s1 (agent_key ?a) = Some x" "q = slot_workspace x" using s1(2) q by blast
    then show ?thesis using u on q nl by (auto simp: overlong_def path_action_def)
  qed
  then show ?thesis using out s1(1) m by (intro exI [of _ ?d] exI [of _ s1] exI [of _ w1]) auto
qed

lemma path_check_allow_witness:
  "let i = enc_agent (Some wire_agent) @ ''0000/w/x''; r = phronesis_check_path demo_codec (Some wired_sup) i demo_world
   in \<exists>d s' w'. says demo_codec (fst r) d \<and> pd_decision d = 1 \<and> snd r = (Some s', w') \<and> view s' (agent_key wire_agent) \<noteq> None"
proof -
  let ?i = "enc_agent (Some wire_agent) @ ''0000/w/x''"
  let ?r = "phronesis_check_path demo_codec (Some wired_sup) ?i demo_world"
  have op: "opened demo_codec ?i = Some ?i" by code_simp
  have rd: "read_agent (pc_agentId (read_PathCheck demo_codec ?i)) = wire_agent" by code_simp
  have pc: "read_PathCheck demo_codec ?i = \<lparr>pc_agentId = Some wire_agent, pc_action = 0, pc_path = ctext (Some ''/w/x'')\<rparr>" by code_simp
  have small: "\<not> overlong (ctext (Some ''/w/x''))" "or_null (cstr (text_bytes (ctext (Some ''/w/x'')))) = Some ''/w/x''" by code_simp+
  have ad: "\<not> phronesis_policy_deny_all (w_env demo_world)" by code_simp
  obtain ws so1 w1 where ws: "workspace_for (Some wired_sup) wire_agent PHRONESIS_PATH_MAX demo_world = (ws, so1, w1)" by (metis prod.collapse)
  have "fst (workspace_for (Some wired_sup) wire_agent PHRONESIS_PATH_MAX demo_world) = Some ''/w''"
    "\<not> phronesis_policy_deny_all (w_env (snd (snd (workspace_for (Some wired_sup) wire_agent PHRONESIS_PATH_MAX demo_world))))" by code_simp+
  then have w: "ws = Some ''/w''" "\<not> phronesis_policy_deny_all (w_env w1)" using ws by simp_all
  have "path_under_workspace (Some ''/w'') (Some ''/w/x'')" "\<not> path_is_sensitive (Some ''/w/x'')" by code_simp+
  then have al: "pr_decision (phronesis_policy_eval (w_env w1) (Some ''/w'') (Some ''fs'') (Some ''read'') (Some ''/w/x'')) = ALLOW"
    using w(2) by (simp add: allow_table nonempty_def)
  have ws': "workspace_for (Some wired_sup) (read_agent (pc_agentId (read_PathCheck demo_codec ?i))) PHRONESIS_PATH_MAX demo_world = (ws, so1, w1)"
    using ws rd by simp
  obtain out where "?r = (out, so1, w1)" "\<exists>c a. says demo_codec out (host_answer ALLOW c a [])"
    using check_path_opened [OF demo_decision_codec op ad ws'] al small w(1) unfolding pc by (auto simp: path_action_def)
  then have one: "\<exists>c a. says demo_codec (fst ?r) (host_answer ALLOW c a [])" by simp
  from path_check_allow [OF demo_decision_codec wired_sup_ok, of ?i demo_world]
  obtain d s' w' where d: "says demo_codec (fst ?r) d" "snd ?r = (Some s', w')"
    and v: "pd_decision d = 1 \<longrightarrow> (\<exists>m x. opened demo_codec ?i = Some m \<and> view s' (agent_key (read_agent (pc_agentId (read_PathCheck demo_codec m)))) = Some x)"
    by blast
  have "pd_decision d = 1" using one host_answer_allow d(1) by fastforce
  moreover have "view s' (agent_key wire_agent) \<noteq> None" using v calculation op rd by auto
  ultimately show ?thesis using d unfolding Let_def by blast
qed

text \<open>C22: Every entry point answers. For every input, supervisor, host and pack state the caller of a check, an
  admission or the reload gets a message that reads as a decision, never an empty answer; and a risk check
  never allows.\<close>

theorem every_check_answers:
  assumes cd: "decision_codec cd" "wire_ordinals cd" "seat_codec cd" "model_codec cd" and ok: "host_ok st"
  defines "answered \<equiv> \<lambda>out. \<exists>d. says cd out d"
  shows "answered (fst (phronesis_check_seat cd so inp w)) \<and> answered (fst (phronesis_check_model cd so inp w))
    \<and> answered (fst (phronesis_check_path cd so inp w)) \<and> answered (fst (phronesis_check_shell vm cd so inp w st))
    \<and> (\<exists>d. says cd (phronesis_check_risk cd inp w) d \<and> pd_decision d \<noteq> 1)
    \<and> answered (fst (phronesis_check_audio vm cd inp w st))
    \<and> answered (fst (phronesis_admit_seat cd so inp w)) \<and> answered (fst (phronesis_admit_model cd so inp w))
    \<and> answered (fst (phronesis_reload_shell_pack vm cd inp w st))"
proof -
  obtain out w' st' where rl: "phronesis_reload_shell_pack vm cd inp w st = (out, w', st')" by (metis prod.collapse)
  have "answered out" using reload_method [OF cd(1) ok rl] by (auto simp: answered_def)
  moreover have "answered (fst (phronesis_check_seat cd so inp w))" "answered (fst (phronesis_check_model cd so inp w))"
    unfolding answered_def using seat.allow_iff [OF cd(1)] model.allow_iff [OF cd(1)] by blast+
  ultimately show ?thesis
    using path_answers [OF cd(1), of so inp w] check_shell_answers [OF cd(1), of vm so inp w st] risk_answers [OF cd(1), of inp w]
      audio_answers [OF cd(1,2), of vm inp w st] admit_seat_answers [OF cd(1,3), of so inp w] admit_model_answers [OF cd(1,4), of so inp w] rl
    unfolding answered_def by simp
qed

lemma every_check_answers_witness:
  "\<exists>d. says demo_codec (fst (phronesis_check_audio demo_vm demo_codec ''garbage'' fresh_world initial_host)) d"
  using every_check_answers [OF demo_decision_codec demo_wire_ordinals demo_seat_codec demo_model_codec host_ok_initial,
      of None "''garbage''" fresh_world demo_vm] by blast

text \<open>C39: Size limits of the two message writers. Whatever a message takes when written, the writer of
  src/capnp\_api.c returns it exactly up to 512 KiB and the writer of src/policy\_janet.c up to 1 MiB, and
  fails beyond: the doubling of the buffer ends and loses nothing.\<close>

theorem writers_bounds:
  assumes "writes cd m b"
  shows "write_msg cd m = (if length b \<le> 524288 then Some b else None)
    \<and> write_flat cd m = (if length b \<le> 1048576 then Some b else None)"
  using write_msg_writes [OF assms] write_flat_writes [OF assms] by simp

lemma writers_bounds_witness:
  "write_msg demo_codec (replicate 600000 CHR ''x'') = None
   \<and> write_flat demo_codec (replicate 600000 CHR ''x'') = Some (replicate 600000 CHR ''x'')"
  using writers_bounds [OF demo_writes, of "replicate 600000 CHR ''x''"] by simp


end
