(* ===== verification/Bindings.thy ===== *)
theory Bindings
  imports Capnp_Api
begin

text \<open>
  The two C layers above the wire interface: the encoder of the Rust crate
  (\<open>crates/phronesis-sys/csrc/shell_encode.c\<close>), which builds a shell check from an argument vector, asks for a
  verdict and reads it back, and the interface of the playground (\<open>playground/wasm/embind_api.c\<close>), in the
  configuration without \<open>PHRONESIS_TRACE\<close>, where clearing the trace does nothing and there is no JSON to take.
  The writer generated for the shell check is a further parameter, \<open>bs\<close>. The C functions return a length or a code
  and store the answer through a pointer: here a pair of that number and the answer.
\<close>

section \<open>The encoder of the Rust crate\<close>

text \<open>This \<open>ctext\<close> casts the length to \<open>int\<close> without a bound.\<close>

definition ljos_ctext :: "cstring_opt \<Rightarrow> capn_text" where
  "ljos_ctext s =
     (let str = (case s of None \<Rightarrow> [] | Some x \<Rightarrow> x)
      in \<lparr>t_len = sint (of_nat (length str) :: 32 word), t_str = Some str\<rparr>)"

function ljos_write_loop :: "'m codec \<Rightarrow> 'm \<Rightarrow> nat \<Rightarrow> bytes option" where
  "ljos_write_loop cd m cap =
     (case capn_write_mem cd m cap of
        Some b \<Rightarrow> Some b
      | None \<Rightarrow> if cap = 0 \<or> cap > 512 * 1024 then None else ljos_write_loop cd m (cap * 2))"
  by pat_completeness auto
termination
  by (relation "measure (\<lambda>(cd, m, cap). 1024 * 1024 + 1 - cap)") auto

declare ljos_write_loop.simps [simp del]

definition ljos_write_msg :: "'m codec \<Rightarrow> 'm \<Rightarrow> bytes option" where
  "ljos_write_msg cd m = ljos_write_loop cd m 8192"

definition ljos_shell_check :: "cstring_opt \<Rightarrow> cstring_opt list \<Rightarrow> shell_check" where
  "ljos_shell_check cwd argv =
     \<lparr>sh_agentId = Some \<lparr>aid_hi = 0, aid_lo = 1\<rparr>, sh_cwd = ljos_ctext cwd, sh_argv = map ljos_ctext argv\<rparr>"

definition ljos_phronesis_check_shell ::
  "('e, 'f) vm \<Rightarrow> 'm codec \<Rightarrow> (shell_check \<Rightarrow> 'm option) \<Rightarrow> supervisor option \<Rightarrow> cstring_opt \<Rightarrow> cstring_opt list \<Rightarrow> world \<Rightarrow>
   'f pack_host \<Rightarrow> (int \<times> bytes option) \<times> supervisor option \<times> world \<times> 'f pack_host" where
  "ljos_phronesis_check_shell vm cd bs so cwd argv w st =
     (case bs (ljos_shell_check cwd argv) of
        None \<Rightarrow> ((-1, None), so, w, st)
      | Some m \<Rightarrow>
          (case ljos_write_msg cd m of
             None \<Rightarrow> ((-1, None), so, w, st)
           | Some inp \<Rightarrow>
               (case phronesis_check_shell vm cd so inp w st of
                  (out, so1, w1, st1) \<Rightarrow> ((if out \<noteq> None \<and> out \<noteq> Some [] then 0 else -1, out), so1, w1, st1))))"

text \<open>\<open>None\<close> is -1; otherwise the two numbers at 16 bits and the text left in a buffer of \<open>n\<close> bytes.\<close>

definition ljos_phronesis_read_decision :: "'m codec \<Rightarrow> bytes \<Rightarrow> nat \<Rightarrow> (16 word \<times> 16 word \<times> string) option" where
  "ljos_phronesis_read_decision cd inp n =
     (if inp = [] then None
      else
        (case capn_init_mem cd inp of
           None \<Rightarrow> None
         | Some m \<Rightarrow>
             let d = read_PolicyDecision cd m
             in Some (of_nat (pd_decision d), of_nat (pd_code d),
                  (if n > 0 \<and> t_str (pd_reason d) \<noteq> None \<and> t_len (pd_reason d) > 0
                   then take (n - 1) (text_bytes (pd_reason d)) else []))))"

section \<open>The playground\<close>

text \<open>\<open>setenv(name, v, 0)\<close> keeps a value that is there.\<close>

definition set_env_default :: "string \<Rightarrow> string \<Rightarrow> world \<Rightarrow> world" where
  "set_env_default name v w = (if w_env w name = None then set_env name v w else w)"

definition PD_DEFAULT_PACK_SPEC :: string where
  "PD_DEFAULT_PACK_SPEC = ''/policy/shell.janet:/policy/packs.d''"

definition pd_supervisor_open :: "bool \<Rightarrow> cstring_opt \<Rightarrow> cstring_opt \<Rightarrow> world \<Rightarrow> supervisor option \<times> world" where
  "pd_supervisor_open mem state runtime w =
     (let st = (if nonempty state then state else Some ''/pd-state'');
          rt = (if nonempty runtime then runtime else Some ''/pd-runtime'');
          w1 = set_env_default ''PHRONESIS_JANET_PACK'' PD_DEFAULT_PACK_SPEC
                 (set_env_default ''PHRONESIS_PACK_ROOT'' ''/policy'' (set_env_default ''PHRONESIS_DEV_PACK'' ''1'' w))
      in case phronesis_supervisor_open mem st rt w1 of
           (Inl e, w2) \<Rightarrow> (None, w2)
         | (Inr s, w2) \<Rightarrow> (Some s, w2))"

text \<open>The tests on the answer that \<open>pd_check_shell\<close> and \<open>pd_check_common\<close> share.\<close>

definition pd_result :: "bytes option \<Rightarrow> int \<times> bytes option" where
  "pd_result out =
     (case out of
        None \<Rightarrow> (-1, None)
      | Some b \<Rightarrow> if length b = 0 \<or> length b > INT_MAX then (-1, None) else (int (length b), Some b))"

definition pd_check_shell ::
  "('e, 'f) vm \<Rightarrow> 'm codec \<Rightarrow> supervisor option \<Rightarrow> bytes \<Rightarrow> world \<Rightarrow> 'f pack_host \<Rightarrow>
   (int \<times> bytes option) \<times> supervisor option \<times> world \<times> 'f pack_host" where
  "pd_check_shell vm cd so inp w st =
     (if so = None \<or> inp = [] then ((-1, None), so, w, st)
      else (case phronesis_check_shell vm cd so inp w st of (out, rest) \<Rightarrow> (pd_result out, rest)))"

definition pd_check_common ::
  "(supervisor option \<Rightarrow> bytes \<Rightarrow> 's \<Rightarrow> bytes option \<times> 's) \<Rightarrow> supervisor option \<Rightarrow> bytes \<Rightarrow> 's \<Rightarrow> (int \<times> bytes option) \<times> 's" where
  "pd_check_common fn so inp s =
     (if so = None \<or> inp = [] then ((-1, None), s) else (case fn so inp s of (out, s1) \<Rightarrow> (pd_result out, s1)))"

text \<open>The state of a path or seat check is the supervisor and the host, of a risk check the host, of a reload the host
  and the packs.\<close>

definition pd_check_path ::
  "'m codec \<Rightarrow> supervisor option \<Rightarrow> bytes \<Rightarrow> supervisor option \<times> world \<Rightarrow> (int \<times> bytes option) \<times> supervisor option \<times> world" where
  "pd_check_path cd so inp s = pd_check_common (\<lambda>so inp s. phronesis_check_path cd so inp (snd s)) so inp s"

definition pd_check_seat ::
  "'m codec \<Rightarrow> supervisor option \<Rightarrow> bytes \<Rightarrow> supervisor option \<times> world \<Rightarrow> (int \<times> bytes option) \<times> supervisor option \<times> world" where
  "pd_check_seat cd so inp s = pd_check_common (\<lambda>so inp s. phronesis_check_seat cd so inp (snd s)) so inp s"

definition pd_check_risk :: "'m codec \<Rightarrow> supervisor option \<Rightarrow> bytes \<Rightarrow> world \<Rightarrow> (int \<times> bytes option) \<times> world" where
  "pd_check_risk cd so inp w = pd_check_common (\<lambda>so inp w. (phronesis_check_risk cd inp w, w)) so inp w"

definition pd_reload_shell_pack ::
  "('e, 'f) vm \<Rightarrow> 'm codec \<Rightarrow> supervisor option \<Rightarrow> bytes \<Rightarrow> world \<times> 'f pack_host \<Rightarrow> (int \<times> bytes option) \<times> world \<times> 'f pack_host" where
  "pd_reload_shell_pack vm cd so inp s =
     pd_check_common (\<lambda>so inp s. phronesis_reload_shell_pack vm cd inp (fst s) (snd s)) so inp s"

definition pd_reload_pack_path :: "('e, 'f) vm \<Rightarrow> cstring_opt \<Rightarrow> world \<Rightarrow> 'f pack_host \<Rightarrow> int \<times> world \<times> 'f pack_host" where
  "pd_reload_pack_path vm path w st =
     (if \<not> nonempty path then (-1, w, st)
      else
        (case phronesis_shell_pack_reload vm path w st of
           (r, w1, st1) \<Rightarrow> (if r = OK then 0 else if r = ERR_INVAL then -1 else -2, w1, st1)))"

definition pd_read_decision :: "'m codec \<Rightarrow> bytes \<Rightarrow> (nat \<times> nat) option" where
  "pd_read_decision cd buf =
     (if buf = [] then None
      else map_option (\<lambda>m. (pd_decision (read_PolicyDecision cd m), pd_code (read_PolicyDecision cd m))) (capn_init_mem cd buf))"

section \<open>What the callers get\<close>

lemma ljos_write_flat: "ljos_write_msg cd m = write_flat cd m"
proof -
  have "ljos_write_loop cd m cap = flat_loop cd m cap" for cap
  proof (induction cd m cap rule: ljos_write_loop.induct)
    case (1 cd m cap)
    then show ?case
      by (cases "capn_write_mem cd m cap") (simp_all add: ljos_write_loop.simps [of cd m cap] flat_loop.simps [of cd m cap])
  qed
  then show ?thesis by (simp add: ljos_write_msg_def write_flat_def)
qed

lemma says_ne: "says cd out d \<Longrightarrow> out \<noteq> None \<and> out \<noteq> Some []"
  by (auto simp: says_def)

lemma read_back:
  assumes "says cd (Some b) d"
  shows "ljos_phronesis_read_decision cd b n = Some (of_nat (pd_decision d), of_nat (pd_code d),
      (if n > 0 \<and> t_str (pd_reason d) \<noteq> None \<and> t_len (pd_reason d) > 0 then take (n - 1) (text_bytes (pd_reason d)) else []))"
    "pd_read_decision cd b = Some (pd_decision d, pd_code d)"
  using assms by (auto simp: says_def ljos_phronesis_read_decision_def pd_read_decision_def Let_def)

lemma pd_result_says: "says cd out d \<Longrightarrow> (\<exists>b. out = Some b \<and> (length b \<le> INT_MAX \<longrightarrow> pd_result out = (int (length b), Some b)) \<and> pd_read_decision cd b = Some (pd_decision d, pd_code d))"
  using read_back(2) [of cd "the out" d] by (auto simp: says_def pd_result_def)

text \<open>C38: Every command that the Rust crate can encode gets a verdict, with its limits. When the message of the command takes
  at most 1 MiB the call returns 0 and an answer that reads back as a decision, the same with both readers up to
  their widths; a message over 512 KiB is the \<open>fieldTooLong\<close> denial that names the limit. A longer message
  is -1 with no decision at all, and nothing was asked of the supervisor or the packs.\<close>

theorem ljos_check_shell_answers:
  fixes vm :: "('e, 'f) vm" and so w st
  assumes cd: "decision_codec cd" and m: "bs (ljos_shell_check cwd argv) = Some m" "writes cd m b"
  defines "r \<equiv> ljos_phronesis_check_shell vm cd bs so cwd argv w st"
  shows "if length b > 1048576 then r = ((-1, None), so, w, st)
    else \<exists>out d. fst r = (0, Some out) \<and> says cd (Some out) d
       \<and> snd r = snd (phronesis_check_shell vm cd so b w st)
       \<and> pd_read_decision cd out = Some (pd_decision d, pd_code d)
       \<and> (\<exists>t. ljos_phronesis_read_decision cd out 256 = Some (of_nat (pd_decision d), of_nat (pd_code d), t) \<and> length t < 256)
       \<and> (length b > 524288 \<longrightarrow> d = host_answer DENY FIELD_TOO_LONG null_agent ''command body exceeds 524288 bytes'')"
proof (cases "length b > 1048576")
  case True
  then show ?thesis using m by (simp add: r_def ljos_phronesis_check_shell_def ljos_write_flat write_flat_writes)
next
  case False
  obtain o1 so1 w1 st1 where cs: "phronesis_check_shell vm cd so b w st = (o1, so1, w1, st1)" by (metis prod.collapse)
  obtain d where d: "says cd o1 d" using check_shell_answers [OF cd, of vm so b w st] cs by auto
  then obtain out where out: "o1 = Some out" "out \<noteq> []" by (auto simp: says_def)
  have r: "r = ((0, Some out), so1, w1, st1)"
    using m cs out False by (simp add: r_def ljos_phronesis_check_shell_def ljos_write_flat write_flat_writes)
  have "d = host_answer DENY FIELD_TOO_LONG null_agent ''command body exceeds 524288 bytes''" if "length b > 524288"
    using check_shell_long [OF cd that, of vm so w st] cs d says_fun by fastforce
  moreover have "\<exists>t. ljos_phronesis_read_decision cd out 256 = Some (of_nat (pd_decision d), of_nat (pd_code d), t) \<and> length t < 256"
    using read_back(1) [of cd out d 256] d out(1) by auto
  ultimately show ?thesis using False r cs d out read_back(2) [of cd out d] by auto
qed

definition wire_shell_check :: "shell_check \<Rightarrow> bytes option" where
  "wire_shell_check sc =
     Some (enc_agent (sh_agentId sc) @ text_bytes (sh_cwd sc) @ concat (map (\<lambda>t. newline # text_bytes t) (sh_argv sc)))"

lemma ljos_check_shell_answers_witness:
  "let r = fst (ljos_phronesis_check_shell demo_vm demo_codec wire_shell_check (Some wired_sup) (Some ''/w'')
               [Some (replicate 600000 CHR ''x'')] demo_world initial_host)
   in fst r = 0 \<and> pd_read_decision demo_codec (the (snd r)) = Some (0, reason_ord FIELD_TOO_LONG)"
proof -
  let ?sc = "ljos_shell_check (Some ''/w'') [Some (replicate 600000 CHR ''x'')]"
  have si: "sint (600000 :: 32 word) = 600000" "sint (2 :: 32 word) = 2" by simp_all
  have w: "wire_shell_check ?sc = Some (enc_agent (Some \<lparr>aid_hi = 0, aid_lo = 1\<rparr>) @ ''/w'' @ newline # replicate 600000 CHR ''x'')"
    by (simp add: wire_shell_check_def ljos_shell_check_def ljos_ctext_def text_bytes_def text_len_def si Let_def)
  have len: "length (enc_agent (Some \<lparr>aid_hi = 0, aid_lo = 1\<rparr>)) = 33" by code_simp
  from ljos_check_shell_answers [where bs = wire_shell_check, OF demo_decision_codec w demo_writes,
      of demo_vm "Some wired_sup" demo_world initial_host]
  show ?thesis using len by (auto simp: Let_def)
qed

end
