(* ===== verification/Cli.thy ===== *)
theory Cli
  imports Supervisor Packs
begin

text \<open>
  The two command line programs: \<open>phronesis\<close> (\<open>phronesis.c\<close>), which opens a supervisor, runs one
  command on it and maps the result to text and an exit code, and \<open>phronesis-pack-image\<close>
  (\<open>pack_image_main.c\<close>), which writes the image of one pack. The argument vector is a list of
  strings; what a run leaves behind is its exit code, the two output streams and the host.
\<close>

record run =
  exit_code :: int
  stdout :: string
  stderr :: string

section \<open>The supervisor command\<close>

definition usage :: "string \<Rightarrow> string" where
  "usage argv0 =
     ''usage:'' @ [newline] @
     ''  '' @ argv0 @ '' [--state-dir DIR] [--runtime-dir DIR] start <agent-id> -- <cmd> [args...]'' @ [newline] @
     ''  '' @ argv0 @ '' [--state-dir DIR] [--runtime-dir DIR] status <agent-id>'' @ [newline] @
     ''  '' @ argv0 @ '' [--state-dir DIR] [--runtime-dir DIR] stop <agent-id>'' @ [newline] @
     ''  '' @ argv0 @ '' [--state-dir DIR] [--runtime-dir DIR] log <agent-id> <kind> <detail>'' @ [newline] @
     ''  '' @ argv0 @ '' [--state-dir DIR] [--runtime-dir DIR] check <agent-id> <tool> <action> [path]'' @ [newline]"

definition state_name :: "agent_state \<Rightarrow> string" where
  "state_name st =
     (case st of AGENT_RUNNING \<Rightarrow> ''running'' | AGENT_FAILED \<Rightarrow> ''failed'' | _ \<Rightarrow> ''stopped'')"

text \<open>The option loop and the test that a command is left: \<open>Inl\<close> is the exit code of a run that only
  prints the usage text, \<open>Inr\<close> the two directories and the command with its arguments.\<close>

fun parse_options :: "cstring_opt \<Rightarrow> cstring_opt \<Rightarrow> string list \<Rightarrow> int + (cstring_opt \<times> cstring_opt \<times> string list)" where
  "parse_options st rt [] = Inl 2"
| "parse_options st rt [a] =
     (if a \<noteq> [] \<and> hd a = CHR ''-'' then Inl (if a = ''-h'' \<or> a = ''--help'' then 0 else 2)
      else Inr (st, rt, [a]))"
| "parse_options st rt (a # v # r) =
     (if a \<noteq> [] \<and> hd a = CHR ''-'' then
        (if a = ''--state-dir'' then parse_options (Some v) rt r
         else if a = ''--runtime-dir'' then parse_options st (Some v) r
         else Inl (if a = ''-h'' \<or> a = ''--help'' then 0 else 2))
      else Inr (st, rt, a # v # r))"

definition failed :: "string \<Rightarrow> rc \<Rightarrow> run" where
  "failed what r = \<lparr>exit_code = 1, stdout = [], stderr = what @ '' failed: '' @ show_int (rc_code r) @ [newline]\<rparr>"

definition bad_usage :: "string \<Rightarrow> run" where
  "bad_usage argv0 = \<lparr>exit_code = 2, stdout = [], stderr = usage argv0\<rparr>"

definition printed :: "int \<Rightarrow> string \<Rightarrow> run" where
  "printed c s = \<lparr>exit_code = c, stdout = s, stderr = []\<rparr>"

text \<open>The \<open>start\<close> command: the command line of the agent is what follows the first double dash.\<close>

definition cmd_start :: "string \<Rightarrow> string list \<Rightarrow> supervisor \<Rightarrow> world \<Rightarrow> run \<times> world" where
  "cmd_start argv0 args s w =
     (case args of
        [] \<Rightarrow> (bad_usage argv0, w)
      | aid # rest \<Rightarrow>
          (case dropWhile (\<lambda>x. x \<noteq> ''--'') rest of
             dash # c # cs \<Rightarrow>
               (case phronesis_supervisor_start (Some s) (Some aid) (Some ''develop'') None (Some (c # cs)) w of
                  (r, so, w') \<Rightarrow>
                    (if r \<noteq> OK then failed ''start'' r else printed 0 (''started '' @ aid @ [newline]), w'))
           | _ \<Rightarrow> (\<lparr>exit_code = 2, stdout = [], stderr = ''start requires: start <id> -- <cmd>...'' @ [newline]\<rparr>, w)))"

definition cmd_status :: "string \<Rightarrow> string list \<Rightarrow> supervisor \<Rightarrow> world \<Rightarrow> run \<times> world" where
  "cmd_status argv0 args s w =
     (case args of
        [] \<Rightarrow> (bad_usage argv0, w)
      | aid # _ \<Rightarrow>
          (case phronesis_supervisor_status (Some s) (Some aid) w of
             (Inl r, so, w') \<Rightarrow> (failed ''status'' r, w')
           | (Inr st, so, w') \<Rightarrow>
               (printed 0 (''id='' @ st_id st @ '' state='' @ state_name (st_state st) @ '' pid='' @ show_int (st_pid st) @
                  '' pgid='' @ show_int (st_pgid st) @ '' mode='' @ st_mode st @ [newline]), w')))"

definition cmd_stop :: "string \<Rightarrow> string list \<Rightarrow> supervisor \<Rightarrow> world \<Rightarrow> run \<times> world" where
  "cmd_stop argv0 args s w =
     (case args of
        [] \<Rightarrow> (bad_usage argv0, w)
      | aid # _ \<Rightarrow>
          (case phronesis_supervisor_stop (Some s) (Some aid) w of
             (r, so, w') \<Rightarrow> (if r \<noteq> OK then failed ''stop'' r else printed 0 (''stopped '' @ aid @ [newline]), w')))"

definition cmd_log :: "string \<Rightarrow> string list \<Rightarrow> supervisor \<Rightarrow> world \<Rightarrow> run \<times> world" where
  "cmd_log argv0 args s w =
     (case args of
        aid # kind # detail # _ \<Rightarrow>
          (case phronesis_supervisor_log (Some s) (Some aid) (Some kind) (Some detail) w of
             (r, w') \<Rightarrow> (if r \<noteq> OK then failed ''log'' r else printed 0 [], w'))
      | _ \<Rightarrow> (bad_usage argv0, w))"

definition dec_name :: "decision \<Rightarrow> string" where
  "dec_name d = (case d of ALLOW \<Rightarrow> ''allow'' | PROMPT \<Rightarrow> ''prompt'' | _ \<Rightarrow> ''deny'')"

definition cmd_check :: "string \<Rightarrow> string list \<Rightarrow> supervisor \<Rightarrow> world \<Rightarrow> run \<times> world" where
  "cmd_check argv0 args s w =
     (case args of
        aid # tool # action # opt \<Rightarrow>
          (case phronesis_policy_check (Some s) (Some aid) (Some tool) (Some action)
                  (case opt of [] \<Rightarrow> None | p # _ \<Rightarrow> Some p) w of
             (Inl r, so, w') \<Rightarrow> (failed ''check'' r, w')
           | (Inr pr, so, w') \<Rightarrow>
               (printed (if pr_decision pr = DENY then 2 else 0)
                  (''decision='' @ dec_name (pr_decision pr) @ '' reason='' @ pr_reason pr @ [newline]), w'))
      | _ \<Rightarrow> (bad_usage argv0, w))"

definition run_command :: "string \<Rightarrow> string \<Rightarrow> string list \<Rightarrow> supervisor \<Rightarrow> world \<Rightarrow> run \<times> world" where
  "run_command argv0 cmd args s w =
     (if cmd = ''start'' then cmd_start argv0 args s w
      else if cmd = ''status'' then cmd_status argv0 args s w
      else if cmd = ''stop'' then cmd_stop argv0 args s w
      else if cmd = ''log'' then cmd_log argv0 args s w
      else if cmd = ''check'' then cmd_check argv0 args s w
      else (bad_usage argv0, w))"

text \<open>\<open>mem\<close> says whether the allocation of the supervisor succeeds; \<open>phronesis_supervisor_close\<close> frees it.\<close>

definition phronesis_main :: "bool \<Rightarrow> string \<Rightarrow> string list \<Rightarrow> world \<Rightarrow> run \<times> world" where
  "phronesis_main mem argv0 args w =
     (case parse_options None None args of
        Inl c \<Rightarrow> ((bad_usage argv0)\<lparr>exit_code := c\<rparr>, w)
      | Inr (st, rt, cmdline) \<Rightarrow>
          (case phronesis_supervisor_open mem st rt w of
             (Inl r, w1) \<Rightarrow> (failed ''open'' r, w1)
           | (Inr s, w1) \<Rightarrow> run_command argv0 (hd cmdline) (tl cmdline) s w1))"

section \<open>The image writer\<close>

definition PATH_MAX :: nat where "PATH_MAX = 4096"

text \<open>\<open>realpath\<close>: the resolved names of an existing node, as an absolute path that fits the buffer.\<close>

definition realpath :: "world \<Rightarrow> string \<Rightarrow> string option" where
  "realpath w p =
     (case stat w p of
        StatErr _ \<Rightarrow> None
      | _ \<Rightarrow>
          let r = (if w_canon w p = [] then ''/'' else concat (map (\<lambda>n. slash # n) (w_canon w p)))
          in if length r < PATH_MAX then Some r else None)"

text \<open>The exit code; its messages on the error stream are left out. The pack root is the directory of the pack.\<close>

definition pack_image_main ::
  "('e, 'f) vm \<Rightarrow> string list \<Rightarrow> world \<Rightarrow> 'f pack_host \<Rightarrow> int \<times> world \<times> 'f pack_host" where
  "pack_image_main vm args w st =
     (case args of
        [src, out_path] \<Rightarrow>
          (case realpath w src of
             None \<Rightarrow> (1, w, st)
           | Some pack \<Rightarrow>
               (case dir_part pack of
                  None \<Rightarrow> (1, w, st)
                | Some root \<Rightarrow>
                    (case phronesis_pack_image_write vm pack out_path (set_env ''PHRONESIS_PACK_ROOT'' root w) st of
                       (ok, w1, st1) \<Rightarrow> (if ok then 0 else 1, w1, st1))))
      | _ \<Rightarrow> (2, w, st))"

section \<open>What a run shows\<close>

lemma open_env:
  assumes "phronesis_supervisor_open mem st rt w = (Inr s, w')"
  shows "w_env w' = w_env w"
proof -
  obtain sd rd lg w1 w0 where r: "phronesis_paths_resolve PHRONESIS_PATH_MAX PHRONESIS_PATH_MAX PHRONESIS_PATH_MAX st rt w = (Inr (sd, rd, lg), w1)"
    and e: "phronesis_paths_ensure_dir (Some (rd @ ''/agents'')) mode_0700 w1 = (OK, w')"
    using assms by (auto simp: phronesis_supervisor_open_def Let_def split: if_splits prod.splits sum.splits)
  obtain w0 where t: "ensure_state_tree sd w = (OK, w0)" "phronesis_paths_ensure_dir (Some rd) mode_0700 w0 = (OK, w1)"
    using r by (auto simp: phronesis_paths_resolve_def split: sum.splits if_splits prod.splits)
  have "dirs_added mode_0700 w w'"
    using ensure_state_tree_ok [OF t(1)] ensure_dir_dirs_added [OF t(2)] ensure_dir_dirs_added [OF e] dirs_added_trans by blast
  then show ?thesis by (simp add: dirs_added_def fs_only_sel)
qed

lemma stdout_runs [simp]:
  "stdout (failed f r) = []" "stdout (bad_usage a) = []" "stdout (printed c t) = t"
  by (simp_all add: failed_def bad_usage_def printed_def)

text \<open>The first byte of what a command prints is enough to know that a verdict comes from \<open>check\<close>.\<close>

lemma other_commands_print:
  "stdout (fst (cmd_start a args s w)) = [] \<or> hd (stdout (fst (cmd_start a args s w))) = CHR ''s''"
  "stdout (fst (cmd_status a args s w)) = [] \<or> hd (stdout (fst (cmd_status a args s w))) = CHR ''i''"
  "stdout (fst (cmd_stop a args s w)) = [] \<or> hd (stdout (fst (cmd_stop a args s w))) = CHR ''s''"
  "stdout (fst (cmd_log a args s w)) = []"
  by (auto simp: cmd_start_def cmd_status_def cmd_stop_def cmd_log_def split: list.splits prod.splits sum.splits)

lemma verdict_from_check:
  assumes r: "run_command a cmd args s w = (r, w')" and o: "take 9 (stdout r) = ''decision=''"
  shows "cmd = ''check'' \<and> cmd_check a args s w = (r, w')"
proof -
  have h: "stdout r \<noteq> []" "hd (stdout r) = CHR ''d''" using o by (cases "stdout r"; simp)+
  show ?thesis
    using r h other_commands_print [of a args s w]
    by (auto simp: run_command_def split: if_splits)
qed

lemma cmd_check_verdict:
  assumes c: "cmd_check a args s w = (r, w')" and o: "take 14 (stdout r) = ''decision=allow''"
  obtains aid tool act opt pr so where "args = aid # tool # act # opt"
    "phronesis_policy_check (Some s) (Some aid) (Some tool) (Some act) (case opt of [] \<Rightarrow> None | p # _ \<Rightarrow> Some p) w = (Inr pr, so, w')"
    "pr_decision pr = ALLOW" "exit_code r = 0"
proof -
  obtain aid tool act opt where args: "args = aid # tool # act # opt"
    using c o by (auto simp: cmd_check_def split: list.splits)
  obtain q so w1 where pc: "phronesis_policy_check (Some s) (Some aid) (Some tool) (Some act) (case opt of [] \<Rightarrow> None | p # _ \<Rightarrow> Some p) w = (q, so, w1)"
    by (metis prod.collapse)
  obtain pr where pr: "q = Inr pr" using c o unfolding cmd_check_def args list.case pc by (cases q) auto
  have r: "r = printed (if pr_decision pr = DENY then 2 else 0)
      (''decision='' @ dec_name (pr_decision pr) @ '' reason='' @ pr_reason pr @ [newline])" "w1 = w'"
    using c unfolding cmd_check_def args list.case pc pr by simp_all
  have "pr_decision pr = ALLOW"
    using o unfolding r(1) by (cases "pr_decision pr") (simp_all add: dec_name_def)
  then show ?thesis using that [OF args] pc r pr by (simp add: printed_def)
qed

lemma no_path: "\<not> path_under_workspace x None"
  by (auto simp: path_under_workspace_def split: option.splits)

text \<open>C28: A verdict of allow on the command line is backed. When a run of \<open>phronesis\<close> prints
  \<open>decision=allow\<close>, the exit code is 0, the command was \<open>check\<close> with an agent, a tool and an action,
  the lockdown variable was not set, and the supervisor opened on the given directories found the agent
  running (tools seat and model) or found the path inside the workspace of the agent's slot and outside
  credential material (every other tool).\<close>

theorem cli_allow_backed:
  assumes run: "phronesis_main mem argv0 args w = (r, w')" and o: "take 14 (stdout r) = ''decision=allow''"
  shows "exit_code r = 0 \<and> \<not> phronesis_policy_deny_all (w_env w)
    \<and> (\<exists>st rt aid tool act opt s w1 pr s'. parse_options None None args = Inr (st, rt, ''check'' # aid # tool # act # opt)
        \<and> phronesis_supervisor_open mem st rt w = (Inr s, w1)
        \<and> phronesis_policy_check (Some s) (Some aid) (Some tool) (Some act) (case opt of [] \<Rightarrow> None | p # _ \<Rightarrow> Some p) w1 = (Inr pr, Some s', w')
        \<and> (if tool = ''seat'' \<or> tool = ''model''
           then \<exists>s1 w2 a. phronesis_policy_require_running_agent (Some s) (Some aid) w1 = (None, Some s1, w2)
                  \<and> view s1 aid = Some a \<and> slot_state a = AGENT_RUNNING
           else \<exists>p ps a. opt = p # ps \<and> view s' aid = Some a \<and> path_under_workspace (Some (slot_workspace a)) (Some p)
                  \<and> \<not> path_is_sensitive (Some p)))"
proof -
  have ne: "stdout r \<noteq> []" using o by auto
  obtain st rt cl where po: "parse_options None None args = Inr (st, rt, cl)"
    using run ne by (cases "parse_options None None args") (auto simp: phronesis_main_def)
  obtain s w1 where op: "phronesis_supervisor_open mem st rt w = (Inr s, w1)"
    and rc: "run_command argv0 (hd cl) (tl cl) s w1 = (r, w')"
    using run ne unfolding phronesis_main_def po by (auto split: prod.splits sum.splits)
  have o9: "take 9 (stdout r) = ''decision=''" using arg_cong [OF o, of "take 9"] by simp
  note ck = verdict_from_check [OF rc o9]
  obtain aid tool act opt pr so where a: "tl cl = aid # tool # act # opt"
    and pc: "phronesis_policy_check (Some s) (Some aid) (Some tool) (Some act) (case opt of [] \<Rightarrow> None | p # _ \<Rightarrow> Some p) w1 = (Inr pr, so, w')"
    and al: "pr_decision pr = ALLOW" and ex: "exit_code r = 0"
    using cmd_check_verdict [OF conjunct2 [OF ck] o] by blast
  have cl: "cl = ''check'' # aid # tool # act # opt" using a ck by (cases cl) auto
  note ok = open_sup_ok(1) [OF op]
  obtain s' where s': "so = Some s'" using policy_check_effect [OF ok pc] by blast
  note law = policy_check_allow_law [OF ok pc [unfolded s'] al]
  have "if tool = ''seat'' \<or> tool = ''model''
     then \<exists>s1 w2 a. phronesis_policy_require_running_agent (Some s) (Some aid) w1 = (None, Some s1, w2)
            \<and> view s1 aid = Some a \<and> slot_state a = AGENT_RUNNING
     else \<exists>p ps a. opt = p # ps \<and> view s' aid = Some a \<and> path_under_workspace (Some (slot_workspace a)) (Some p)
            \<and> \<not> path_is_sensitive (Some p)"
    using law no_path by (cases opt; cases "tool = ''seat'' \<or> tool = ''model''") (simp_all add: or_empty_def)
  moreover have "\<not> phronesis_policy_deny_all (w_env w)" using law open_env [OF op] by simp
  ultimately show ?thesis using ex po [unfolded cl] op pc [unfolded s'] by blast
qed

text \<open>A host on which agent \<open>a1\<close> was bound to workspace \<open>/w\<close> by an earlier process: its slot file is there.\<close>

definition bound_world :: world where
  "bound_world =
     demo_world\<lparr>w_fs := (w_fs (snd demo_open))([''h'', ''r'', ''agents'', ''a1.slot''] \<mapsto> Reg (slot_line seated))\<rparr>"

definition check_args :: "string list" where
  "check_args = [''--state-dir'', ''/h/s'', ''--runtime-dir'', ''/h/r'', ''check'', ''a1'', ''fs'', ''read'', ''/w/x'']"

lemma check_run: "stdout (fst (phronesis_main True ''phronesis'' check_args bound_world)) = ''decision=allow reason='' @ [newline]"
  by code_simp

lemma cli_allow_backed_witness:
  "\<exists>st rt aid tool act opt s w1 pr s' a. parse_options None None check_args = Inr (st, rt, ''check'' # aid # tool # act # opt)
     \<and> phronesis_supervisor_open True st rt bound_world = (Inr s, w1)
     \<and> phronesis_policy_check (Some s) (Some aid) (Some tool) (Some act) (Some ''/w/x'') w1 = (Inr pr, Some s', snd (phronesis_main True ''phronesis'' check_args bound_world))
     \<and> view s' aid = Some a \<and> path_under_workspace (Some (slot_workspace a)) (Some ''/w/x'')"
proof -
  obtain r w' where run: "phronesis_main True ''phronesis'' check_args bound_world = (r, w')" by (metis prod.collapse)
  have o: "take 14 (stdout r) = ''decision=allow''" using check_run run by simp
  have po: "parse_options None None check_args = Inr (Some ''/h/s'', Some ''/h/r'', [''check'', ''a1'', ''fs'', ''read'', ''/w/x''])"
    by code_simp
  show ?thesis using cli_allow_backed [OF run o] run unfolding po by auto
qed

end
