(* ===== verification/Pack_Image.thy ===== *)
theory Pack_Image
  imports Packs
begin

text \<open>
  The life of a pack image: what \<open>phronesis_pack_image_write\<close> writes, \<open>load_pack_image\<close> takes. Every file of a
  pack is opened under the pack root, so the proof first removes the state: once the root is open, opening,
  reading and hashing depend on the host alone (\<open>opened_at\<close>, \<open>read_at\<close>, \<open>hash_at\<close>), and writing
  one file that is none of the sources leaves what they return unchanged.
\<close>

section \<open>The root of the pack files\<close>

text \<open>What the two static variables of the root may hold: nothing, or the directory that the environment names.\<close>

definition root_ok :: "world \<Rightarrow> 'f pack_host \<Rightarrow> bool" where
  "root_ok w st \<longleftrightarrow>
     (\<forall>fd. pack_rootfd st = Some fd \<longrightarrow> pack_root_path (w_env w) PACK_PATH_MAX = Some (pack_root st) \<and> fd = w_canon w (pack_root st))"

definition root_open :: "world \<Rightarrow> 'f pack_host \<Rightarrow> bool" where
  "root_open w st \<longleftrightarrow> root_ok w st \<and> pack_rootfd st \<noteq> None"

lemma root_ok_initial [simp]: "root_ok w initial_host"
  by (simp add: root_ok_def initial_host_def)

lemma root_ok_inited [simp]: "root_ok w (st\<lparr>janet_inited := b\<rparr>) = root_ok w st"
  by (simp add: root_ok_def)

lemma ensure_root_open: "root_open w st \<Longrightarrow> ensure_pack_root w st = (True, st)"
  by (auto simp: root_open_def root_ok_def ensure_pack_root_def)

lemma ensure_root_ok:
  assumes "ensure_pack_root w st = (b, st')" "root_ok w st"
  shows "root_ok w st'" "b \<Longrightarrow> root_open w st'"
proof -
  have "root_ok w st' \<and> (b \<longrightarrow> root_open w st')"
  proof (cases "pack_root_path (w_env w) PACK_PATH_MAX")
    case None
    then show ?thesis using assms by (auto simp: ensure_pack_root_def)
  next
    case (Some root)
    have fd: "phronesis_beneath_dir w (Some root) = Some fd \<Longrightarrow> fd = w_canon w root" for fd
      by (auto simp: phronesis_beneath_dir_def split: if_splits option.splits node.splits)
    show ?thesis
    proof (cases "pack_rootfd st \<noteq> None \<and> pack_root st = root")
      case True
      then show ?thesis using assms Some by (auto simp: ensure_pack_root_def root_open_def)
    next
      case False
      then show ?thesis
        using assms Some fd by (cases "phronesis_beneath_dir w (Some root)") (auto simp: ensure_pack_root_def root_open_def root_ok_def split: if_splits)
    qed
  qed
  then show "root_ok w st'" "b \<Longrightarrow> root_open w st'" by blast+
qed

section \<open>Opening, reading and hashing without the state\<close>

definition opened_at :: "world \<Rightarrow> string \<Rightarrow> string list option" where
  "opened_at w p =
     Option.bind (pack_root_path (w_env w) PACK_PATH_MAX) (\<lambda>root.
     Option.bind (phronesis_beneath_rel (Some root) (Some p) PACK_PATH_MAX) (\<lambda>rel.
       phronesis_beneath_open w (Some (w_canon w root)) (Some rel)))"

definition read_at :: "world \<Rightarrow> string \<Rightarrow> bytes option" where
  "read_at w p =
     (case Option.bind (opened_at w p) (w_fs w) of
        Some (Reg b) \<Rightarrow> if b = [] \<or> length b > PACK_IMAGE_MAX then None else Some b
      | _ \<Rightarrow> None)"

fun hash_at :: "world \<Rightarrow> (string \<times> string) list \<Rightarrow> 64 word \<Rightarrow> 64 word option" where
  "hash_at w [] h = Some h"
| "hash_at w ((file, name) # fs) h =
     (if \<not> snprintf_fits PACK_PATH_MAX file then None
      else Option.bind (read_at w file) (\<lambda>buf. hash_at w fs (fnv1a_feed (fnv1a_feed h (name @ [NUL])) buf)))"

definition hash_list :: "world \<Rightarrow> string \<Rightarrow> (string \<times> string) list option" where
  "hash_list w path =
     map_option (\<lambda>(libdir, names). map (\<lambda>x. (libdir @ ''/'' @ x, x)) names @ [(path, base_name path)]) (pack_lib_names w path)"

text \<open>The source files of a pack: its helpers and itself.\<close>

definition pack_sources :: "world \<Rightarrow> string \<Rightarrow> string list" where
  "pack_sources w path = (case hash_list w path of None \<Rightarrow> [] | Some fs \<Rightarrow> map fst fs)"

lemma open_on_root_open: "root_open w st \<Longrightarrow> open_on_root w p st = (opened_at w p, st)"
  using ensure_root_open [of w st]
  by (auto simp: open_on_root_def opened_at_def root_open_def root_ok_def split: option.splits)

lemma open_on_root_Some:
  assumes o: "open_on_root w p st = (r, st')" and ok: "root_ok w st"
  shows "root_ok w st' \<and> (r \<noteq> None \<longrightarrow> root_open w st' \<and> opened_at w p = r)"
proof -
  obtain b st1 where e: "ensure_pack_root w st = (b, st1)" by fastforce
  note k = ensure_root_ok [OF e ok]
  show ?thesis
  proof (cases b)
    case False
    then show ?thesis using o e k by (auto simp: open_on_root_def)
  next
    case True
    have "open_on_root w p st1 = open_on_root w p st"
      using e True ensure_root_open [OF k(2) [OF True]] by (simp add: open_on_root_def)
    then show ?thesis using open_on_root_open [OF k(2) [OF True], of p] o k True by auto
  qed
qed

lemma read_pack_file_open: "root_open w st \<Longrightarrow> read_pack_file w p st = (read_at w p, st)"
  by (auto simp: read_pack_file_def read_at_def open_on_root_open split: option.splits node.splits)

lemma read_pack_file_Some:
  assumes r: "read_pack_file w p st = (r, st')" and ok: "root_ok w st"
  shows "root_ok w st' \<and> (r \<noteq> None \<longrightarrow> root_open w st' \<and> read_at w p = r)"
proof -
  obtain k st1 where o: "open_on_root w p st = (k, st1)" by fastforce
  show ?thesis
    using r o open_on_root_Some [OF o ok] by (cases k) (auto simp: read_pack_file_def read_at_def split: option.splits node.splits)
qed

lemma hash_files_open: "root_open w st \<Longrightarrow> hash_files w fs h st = (hash_at w fs h, st)"
  by (induction w fs h rule: hash_at.induct) (auto simp: read_pack_file_open split: option.splits)

lemma hash_files_Some:
  assumes "hash_files w fs h st = (Some x, st')" "root_ok w st" "fs \<noteq> []"
  shows "root_open w st' \<and> hash_at w fs h = Some x"
proof -
  obtain f name fs' where fs: "fs = (f, name) # fs'" using assms(3) by (cases fs) auto
  obtain r st1 where r: "read_pack_file w f st = (r, st1)" by fastforce
  obtain b where b: "r = Some b" "snprintf_fits PACK_PATH_MAX f" using assms(1) r fs by (cases r) (auto split: if_splits)
  have o: "root_open w st1" "read_at w f = Some b" using read_pack_file_Some [OF r assms(2)] b by auto
  show ?thesis using assms(1) o r b hash_files_open [OF o(1)] by (auto simp: fs)
qed

lemma source_hash_open:
  assumes "root_open w st"
  shows "pack_source_hash w path st = (Option.bind (hash_list w path) (\<lambda>fs. hash_at w fs 0xcbf29ce484222325), st)"
  using hash_files_open [OF assms] by (auto simp: pack_source_hash_def hash_list_def split: option.splits)

lemma source_hash_Some:
  assumes "pack_source_hash w path st = (Some h, st')" "root_ok w st"
  obtains fs where "hash_list w path = Some fs" "hash_at w fs 0xcbf29ce484222325 = Some h" "root_open w st'"
proof -
  obtain d ns where "pack_lib_names w path = Some (d, ns)" using assms(1) by (auto simp: pack_source_hash_def split: option.splits)
  then show ?thesis using that assms hash_files_Some [OF _ assms(2)] by (simp add: pack_source_hash_def hash_list_def)
qed

section \<open>Compiling keeps the root\<close>

lemma dobytes_file_root: "dobytes_file vm w e p st = (r, st') \<Longrightarrow> root_ok w st \<Longrightarrow> root_ok w st'"
  by (auto simp: dobytes_file_def dest: read_pack_file_Some split: prod.splits option.splits if_splits)

lemma load_libs_loop_root: "load_libs_loop vm w d xs e st = (r, st') \<Longrightarrow> root_ok w st \<Longrightarrow> root_ok w st'"
proof (induction xs arbitrary: e st)
  case (Cons x xs)
  obtain e1 st1 where d: "dobytes_file vm w e (d @ ''/'' @ x) st = (e1, st1)" by fastforce
  show ?case using Cons.prems Cons.IH [of _ st1] dobytes_file_root [OF d] d by (cases e1) (auto simp: Let_def split: if_splits)
qed simp

lemma compile_pack_root: "compile_pack vm w p st = (r, st') \<Longrightarrow> root_ok w st \<Longrightarrow> root_ok w st'"
  by (auto simp: compile_pack_def load_pack_libs_def Let_def dest: dobytes_file_root load_libs_loop_root
      split: option.splits prod.splits)

section \<open>Writing one more file\<close>

text \<open>The host after a regular file was put in place of no node or of another file.\<close>

definition file_put :: "string list \<Rightarrow> bytes \<Rightarrow> world \<Rightarrow> world \<Rightarrow> bool" where
  "file_put k b w w' \<longleftrightarrow> w' = w\<lparr>w_fs := (w_fs w)(k \<mapsto> Reg b)\<rparr> \<and> (\<forall>m. w_fs w k \<noteq> Some (Dir m))"

lemma file_put_sel:
  assumes "file_put k b w w'"
  shows "w_env w' = w_env w" "w_canon w' = w_canon w" "w_fault w' = w_fault w" "w_dir w' = w_dir w" "w_openat2 w' = w_openat2 w"
    "w_fs w' = (w_fs w)(k \<mapsto> Reg b)"
  using assms by (simp_all add: file_put_def)

lemma openat_same:
  "w_fs w' (cur @ [t]) = w_fs w (cur @ [t]) \<Longrightarrow> w_fault w' = w_fault w \<Longrightarrow> openat w' cur t d = openat w cur t d"
  by (simp only: openat_def Let_def)

lemma put_stays:
  "file_put k b w w' \<Longrightarrow> walk_toks w cur ts = Some fd \<Longrightarrow> fd \<noteq> k \<Longrightarrow> walk_toks w' cur ts = Some fd"
proof (induction ts arbitrary: cur)
  case (Cons t ts)
  show ?case
  proof (cases "t \<noteq> [] \<and> t \<noteq> ''.''")
    case True
    then obtain nx where nx: "openat w cur t (ts \<noteq> []) = Some nx" "walk_toks w nx ts = Some fd" "t \<noteq> ''..''"
      using Cons.prems by (auto split: if_splits option.splits)
    have n: "nx = cur @ [t]" using nx(1) by (auto simp: openat_def Let_def split: if_splits option.splits node.splits)
    have "nx \<noteq> k"
    proof (cases ts)
      case Nil
      then show ?thesis using nx(2) Cons.prems(3) by simp
    next
      case (Cons u us)
      then have "\<exists>m. w_fs w nx = Some (Dir m)" using nx(1) by (auto simp: openat_def Let_def split: if_splits option.splits node.splits)
      then show ?thesis using \<open>file_put k b w w'\<close> by (auto simp: file_put_def)
    qed
    then have "openat w' cur t (ts \<noteq> []) = Some nx"
      using nx(1) n file_put_sel(3,6) [OF Cons.prems(1)] openat_same [of w' cur t w] by simp
    then show ?thesis using True nx Cons.IH [OF Cons.prems(1) nx(2) Cons.prems(3)] by simp
  next
    case False
    then show ?thesis using Cons.IH [OF Cons.prems(1) _ Cons.prems(3), of cur] Cons.prems(2) by auto
  qed
qed simp

lemma opened_at_put:
  assumes p: "file_put k b w w'" and o: "opened_at w f = Some fd" and ne: "fd \<noteq> k"
  shows "opened_at w' f = Some fd"
proof -
  note s = file_put_sel [OF p]
  obtain root rel where r: "pack_root_path (w_env w) PACK_PATH_MAX = Some root"
    "phronesis_beneath_rel (Some root) (Some f) PACK_PATH_MAX = Some rel"
    "phronesis_beneath_open w (Some (w_canon w root)) (Some rel) = Some fd"
    using o by (auto simp: opened_at_def split: bind_splits)
  have "walk_open w' x rel = Some fd" if "walk_open w x rel = Some fd" for x
    using that put_stays [OF p _ ne] s(3) by (auto simp: walk_open_def dup_fd_def split: if_splits option.splits)
  then have "phronesis_beneath_open w' (Some (w_canon w root)) (Some rel) = Some fd"
    using r(3) s(5) by (auto simp: phronesis_beneath_open_def split: if_splits sum.splits)
  then show ?thesis using r s by (simp add: opened_at_def)
qed

lemma read_at_put:
  assumes p: "file_put k b w w'" and r: "read_at w f = Some x" and ne: "opened_at w f \<noteq> Some k"
  shows "read_at w' f = Some x"
proof -
  obtain fd where fd: "opened_at w f = Some fd" using r by (auto simp: read_at_def split: option.splits bind_splits)
  have "opened_at w' f = Some fd" "fd \<noteq> k" using opened_at_put [OF p fd] ne fd by auto
  then show ?thesis using r fd file_put_sel(6) [OF p] by (simp add: read_at_def)
qed

lemma hash_at_put:
  "file_put k b w w' \<Longrightarrow> hash_at w fs h = Some x \<Longrightarrow> \<forall>f \<in> set (map fst fs). opened_at w f \<noteq> Some k \<Longrightarrow> hash_at w' fs h = Some x"
proof (induction w fs h rule: hash_at.induct)
  case (2 w f name fs h)
  obtain buf where b: "read_at w f = Some buf" "snprintf_fits PACK_PATH_MAX f"
    using 2(3) by (auto split: if_splits bind_splits)
  have "read_at w' f = Some buf" using read_at_put [OF 2(2) b(1)] 2(4) by simp
  then show ?case using 2 b by simp
qed simp

lemma hash_list_put: "file_put k b w w' \<Longrightarrow> hash_list w' path = hash_list w path"
  unfolding hash_list_def pack_lib_names_def by (simp only: file_put_sel)

lemma root_ok_put: "file_put k b w w' \<Longrightarrow> root_ok w' st = root_ok w st"
  by (simp add: root_ok_def file_put_sel)

lemma write_file_put:
  assumes o: "fopen_wa True out w = (True, w1)" and f: "fput out data w1 = (PutOk, w2)"
  shows "file_put (w_canon w out) data w w2"
proof -
  have w1: "w1 = put_node (w_canon w out) (Some (Reg [])) w" "\<forall>m. w_fs w (w_canon w out) \<noteq> Some (Dir m)"
    using o by (auto simp: fopen_wa_def split: if_splits option.splits node.splits)
  show ?thesis using f w1(2) unfolding w1(1) by (auto simp: file_put_def fput_def put_bytes_def put_node_def split: if_splits)
qed

section \<open>The round trip\<close>

text \<open>What the loader relies on in the machine: marshalling is inverted by unmarshalling and never empty.\<close>

definition marshals :: "('e, 'f) vm \<Rightarrow> bool" where
  "marshals vm \<longleftrightarrow> (\<forall>v b. janet_marshal vm v = Some b \<longrightarrow> b \<noteq> [] \<and> janet_unmarshal vm b = Some v)"

lemma image_entries_jval: "s \<noteq> None \<or> a \<noteq> None \<Longrightarrow> image_entries (Some (JTuple [jval_of s, jval_of a])) = Some (s, a)"
  by (cases s; cases a) (simp_all add: image_entries_def entry_of_def jval_of_def)

lemma image_write_effect:
  assumes wr: "phronesis_pack_image_write vm path out_path w st = (True, w', st')" and ro: "root_ok w st"
  obtains s a fs h b where "fst (compile_pack vm w path (st\<lparr>janet_inited := True\<rparr>)) = Some (s, a)" "s \<noteq> None \<or> a \<noteq> None"
    "hash_list w path = Some fs" "hash_at w fs 0xcbf29ce484222325 = Some h"
    "janet_marshal vm (JTuple [jval_of s, jval_of a]) = Some b"
    "snprintf_fits 256 (PACK_IMAGE_MAGIC @ janet_version vm @ [newline] @ hex_fixed 16 (unat h) @ [newline])"
    "file_put (w_canon w out_path) (PACK_IMAGE_MAGIC @ janet_version vm @ [newline] @ hex_fixed 16 (unat h) @ [newline] @ b) w w'"
proof -
  obtain e st1 where c: "compile_pack vm w path (st\<lparr>janet_inited := True\<rparr>) = (e, st1)" by fastforce
  obtain s a where e: "e = Some (s, a)" "s \<noteq> None \<or> a \<noteq> None"
    using wr c by (cases e) (auto simp: phronesis_pack_image_write_def split: if_splits)
  obtain hd st2 where hd: "pack_image_header vm w path 256 st1 = (hd, st2)" by fastforce
  obtain header b w1 where h: "hd = Some header" "janet_marshal vm (JTuple [jval_of s, jval_of a]) = Some b"
    "fopen_wa True out_path w = (True, w1)" "fput out_path (header @ b) w1 = (PutOk, w')"
    using wr c e hd by (auto simp: phronesis_pack_image_write_def split: option.splits prod.splits bool.splits if_splits)
  obtain x where x: "pack_source_hash w path st1 = (Some x, st2)"
    "header = PACK_IMAGE_MAGIC @ janet_version vm @ [newline] @ hex_fixed 16 (unat x) @ [newline]" "snprintf_fits 256 header"
    using hd h(1) by (auto simp: pack_image_header_def Let_def split: option.splits prod.splits if_splits)
  have r1: "root_ok w st1" using compile_pack_root [OF c] ro by simp
  obtain fs where "hash_list w path = Some fs" "hash_at w fs 0xcbf29ce484222325 = Some x" using source_hash_Some [OF x(1) r1] .
  then show ?thesis using that [of s a fs x b] c e h x write_file_put [OF h(3,4)] by simp
qed

text \<open>When the image writer succeeds, a loader that finds the file under the pack root takes from it exactly the
  entries that compiling the sources gave.\<close>

lemma image_back:
  assumes wr: "phronesis_pack_image_write vm path out_path w st = (True, w', st')"
    and ip: "pack_image_path path PACK_PATH_MAX = Some ipath"
    and ro: "root_ok w st" "root_ok w stl"
    and op: "open_on_root w' ipath stl = (Some (w_canon w out_path), stl')"
    and src: "\<forall>f \<in> set (pack_sources w path). opened_at w f \<noteq> Some (w_canon w out_path)"
    and vm: "marshals vm" and sz: "\<forall>b. w_fs w' (w_canon w out_path) = Some (Reg b) \<longrightarrow> length b \<le> PACK_IMAGE_MAX"
  shows "\<exists>s a. (s \<noteq> None \<or> a \<noteq> None) \<and> fst (compile_pack vm w path (st\<lparr>janet_inited := True\<rparr>)) = Some (s, a)
    \<and> load_pack_image vm w' path stl = (Some (s, a), stl')"
proof -
  obtain s a fs h b where c: "fst (compile_pack vm w path (st\<lparr>janet_inited := True\<rparr>)) = Some (s, a)" "s \<noteq> None \<or> a \<noteq> None"
    and hs: "hash_list w path = Some fs" "hash_at w fs 0xcbf29ce484222325 = Some h"
    and m: "janet_marshal vm (JTuple [jval_of s, jval_of a]) = Some b"
    and fit: "snprintf_fits 256 (PACK_IMAGE_MAGIC @ janet_version vm @ [newline] @ hex_fixed 16 (unat h) @ [newline])"
    and put: "file_put (w_canon w out_path) (PACK_IMAGE_MAGIC @ janet_version vm @ [newline] @ hex_fixed 16 (unat h) @ [newline] @ b) w w'"
    using image_write_effect [OF wr ro(1)] .
  let ?hdr = "PACK_IMAGE_MAGIC @ janet_version vm @ [newline] @ hex_fixed 16 (unat h) @ [newline]"
  have b: "b \<noteq> []" "image_entries (janet_unmarshal vm b) = Some (s, a)"
    using vm m image_entries_jval [OF c(2)] by (auto simp: marshals_def)
  have o: "root_open w' stl'" "opened_at w' ipath = Some (w_canon w out_path)"
    using open_on_root_Some [OF op] ro(2) root_ok_put [OF put, of stl] by auto
  have "\<forall>f \<in> set (map fst fs). opened_at w f \<noteq> Some (w_canon w out_path)" using src hs(1) by (simp add: pack_sources_def)
  then have "hash_at w' fs 0xcbf29ce484222325 = Some h" by (rule hash_at_put [OF put hs(2)])
  then have hd: "pack_image_header vm w' path 256 stl' = (Some ?hdr, stl')"
    using source_hash_open [OF o(1), of path] hash_list_put [OF put] hs(1) fit by (simp add: pack_image_header_def Let_def)
  have "read_at w' ipath = Some (?hdr @ b)" using o(2) sz file_put_sel(6) [OF put] b(1) by (simp add: read_at_def)
  then have rd: "read_pack_file w' ipath stl' = (Some (?hdr @ b), stl')" using read_pack_file_open [OF o(1)] by simp
  have "pack_on_root w' ipath stl = (True, stl')" using op by (simp add: pack_on_root_def)
  then have "load_pack_image vm w' path stl = (image_entries (janet_unmarshal vm b), stl')"
    using ip hd rd b(1) by (simp add: load_pack_image_def Let_def)
  then show ?thesis using b(2) c by auto
qed

end
