(* ===== verification/Trace.thy ===== *)
theory Trace
  imports Json
begin

text \<open>
  src/policy\_trace.c and src/policy\_trace.h, the trace of playground builds: a ring of the last 64
  events with one event under construction, its JSON export into a growing buffer, and the four
  functions a Janet pack may call. The static variables are the record \<open>trace\<close>. \<open>realloc\<close> never
  fails in the model.
\<close>

section \<open>Data\<close>

definition PD_TRACE_RING :: nat where "PD_TRACE_RING = 64"
definition PD_TRACE_SPANS_MAX :: nat where "PD_TRACE_SPANS_MAX = 8"
definition PD_TRACE_NAME_MAX :: nat where "PD_TRACE_NAME_MAX = 128"
definition PD_TRACE_DETAIL_MAX :: nat where "PD_TRACE_DETAIL_MAX = 256"
definition PD_TRACE_ROLE_MAX :: nat where "PD_TRACE_ROLE_MAX = 32"
definition PD_TRACE_DECISION_MAX :: nat where "PD_TRACE_DECISION_MAX = 16"

datatype trace_layer = LAYER_PACK | LAYER_HOST | LAYER_CAPNP | LAYER_OTHER int

datatype trace_phase = PHASE_ENTER | PHASE_GATE | PHASE_MATCH | PHASE_SKIP | PHASE_DECIDE | PHASE_ERROR | PHASE_OTHER int

record trace_span =
  span_index :: int
  span_role :: string

text \<open>The array of spans with its counter is a list.\<close>

record trace_event =
  ev_seq :: "32 word"
  ev_layer :: trace_layer
  ev_phase :: trace_phase
  ev_name :: string
  ev_detail :: string
  ev_spans :: "trace_span list"
  ev_code :: int
  ev_decision :: string
  ev_short_circuit :: bool
  ev_used :: bool

record trace =
  g_ring :: "trace_event list"
  g_head :: nat
  g_count :: nat
  g_seq :: "32 word"
  g_pending :: trace_event
  g_pending_open :: bool

fun layer_str :: "trace_layer \<Rightarrow> string" where
  "layer_str LAYER_PACK = ''pack''"
| "layer_str LAYER_HOST = ''host''"
| "layer_str LAYER_CAPNP = ''capnp''"
| "layer_str (LAYER_OTHER _) = ''host''"

fun phase_str :: "trace_phase \<Rightarrow> string" where
  "phase_str PHASE_ENTER = ''enter''"
| "phase_str PHASE_GATE = ''gate''"
| "phase_str PHASE_MATCH = ''match''"
| "phase_str PHASE_SKIP = ''skip''"
| "phase_str PHASE_DECIDE = ''decide''"
| "phase_str PHASE_ERROR = ''error''"
| "phase_str (PHASE_OTHER _) = ''enter''"

definition copy_trunc :: "nat \<Rightarrow> cstring_opt \<Rightarrow> string" where
  "copy_trunc dst_n src =
     (case src of
        None \<Rightarrow> []
      | Some s \<Rightarrow> let n = length s in take (if n \<ge> dst_n then dst_n - 1 else n) s)"

text \<open>\<open>memset\<close> to zero; \<open>event_reset\<close> then sets the code to -1.\<close>

definition zero_event :: trace_event where
  "zero_event =
     \<lparr>ev_seq = 0, ev_layer = LAYER_PACK, ev_phase = PHASE_ENTER, ev_name = [], ev_detail = [], ev_spans = [],
      ev_code = 0, ev_decision = [], ev_short_circuit = False, ev_used = False\<rparr>"

definition event_reset :: trace_event where
  "event_reset = zero_event\<lparr>ev_code := -1\<rparr>"

section \<open>Recording\<close>

definition ring_push :: "trace_event \<Rightarrow> trace \<Rightarrow> trace" where
  "ring_push src t =
     t\<lparr>g_ring := (g_ring t)[g_head t := src\<lparr>ev_used := True\<rparr>],
       g_head := (g_head t + 1) mod PD_TRACE_RING,
       g_count := (if g_count t < PD_TRACE_RING then g_count t + 1 else g_count t)\<rparr>"

definition pd_trace_clear :: trace where
  "pd_trace_clear =
     \<lparr>g_ring = replicate PD_TRACE_RING zero_event, g_head = 0, g_count = 0, g_seq = 0,
      g_pending = event_reset, g_pending_open = False\<rparr>"

definition pd_trace_begin :: "trace_layer \<Rightarrow> trace_phase \<Rightarrow> cstring_opt \<Rightarrow> cstring_opt \<Rightarrow> trace \<Rightarrow> trace" where
  "pd_trace_begin layer phase name detail t =
     t\<lparr>g_seq := g_seq t + 1,
       g_pending := event_reset\<lparr>ev_seq := g_seq t + 1, ev_layer := layer, ev_phase := phase,
         ev_name := copy_trunc PD_TRACE_NAME_MAX name, ev_detail := copy_trunc PD_TRACE_DETAIL_MAX detail\<rparr>,
       g_pending_open := True\<rparr>"

definition pd_trace_span_argv :: "int \<Rightarrow> cstring_opt \<Rightarrow> trace \<Rightarrow> trace" where
  "pd_trace_span_argv index role t =
     (if \<not> g_pending_open t \<or> length (ev_spans (g_pending t)) \<ge> PD_TRACE_SPANS_MAX then t
      else t\<lparr>g_pending := (g_pending t)\<lparr>ev_spans := ev_spans (g_pending t) @
          [\<lparr>span_index = index, span_role = copy_trunc PD_TRACE_ROLE_MAX (case role of None \<Rightarrow> Some [] | Some r \<Rightarrow> Some r)\<rparr>]\<rparr>\<rparr>)"

definition pd_trace_set_code :: "int \<Rightarrow> trace \<Rightarrow> trace" where
  "pd_trace_set_code code t =
     (if \<not> g_pending_open t then t else t\<lparr>g_pending := (g_pending t)\<lparr>ev_code := code\<rparr>\<rparr>)"

definition pd_trace_set_decision :: "cstring_opt \<Rightarrow> trace \<Rightarrow> trace" where
  "pd_trace_set_decision decision t =
     (if \<not> g_pending_open t then t
      else t\<lparr>g_pending := (g_pending t)\<lparr>ev_decision := copy_trunc PD_TRACE_DECISION_MAX decision\<rparr>\<rparr>)"

definition pd_trace_set_short_circuit :: "bool \<Rightarrow> trace \<Rightarrow> trace" where
  "pd_trace_set_short_circuit sc t =
     (if \<not> g_pending_open t then t else t\<lparr>g_pending := (g_pending t)\<lparr>ev_short_circuit := sc\<rparr>\<rparr>)"

definition pd_trace_commit :: "trace \<Rightarrow> trace" where
  "pd_trace_commit t =
     (if \<not> g_pending_open t then t
      else (ring_push (g_pending t) t)\<lparr>g_pending := event_reset, g_pending_open := False\<rparr>)"

definition pd_trace_event ::
  "trace_layer \<Rightarrow> trace_phase \<Rightarrow> cstring_opt \<Rightarrow> cstring_opt \<Rightarrow> int \<Rightarrow> cstring_opt \<Rightarrow> bool \<Rightarrow> trace \<Rightarrow> trace" where
  "pd_trace_event layer phase name detail code decision sc t =
     (let t1 = pd_trace_begin layer phase name detail t;
          t2 = (if code \<ge> 0 then pd_trace_set_code code t1 else t1);
          t3 = (if nonempty decision then pd_trace_set_decision decision t2 else t2)
      in pd_trace_commit (pd_trace_set_short_circuit sc t3))"

section \<open>Export\<close>

text \<open>The growing buffer: its text and its capacity, zero before the first allocation.\<close>

record jbuf =
  jb_text :: string
  jb_cap :: nat

text \<open>The loop \<open>while (ncap < need) ncap *= 2\<close>; the test for zero only makes it total, since the first capacity is 4096.\<close>

function double_until :: "nat \<Rightarrow> nat \<Rightarrow> nat" where
  "double_until ncap need = (if ncap = 0 \<or> ncap \<ge> need then ncap else double_until (ncap * 2) need)"
  by pat_completeness auto
termination
  by (relation "measure (\<lambda>(ncap, need). need - ncap)") auto

declare double_until.simps [simp del]

definition room :: "nat \<Rightarrow> nat \<Rightarrow> nat" where
  "room cap need = (if need > cap then double_until (if cap \<noteq> 0 then cap * 2 else 4096) need else cap)"

definition json_append :: "cstring_opt \<Rightarrow> jbuf \<Rightarrow> jbuf" where
  "json_append s b =
     (let str = (case s of None \<Rightarrow> [] | Some x \<Rightarrow> x); need = length (jb_text b) + length str + 1
      in \<lparr>jb_text = jb_text b @ str, jb_cap = room (jb_cap b) need\<rparr>)"

definition esc_trace :: "char \<Rightarrow> string" where
  "esc_trace c =
     (if c = quote_char \<or> c = backslash then [backslash, c]
      else if c = newline then [backslash, CHR ''n'']
      else if c = carriage then [backslash, CHR ''r'']
      else if c = tab_char then [backslash, CHR ''t'']
      else if (of_char c :: nat) < 32 then u_escape c
      else [c])"

fun escape_loop :: "string \<Rightarrow> jbuf \<Rightarrow> jbuf" where
  "escape_loop [] b = b"
| "escape_loop (c # cs) b =
     (let out = esc_trace c; need = length (jb_text b) + length out + 1
      in escape_loop cs \<lparr>jb_text = jb_text b @ out, jb_cap = room (jb_cap b) need\<rparr>)"

definition json_escape_append :: "cstring_opt \<Rightarrow> jbuf \<Rightarrow> jbuf" where
  "json_escape_append s b = escape_loop (case s of None \<Rightarrow> [] | Some x \<Rightarrow> x) b"

text \<open>\<open>json_append_fmt\<close> of a formatted text, through its buffer of 128 bytes.\<close>

definition json_append_fmt :: "string \<Rightarrow> jbuf \<Rightarrow> jbuf" where
  "json_append_fmt s b = json_append (Some (snprintf_buf 128 s)) b"

definition quoted :: "string \<Rightarrow> string" where
  "quoted s = [quote_char] @ s @ [quote_char]"

text \<open>\<open>"key":"\<close>, the escaped value, \<open>",\<close>.\<close>

definition json_field :: "string \<Rightarrow> string \<Rightarrow> jbuf \<Rightarrow> jbuf" where
  "json_field key v b =
     json_append (Some (quote_char # '','')) (json_escape_append (Some v) (json_append (Some (quoted key @ '':'' @ [quote_char])) b))"

definition json_span :: "nat \<Rightarrow> trace_span \<Rightarrow> jbuf \<Rightarrow> jbuf" where
  "json_span si s b =
     (let b1 = (if si > 0 then json_append (Some '','') b else b);
          b2 = json_append (Some (''{'' @ quoted ''target'' @ '':'' @ quoted ''argv'' @ '','' @ quoted ''index'' @ '':'')) b1;
          b3 = json_append_fmt (show_int (span_index s)) b2;
          b4 = json_append (Some ('','' @ quoted ''role'' @ '':'' @ [quote_char])) b3
      in json_append (Some (quote_char # ''}'')) (json_escape_append (Some (span_role s)) b4))"

fun json_spans :: "nat \<Rightarrow> trace_span list \<Rightarrow> jbuf \<Rightarrow> jbuf" where
  "json_spans si [] b = b"
| "json_spans si (s # ss) b = json_spans (Suc si) ss (json_span si s b)"

definition json_event :: "nat \<Rightarrow> trace_event \<Rightarrow> jbuf \<Rightarrow> jbuf" where
  "json_event i e b =
     (let b1 = (if i > 0 then json_append (Some '','') b else b);
          b2 = json_append (Some ''{'') b1;
          b3 = json_append_fmt (quoted ''seq'' @ '':'' @ show_nat (unat (ev_seq e)) @ '','') b2;
          b4 = json_field ''detail'' (ev_detail e) (json_field ''name'' (ev_name e)
                 (json_field ''phase'' (phase_str (ev_phase e)) (json_field ''layer'' (layer_str (ev_layer e)) b3)));
          b5 = json_append (Some ''],'') (json_spans 0 (ev_spans e) (json_append (Some (quoted ''spans'' @ '':['')) b4));
          b6 = (if ev_code e < 0 then json_append (Some (quoted ''code'' @ '':null,'')) b5
                else json_append_fmt (quoted ''code'' @ '':'' @ show_int (ev_code e) @ '','') b5);
          b7 = (if ev_decision e \<noteq> [] then json_field ''decision'' (ev_decision e) b6
                else json_append (Some (quoted ''decision'' @ '':null,'')) b6);
          b8 = json_append (Some (quoted ''shortCircuit'' @ (if ev_short_circuit e then '':true'' else '':false''))) b7
      in json_append (Some ''}'') b8)"

text \<open>The loop \<open>for (i = 0; i < g_count; i++)\<close>, with the number of iterations left.\<close>

fun events_loop :: "trace \<Rightarrow> nat \<Rightarrow> nat \<Rightarrow> nat \<Rightarrow> jbuf \<Rightarrow> jbuf" where
  "events_loop t start i 0 b = b"
| "events_loop t start i (Suc n) b =
     (let idx = (if g_count t = PD_TRACE_RING then (start + i) mod PD_TRACE_RING else i); e = g_ring t ! idx
      in events_loop t start (Suc i) n (if \<not> ev_used e then b else json_event i e b))"

definition pd_trace_to_json :: "trace \<Rightarrow> string" where
  "pd_trace_to_json t =
     (let b0 = json_append (Some ''['') \<lparr>jb_text = [], jb_cap = 0\<rparr>;
          start = (if g_count t = PD_TRACE_RING then g_head t else 0)
      in jb_text (json_append (Some '']'') (events_loop t start 0 (g_count t) b0)))"

section \<open>Functions for packs\<close>

text \<open>Janet values as the four functions tell them apart; \<open>None\<close> is a Janet panic (wrong arity, not an integer).\<close>

datatype janet_arg = ArgNil | ArgString string | ArgInt int | ArgBool bool | ArgOther

definition layer_from_kw :: "string \<Rightarrow> trace_layer" where
  "layer_from_kw s = (if s = ''pack'' then LAYER_PACK else if s = ''capnp'' then LAYER_CAPNP else LAYER_HOST)"

definition phase_from_kw :: "string \<Rightarrow> trace_phase" where
  "phase_from_kw s =
     (if s = ''gate'' then PHASE_GATE else if s = ''match'' then PHASE_MATCH else if s = ''skip'' then PHASE_SKIP
      else if s = ''decide'' then PHASE_DECIDE else if s = ''error'' then PHASE_ERROR else PHASE_ENTER)"

definition janet_cstr :: "janet_arg \<Rightarrow> string" where
  "janet_cstr v = (case v of ArgString s \<Rightarrow> cstr s | _ \<Rightarrow> [])"

definition janet_getinteger :: "janet_arg \<Rightarrow> int option" where
  "janet_getinteger v = (case v of ArgInt n \<Rightarrow> Some n | _ \<Rightarrow> None)"

definition janet_truthy :: "janet_arg \<Rightarrow> bool" where
  "janet_truthy v = (case v of ArgNil \<Rightarrow> False | ArgBool b \<Rightarrow> b | _ \<Rightarrow> True)"

text \<open>An optional argument: absent and nil are the same.\<close>

definition opt_arg :: "janet_arg list \<Rightarrow> nat \<Rightarrow> janet_arg option" where
  "opt_arg argv i = (if i < length argv \<and> argv ! i \<noteq> ArgNil then Some (argv ! i) else None)"

definition cfun_trace_event :: "janet_arg list \<Rightarrow> trace \<Rightarrow> trace option" where
  "cfun_trace_event argv t =
     (if length argv < 3 \<or> length argv > 7 then None
      else
        let detail = (if length argv > 3 then janet_cstr (argv ! 3) else []);
            decision = map_option janet_cstr (opt_arg argv 5);
            sc = (case opt_arg argv 6 of None \<Rightarrow> False | Some v \<Rightarrow> janet_truthy v)
        in case (case opt_arg argv 4 of None \<Rightarrow> Some (-1) | Some v \<Rightarrow> janet_getinteger v) of
             None \<Rightarrow> None
           | Some code \<Rightarrow>
               Some (pd_trace_event (layer_from_kw (janet_cstr (argv ! 0))) (phase_from_kw (janet_cstr (argv ! 1)))
                       (Some (janet_cstr (argv ! 2))) (Some detail) code decision sc t))"

definition cfun_trace_begin :: "janet_arg list \<Rightarrow> trace \<Rightarrow> trace option" where
  "cfun_trace_begin argv t =
     (if length argv < 3 \<or> length argv > 4 then None
      else
        let detail = (if length argv > 3 then janet_cstr (argv ! 3) else [])
        in Some (pd_trace_begin (layer_from_kw (janet_cstr (argv ! 0))) (phase_from_kw (janet_cstr (argv ! 1)))
                   (Some (janet_cstr (argv ! 2))) (Some detail) t))"

definition cfun_trace_span_argv :: "janet_arg list \<Rightarrow> trace \<Rightarrow> trace option" where
  "cfun_trace_span_argv argv t =
     (if length argv \<noteq> 2 then None
      else map_option (\<lambda>n. pd_trace_span_argv n (Some (janet_cstr (argv ! 1))) t) (janet_getinteger (argv ! 0)))"

definition cfun_trace_commit :: "janet_arg list \<Rightarrow> trace \<Rightarrow> trace option" where
  "cfun_trace_commit argv t =
     (if length argv > 3 then None
      else
        (case (case opt_arg argv 0 of None \<Rightarrow> Some t | Some v \<Rightarrow> map_option (\<lambda>n. pd_trace_set_code n t) (janet_getinteger v)) of
           None \<Rightarrow> None
         | Some t1 \<Rightarrow>
             let t2 = (case opt_arg argv 1 of None \<Rightarrow> t1 | Some v \<Rightarrow> pd_trace_set_decision (Some (janet_cstr v)) t1);
                 t3 = (case opt_arg argv 2 of None \<Rightarrow> t2 | Some v \<Rightarrow> pd_trace_set_short_circuit (janet_truthy v) t2)
             in Some (pd_trace_commit t3)))"

section \<open>The ring is a bounded log\<close>

definition ring_index :: "trace \<Rightarrow> nat \<Rightarrow> nat" where
  "ring_index t i = (if g_count t = PD_TRACE_RING then (g_head t + i) mod PD_TRACE_RING else i)"

text \<open>The events of the ring, oldest first.\<close>

definition log_of :: "trace \<Rightarrow> trace_event list" where
  "log_of t = map (\<lambda>i. g_ring t ! ring_index t i) [0..<g_count t]"

definition ring_ok :: "trace \<Rightarrow> bool" where
  "ring_ok t \<longleftrightarrow>
     length (g_ring t) = PD_TRACE_RING \<and> g_head t < PD_TRACE_RING \<and> g_count t \<le> PD_TRACE_RING
     \<and> (g_count t < PD_TRACE_RING \<longrightarrow> g_head t = g_count t) \<and> (\<forall>e \<in> set (log_of t). ev_used e)"

definition last_n :: "nat \<Rightarrow> 'a list \<Rightarrow> 'a list" where
  "last_n n xs = drop (length xs - n) xs"

lemma length_log_of [simp]: "length (log_of t) = g_count t"
  by (simp add: log_of_def)

lemma log_of_cong:
  "g_ring t' = g_ring t \<Longrightarrow> g_head t' = g_head t \<Longrightarrow> g_count t' = g_count t \<Longrightarrow> log_of t' = log_of t \<and> ring_ok t' = ring_ok t"
proof -
  assume a: "g_ring t' = g_ring t" "g_head t' = g_head t" "g_count t' = g_count t"
  then have "log_of t' = log_of t" by (simp add: log_of_def ring_index_def cong: map_cong)
  with a show ?thesis by (simp add: ring_ok_def)
qed

lemma last_n_short: "length xs \<le> n \<Longrightarrow> last_n n xs = xs"
  by (simp add: last_n_def)

lemma last_n_snoc: "last_n n (last_n n xs @ [x]) = last_n n (xs @ [x])"
  by (cases "length xs \<le> n") (auto simp: last_n_def Suc_diff_le)

lemma ring_push_log:
  assumes ok: "ring_ok t"
  shows "log_of (ring_push e t) = last_n PD_TRACE_RING (log_of t @ [e\<lparr>ev_used := True\<rparr>])"
proof (cases "g_count t < PD_TRACE_RING")
  case True
  have len: "length (g_ring t) = PD_TRACE_RING" and hd: "g_head t = g_count t" using ok True by (auto simp: ring_ok_def)
  have idx: "ring_index (ring_push e t) i = i" if "i < Suc (g_count t)" for i
    using that True hd by (auto simp: ring_index_def ring_push_def PD_TRACE_RING_def)
  have cnt: "g_count (ring_push e t) = Suc (g_count t)" using True by (simp add: ring_push_def)
  have "log_of (ring_push e t) = log_of t @ [e\<lparr>ev_used := True\<rparr>]"
  proof (rule nth_equalityI)
    show "length (log_of (ring_push e t)) = length (log_of t @ [e\<lparr>ev_used := True\<rparr>])" using cnt by simp
    fix i assume "i < length (log_of (ring_push e t))"
    then have i: "i < Suc (g_count t)" using cnt by simp
    have "log_of (ring_push e t) ! i = (g_ring t)[g_count t := e\<lparr>ev_used := True\<rparr>] ! i"
      using i cnt idx [OF i] hd by (simp add: log_of_def ring_push_def del: upt_Suc)
    also have "\<dots> = (log_of t @ [e\<lparr>ev_used := True\<rparr>]) ! i"
      using i True len by (auto simp: nth_append log_of_def ring_index_def nth_list_update less_Suc_eq)
    finally show "log_of (ring_push e t) ! i = (log_of t @ [e\<lparr>ev_used := True\<rparr>]) ! i" .
  qed
  then show ?thesis using True by (simp add: last_n_short)
next
  case False
  then have c: "g_count t = PD_TRACE_RING" using ok by (simp add: ring_ok_def)
  have len: "length (g_ring t) = PD_TRACE_RING" and h: "g_head t < PD_TRACE_RING" using ok by (auto simp: ring_ok_def)
  have rhs: "last_n PD_TRACE_RING (log_of t @ [e\<lparr>ev_used := True\<rparr>]) = tl (log_of t) @ [e\<lparr>ev_used := True\<rparr>]"
    using c by (cases "log_of t") (auto simp: last_n_def PD_TRACE_RING_def dest: arg_cong [where f = length])
  show ?thesis unfolding rhs
  proof (rule nth_equalityI)
    show "length (log_of (ring_push e t)) = length (tl (log_of t) @ [e\<lparr>ev_used := True\<rparr>])"
      using c by (simp add: ring_push_def PD_TRACE_RING_def)
    fix i assume "i < length (log_of (ring_push e t))"
    then have i: "i < PD_TRACE_RING" using c by (simp add: ring_push_def)
    have new: "log_of (ring_push e t) ! i = (g_ring t)[g_head t := e\<lparr>ev_used := True\<rparr>] ! ((g_head t + Suc i) mod PD_TRACE_RING)"
    proof -
      have "(Suc (g_head t) mod PD_TRACE_RING + i) mod PD_TRACE_RING = (g_head t + Suc i) mod PD_TRACE_RING"
        by (metis add_Suc_shift mod_add_left_eq)
      then show ?thesis using i c by (simp add: log_of_def ring_push_def ring_index_def)
    qed
    show "log_of (ring_push e t) ! i = (tl (log_of t) @ [e\<lparr>ev_used := True\<rparr>]) ! i"
    proof (cases "Suc i < PD_TRACE_RING")
      case True
      have ne: "(g_head t + Suc i) mod PD_TRACE_RING \<noteq> g_head t"
      proof
        assume "(g_head t + Suc i) mod PD_TRACE_RING = g_head t"
        then have "(g_head t + Suc i) mod PD_TRACE_RING = (g_head t + 0) mod PD_TRACE_RING" using h by simp
        then show False using True h by (auto simp: PD_TRACE_RING_def mod_if split: if_splits)
      qed
      have "log_of t ! Suc i = g_ring t ! ((g_head t + Suc i) mod PD_TRACE_RING)"
        using True c by (simp add: log_of_def ring_index_def del: upt_Suc)
      then show ?thesis using True new ne c by (simp add: nth_append nth_tl)
    next
      case False
      then have "Suc i = PD_TRACE_RING" using i by simp
      then show ?thesis using new h len c by (simp add: nth_append)
    qed
  qed
qed

lemma ring_push_ok:
  assumes ok: "ring_ok t"
  shows "ring_ok (ring_push e t)"
proof -
  have "\<forall>x \<in> set (log_of (ring_push e t)). ev_used x"
    using ok ring_push_log [OF ok, of e] set_drop_subset by (fastforce simp: last_n_def ring_ok_def)
  then show ?thesis using ok by (auto simp: ring_ok_def ring_push_def PD_TRACE_RING_def)
qed

section \<open>The specification of the trace\<close>

text \<open>The calls on a trace, and an unbounded log with at most one open event.\<close>

datatype trace_op =
    OpBegin trace_layer trace_phase cstring_opt cstring_opt
  | OpSpan int cstring_opt
  | OpCode int
  | OpDecision cstring_opt
  | OpShort bool
  | OpCommit
  | OpEvent trace_layer trace_phase cstring_opt cstring_opt int cstring_opt bool
  | OpClear

fun apply_op :: "trace_op \<Rightarrow> trace \<Rightarrow> trace" where
  "apply_op (OpBegin l p n d) t = pd_trace_begin l p n d t"
| "apply_op (OpSpan i r) t = pd_trace_span_argv i r t"
| "apply_op (OpCode c) t = pd_trace_set_code c t"
| "apply_op (OpDecision d) t = pd_trace_set_decision d t"
| "apply_op (OpShort b) t = pd_trace_set_short_circuit b t"
| "apply_op OpCommit t = pd_trace_commit t"
| "apply_op (OpEvent l p n d c dec sc) t = pd_trace_event l p n d c dec sc t"
| "apply_op OpClear t = pd_trace_clear"

record log_spec =
  all_events :: "trace_event list"
  open_event :: "trace_event option"
  begun :: nat

definition spec_start :: log_spec where
  "spec_start = \<lparr>all_events = [], open_event = None, begun = 0\<rparr>"

definition new_event :: "nat \<Rightarrow> trace_layer \<Rightarrow> trace_phase \<Rightarrow> cstring_opt \<Rightarrow> cstring_opt \<Rightarrow> trace_event" where
  "new_event k l p n d =
     \<lparr>ev_seq = of_nat k, ev_layer = l, ev_phase = p, ev_name = copy_trunc 128 n, ev_detail = copy_trunc 256 d, ev_spans = [],
      ev_code = -1, ev_decision = [], ev_short_circuit = False, ev_used = False\<rparr>"

definition add_span :: "int \<Rightarrow> cstring_opt \<Rightarrow> trace_event \<Rightarrow> trace_event" where
  "add_span i r e =
     (if length (ev_spans e) < 8
      then e\<lparr>ev_spans := ev_spans e @ [\<lparr>span_index = i, span_role = copy_trunc 32 (Some (case r of None \<Rightarrow> [] | Some s \<Rightarrow> s))\<rparr>]\<rparr>
      else e)"

fun spec_op :: "trace_op \<Rightarrow> log_spec \<Rightarrow> log_spec" where
  "spec_op (OpBegin l p n d) s = s\<lparr>open_event := Some (new_event (Suc (begun s)) l p n d), begun := Suc (begun s)\<rparr>"
| "spec_op (OpSpan i r) s = s\<lparr>open_event := map_option (add_span i r) (open_event s)\<rparr>"
| "spec_op (OpCode c) s = s\<lparr>open_event := map_option (ev_code_update (\<lambda>_. c)) (open_event s)\<rparr>"
| "spec_op (OpDecision d) s = s\<lparr>open_event := map_option (ev_decision_update (\<lambda>_. copy_trunc 16 d)) (open_event s)\<rparr>"
| "spec_op (OpShort b) s = s\<lparr>open_event := map_option (ev_short_circuit_update (\<lambda>_. b)) (open_event s)\<rparr>"
| "spec_op OpCommit s =
     (case open_event s of
        None \<Rightarrow> s
      | Some e \<Rightarrow> s\<lparr>all_events := all_events s @ [e\<lparr>ev_used := True\<rparr>], open_event := None\<rparr>)"
| "spec_op (OpEvent l p n d c dec sc) s =
     s\<lparr>all_events := all_events s @
         [(new_event (Suc (begun s)) l p n d)\<lparr>ev_code := (if c \<ge> 0 then c else -1),
            ev_decision := (if nonempty dec then copy_trunc 16 dec else []), ev_short_circuit := sc, ev_used := True\<rparr>],
       open_event := None, begun := Suc (begun s)\<rparr>"
| "spec_op OpClear s = spec_start"

text \<open>The abstraction relation.\<close>

definition trace_abs :: "trace \<Rightarrow> log_spec \<Rightarrow> bool" where
  "trace_abs t s \<longleftrightarrow>
     ring_ok t \<and> log_of t = last_n PD_TRACE_RING (all_events s) \<and> g_seq t = of_nat (begun s)
     \<and> (if g_pending_open t then open_event s = Some (g_pending t) else open_event s = None)"

lemma trace_abs_clear: "trace_abs pd_trace_clear spec_start"
  by (simp add: trace_abs_def pd_trace_clear_def spec_start_def ring_ok_def log_of_def last_n_def PD_TRACE_RING_def)

text \<open>Steps that leave the ring alone.\<close>

lemma trace_abs_pending:
  assumes "trace_abs t s" "g_ring t' = g_ring t" "g_head t' = g_head t" "g_count t' = g_count t"
    "all_events s' = all_events s" "g_seq t' = of_nat (begun s')"
    "if g_pending_open t' then open_event s' = Some (g_pending t') else open_event s' = None"
  shows "trace_abs t' s'"
  using assms log_of_cong [OF assms(2-4)] by (simp add: trace_abs_def)

lemma trace_abs_commit:
  assumes "trace_abs t s"
  shows "trace_abs (pd_trace_commit t) (spec_op OpCommit s)"
proof (cases "g_pending_open t")
  case False
  then show ?thesis using assms by (simp add: pd_trace_commit_def trace_abs_def)
next
  case True
  let ?p = "ring_push (g_pending t) t"
  have ok: "ring_ok t" and l: "log_of t = last_n PD_TRACE_RING (all_events s)" and q: "g_seq t = of_nat (begun s)"
    and o: "open_event s = Some (g_pending t)" using assms True by (auto simp: trace_abs_def)
  have c: "log_of (pd_trace_commit t) = log_of ?p \<and> ring_ok (pd_trace_commit t) = ring_ok ?p"
    using True by (intro log_of_cong) (simp_all add: pd_trace_commit_def)
  have "log_of ?p = last_n PD_TRACE_RING (all_events s @ [(g_pending t)\<lparr>ev_used := True\<rparr>])"
    using ring_push_log [OF ok] l last_n_snoc by metis
  then show ?thesis
    using c ring_push_ok [OF ok] o q True by (simp add: trace_abs_def pd_trace_commit_def ring_push_def)
qed

lemma event_as_steps:
  "pd_trace_event l p n d c dec sc t =
     apply_op OpCommit (apply_op (OpShort sc)
       ((if nonempty dec then apply_op (OpDecision dec) else (\<lambda>x. x)) ((if c \<ge> 0 then apply_op (OpCode c) else (\<lambda>x. x)) (apply_op (OpBegin l p n d) t))))"
  "spec_op (OpEvent l p n d c dec sc) s =
     spec_op OpCommit (spec_op (OpShort sc)
       ((if nonempty dec then spec_op (OpDecision dec) else (\<lambda>x. x)) ((if c \<ge> 0 then spec_op (OpCode c) else (\<lambda>x. x)) (spec_op (OpBegin l p n d) s))))"
  by (simp_all add: pd_trace_event_def Let_def new_event_def)

lemma trace_abs_basic:
  assumes "trace_abs t s" "\<forall>l p n d c dec sc. op \<noteq> OpEvent l p n d c dec sc"
  shows "trace_abs (apply_op op t) (spec_op op s)"
proof (cases op)
  case (OpBegin l p n d)
  show ?thesis unfolding OpBegin
    by (rule trace_abs_pending [OF assms(1)])
      (use assms(1) in \<open>simp_all add: pd_trace_begin_def trace_abs_def new_event_def event_reset_def zero_event_def PD_TRACE_NAME_MAX_def PD_TRACE_DETAIL_MAX_def\<close>)
next
  case (OpSpan i r)
  show ?thesis unfolding OpSpan
    by (rule trace_abs_pending [OF assms(1)])
      (use assms(1) in \<open>auto simp: pd_trace_span_argv_def trace_abs_def add_span_def PD_TRACE_SPANS_MAX_def PD_TRACE_ROLE_MAX_def split: option.splits if_splits\<close>)
next
  case OpCommit
  then show ?thesis using trace_abs_commit [OF assms(1)] by simp
next
  case (OpEvent l p n d c dec sc)
  then show ?thesis using assms(2) by blast
next
  case OpClear
  then show ?thesis using trace_abs_clear by simp
next
  case (OpCode c)
  show ?thesis unfolding OpCode
    by (rule trace_abs_pending [OF assms(1)]) (use assms(1) in \<open>auto simp: pd_trace_set_code_def trace_abs_def split: if_splits\<close>)
next
  case (OpDecision d)
  show ?thesis unfolding OpDecision
    by (rule trace_abs_pending [OF assms(1)])
      (use assms(1) in \<open>auto simp: pd_trace_set_decision_def trace_abs_def PD_TRACE_DECISION_MAX_def split: if_splits\<close>)
next
  case (OpShort b)
  show ?thesis unfolding OpShort
    by (rule trace_abs_pending [OF assms(1)]) (use assms(1) in \<open>auto simp: pd_trace_set_short_circuit_def trace_abs_def split: if_splits\<close>)
qed

lemma trace_abs_step: "trace_abs t s \<Longrightarrow> trace_abs (apply_op op t) (spec_op op s)"
proof (cases op)
  case (OpEvent l p n d c dec sc)
  assume a: "trace_abs t s"
  have "trace_abs (pd_trace_event l p n d c dec sc t) (spec_op (OpEvent l p n d c dec sc) s)"
    unfolding event_as_steps using a by (auto intro!: trace_abs_basic simp del: apply_op.simps spec_op.simps)
  then show ?thesis using OpEvent by simp
qed (auto intro!: trace_abs_basic simp del: apply_op.simps spec_op.simps)

lemma trace_abs_run: "trace_abs t s \<Longrightarrow> trace_abs (fold apply_op ops t) (fold spec_op ops s)"
  by (induction ops arbitrary: t s) (auto intro: trace_abs_step simp del: apply_op.simps spec_op.simps)


section \<open>The exported text\<close>

interpretation trace_esc: json_escaper esc_trace
proof
  fix c :: char and r :: string
  show "esc_trace c \<noteq> [] \<and> hd (esc_trace c) \<noteq> quote_char"
    using u_escape_start by (auto simp: esc_trace_def json_chars)
  show "unesc1 (esc_trace c @ r) = Some (c, r)"
    using unesc1_u_escape by (auto simp: esc_trace_def json_chars)
  show "32 \<le> (of_char d :: nat)" if "d \<in> set (esc_trace c)" for d
    using that u_escape_printable by (auto simp: esc_trace_def json_chars split: if_splits)
qed

text \<open>The text and its NUL fit the buffer.\<close>

definition fits :: "jbuf \<Rightarrow> bool" where
  "fits b \<longleftrightarrow> length (jb_text b) < jb_cap b \<or> jb_text b = [] \<and> jb_cap b = 0"

lemma double_until_ge: "0 < n \<Longrightarrow> need \<le> double_until n need"
proof (induction n need rule: double_until.induct)
  case (1 n need)
  then show ?case by (subst double_until.simps) auto
qed

lemma room_ge: "need \<le> room cap need"
  using double_until_ge [of 4096 need] double_until_ge [of "cap * 2" need] by (auto simp: room_def)

named_theorems json_out "text and capacity of the buffer after an append"

lemma json_append_out [json_out]: "jb_text (json_append (Some s) b) = jb_text b @ s" "fits (json_append (Some s) b)"
  using room_ge [of "length (jb_text b) + length s + 1" "jb_cap b"] by (simp_all add: json_append_def fits_def Let_def)

definition esc_text :: "string \<Rightarrow> string" where
  "esc_text s = concat (map esc_trace s)"

lemma escape_loop_out: "jb_text (escape_loop s b) = jb_text b @ esc_text s \<and> (fits b \<longrightarrow> fits (escape_loop s b))"
proof (induction s arbitrary: b)
  case Nil
  then show ?case by (simp add: esc_text_def)
next
  case (Cons c s)
  let ?b = "\<lparr>jb_text = jb_text b @ esc_trace c, jb_cap = room (jb_cap b) (length (jb_text b) + length (esc_trace c) + 1)\<rparr>"
  have "fits ?b" using room_ge [of "length (jb_text b) + length (esc_trace c) + 1" "jb_cap b"] by (simp add: fits_def)
  then show ?case using Cons.IH [of ?b] by (simp add: esc_text_def Let_def)
qed

lemma json_escape_append_out [json_out]:
  "jb_text (json_escape_append (Some s) b) = jb_text b @ esc_text s" "fits b \<Longrightarrow> fits (json_escape_append (Some s) b)"
  using escape_loop_out by (simp_all add: json_escape_append_def)

lemma json_append_fmt_out [json_out]: "jb_text (json_append_fmt s b) = jb_text b @ snprintf_buf 128 s" "fits (json_append_fmt s b)"
  by (simp_all add: json_append_fmt_def json_out)

definition field_text :: "string \<Rightarrow> string \<Rightarrow> string" where
  "field_text k v = quoted k @ '':'' @ quoted (esc_text v) @ '',''"

lemma json_field_out [json_out]: "jb_text (json_field k v b) = jb_text b @ field_text k v" "fits (json_field k v b)"
  by (simp_all add: json_field_def json_out field_text_def quoted_def)

definition span_text :: "trace_span \<Rightarrow> string" where
  "span_text s =
     ''{'' @ quoted ''target'' @ '':'' @ quoted ''argv'' @ '','' @ quoted ''index'' @ '':'' @ show_int (span_index s) @ '',''
     @ quoted ''role'' @ '':'' @ quoted (esc_text (span_role s)) @ ''}''"

fun comma_join :: "string list \<Rightarrow> string" where
  "comma_join [] = []"
| "comma_join [x] = x"
| "comma_join (x # xs) = x @ '','' @ comma_join xs"

text \<open>The numbers of an event are 32-bit, so they fit the buffer of \<open>json_append_fmt\<close>.\<close>

definition int32 :: "int \<Rightarrow> bool" where
  "int32 n \<longleftrightarrow> - 2147483648 \<le> n \<and> n \<le> 2147483647"

definition event_ok :: "trace_event \<Rightarrow> bool" where
  "event_ok e \<longleftrightarrow> int32 (ev_code e) \<and> (\<forall>s \<in> set (ev_spans e). int32 (span_index s))"

lemma show_nat_length: "n < 10 ^ k \<Longrightarrow> 0 < k \<Longrightarrow> length (show_nat n) \<le> k"
proof (induction k arbitrary: n)
  case (Suc k)
  show ?case
  proof (cases "n < 10")
    case True
    then show ?thesis by (subst show_nat.simps) simp
  next
    case False
    then have k: "0 < k" using Suc.prems(1) by (cases k) auto
    have "n div 10 < 10 ^ k" using Suc.prems(1) by (simp add: less_mult_imp_div_less mult.commute)
    then show ?thesis using Suc.IH [of "n div 10"] k False by (subst show_nat.simps) simp
  qed
qed simp

lemma show_int_length: "int32 n \<Longrightarrow> length (show_int n) \<le> 11"
proof -
  assume "int32 n"
  then have "nat n < 10 ^ 10" "nat (- n) < 10 ^ 10" by (auto simp: int32_def)
  then have "length (show_nat (nat n)) \<le> 10" "length (show_nat (nat (- n))) \<le> 10" by (simp_all add: show_nat_length)
  then show ?thesis by (simp add: show_int_def)
qed

lemma fmt_id: "length s < 128 \<Longrightarrow> snprintf_buf 128 s = s"
  by (simp add: snprintf_buf_def)

lemma json_span_out:
  "int32 (span_index s) \<Longrightarrow> jb_text (json_span i s b) = jb_text b @ (if i > 0 then '','' else []) @ span_text s"
  "fits (json_span i s b)"
  using show_int_length [of "span_index s"] by (simp_all add: json_span_def Let_def json_out fmt_id span_text_def quoted_def)

text \<open>Elements separated by commas, with a comma before the first when it is not the first of the list.\<close>

definition tail_join :: "bool \<Rightarrow> string list \<Rightarrow> string" where
  "tail_join c xs = (if c \<and> xs \<noteq> [] then '','' else []) @ comma_join xs"

lemma tail_join_Cons: "tail_join c (x # xs) = (if c then '','' else []) @ x @ tail_join True xs"
  by (cases xs) (auto simp: tail_join_def)

lemma tail_join_Nil [simp]: "tail_join c [] = []"
  by (simp add: tail_join_def)

lemma json_spans_out:
  "\<forall>s \<in> set ss. int32 (span_index s) \<Longrightarrow>
   jb_text (json_spans i ss b) = jb_text b @ tail_join (i > 0) (map span_text ss) \<and> (fits b \<longrightarrow> fits (json_spans i ss b))"
proof (induction ss arbitrary: i b)
  case (Cons s ss)
  then show ?case using Cons.IH [of "Suc i" "json_span i s b"] json_span_out(1) [of s i b] json_span_out(2) [of i s b] by (simp add: tail_join_Cons)
qed simp

definition event_text :: "trace_event \<Rightarrow> string" where
  "event_text e =
     ''{'' @ quoted ''seq'' @ '':'' @ show_nat (unat (ev_seq e)) @ '','' @ field_text ''layer'' (layer_str (ev_layer e))
     @ field_text ''phase'' (phase_str (ev_phase e)) @ field_text ''name'' (ev_name e) @ field_text ''detail'' (ev_detail e)
     @ quoted ''spans'' @ '':['' @ comma_join (map span_text (ev_spans e)) @ ''],''
     @ quoted ''code'' @ '':'' @ (if ev_code e < 0 then ''null'' else show_int (ev_code e)) @ '',''
     @ (if ev_decision e = [] then quoted ''decision'' @ '':null,'' else field_text ''decision'' (ev_decision e))
     @ quoted ''shortCircuit'' @ (if ev_short_circuit e then '':true'' else '':false'') @ ''}''"

lemma json_event_out:
  assumes "event_ok e"
  shows "jb_text (json_event i e b) = jb_text b @ (if i > 0 then '','' else []) @ event_text e" "fits (json_event i e b)"
proof -
  have "unat (ev_seq e) < 2 ^ 32" using unsigned_less [of "ev_seq e"] by simp
  then have "unat (ev_seq e) < 10 ^ 10" by simp
  then have s: "length (show_nat (unat (ev_seq e))) \<le> 10" by (intro show_nat_length) simp_all
  have c: "length (show_int (ev_code e)) \<le> 11" using assms show_int_length by (simp add: event_ok_def)
  note sp = json_spans_out [of "ev_spans e" 0]
  have sp': "\<forall>s \<in> set (ev_spans e). int32 (span_index s)" using assms by (simp add: event_ok_def)
  show "jb_text (json_event i e b) = jb_text b @ (if i > 0 then '','' else []) @ event_text e"
    using s c sp [OF sp']
    by (simp add: json_event_def Let_def json_out fmt_id event_text_def quoted_def tail_join_def)
  show "fits (json_event i e b)" by (simp add: json_event_def Let_def json_out)
qed

lemma events_loop_out:
  assumes "\<forall>k < g_count t. event_ok (g_ring t ! ring_index t k) \<and> ev_used (g_ring t ! ring_index t k)"
    and "start = (if g_count t = PD_TRACE_RING then g_head t else 0)" "i + n = g_count t"
  shows "jb_text (events_loop t start i n b) = jb_text b @ tail_join (i > 0) (map (\<lambda>k. event_text (g_ring t ! ring_index t k)) [i..<g_count t])
    \<and> (fits b \<longrightarrow> fits (events_loop t start i n b))"
  using assms(3)
proof (induction n arbitrary: i b)
  case 0
  then show ?case by simp
next
  case (Suc n)
  let ?e = "g_ring t ! ring_index t i"
  have idx: "(if g_count t = PD_TRACE_RING then (start + i) mod PD_TRACE_RING else i) = ring_index t i"
    using assms(2) by (simp add: ring_index_def)
  have e: "event_ok ?e" "ev_used ?e" using assms(1) Suc.prems by auto
  have up: "[i..<g_count t] = i # [Suc i..<g_count t]" using Suc.prems by (simp add: upt_conv_Cons)
  show ?case
    using Suc.IH [of "Suc i" "json_event i ?e b"] Suc.prems json_event_out [OF e(1), of i b] e(2)
    by (simp add: Let_def idx up tail_join_Cons)
qed

lemma to_json_text:
  assumes ok: "ring_ok t" and ev: "\<forall>e \<in> set (log_of t). event_ok e"
  shows "pd_trace_to_json t = ''['' @ comma_join (map event_text (log_of t)) @ '']''"
proof -
  have u: "\<forall>e \<in> set (log_of t). ev_used e" using ok by (simp add: ring_ok_def)
  have "g_ring t ! ring_index t k \<in> set (log_of t)" if "k < g_count t" for k using that by (auto simp: log_of_def)
  then have all: "\<forall>k < g_count t. event_ok (g_ring t ! ring_index t k) \<and> ev_used (g_ring t ! ring_index t k)" using ev u by blast
  show ?thesis
    using events_loop_out [OF all refl, of 0 "g_count t"]
    by (simp add: pd_trace_to_json_def Let_def json_out log_of_def tail_join_def comp_def)
qed

section \<open>Properties\<close>

text \<open>C36: The trace keeps the last 64 events. After any sequence of calls on a cleared trace the ring holds, oldest
  first, exactly the last 64 events that were committed since the last clear, each as it was built (texts cut to
  their buffers, at most eight spans, an event begun but not committed dropped by the next begin), numbered by a
  32-bit counter of the begins; and an open event is the one under construction.\<close>

theorem trace_keeps_last:
  "let t = fold apply_op ops pd_trace_clear; s = fold spec_op ops spec_start
   in log_of t = last_n 64 (all_events s) \<and> length (g_ring t) = 64 \<and> g_head t < 64
      \<and> g_seq t = of_nat (begun s)
      \<and> (if g_pending_open t then open_event s = Some (g_pending t) else open_event s = None)"
  using trace_abs_run [OF trace_abs_clear, of ops] by (simp add: Let_def trace_abs_def ring_ok_def PD_TRACE_RING_def)

text \<open>The export is the JSON array of the logged events. For a ring as the recording calls leave it the exported
  text is the array of the event objects, oldest first; no number is cut by the format buffer; every append
  leaves room for the text and its NUL; and a JSON reader gets the name and the other texts of an event
  back byte for byte.\<close>

lemma trace_export:
  assumes ok: "ring_ok t" and ev: "\<forall>e \<in> set (log_of t). event_ok e"
  shows "pd_trace_to_json t = ''['' @ comma_join (map event_text (log_of t)) @ '']''
    \<and> (\<forall>s b. fits (json_append (Some s) b) \<and> (fits b \<longrightarrow> fits (json_escape_append (Some s) b)))
    \<and> (\<forall>v r. NUL \<notin> set v \<longrightarrow> json_body (esc_text v @ quote_char # r) = Some (v, r))"
  using to_json_text [OF assms] json_out trace_esc.json_body_esc by (auto simp: esc_text_def)

definition demo_trace :: trace where
  "demo_trace = apply_op (OpEvent LAYER_HOST PHASE_GATE (Some ''a'') None 3 (Some ''deny'') True) pd_trace_clear"

lemma trace_export_witness:
  "pd_trace_to_json demo_trace = ''['' @ event_text ((new_event 1 LAYER_HOST PHASE_GATE (Some ''a'') None)
     \<lparr>ev_code := 3, ev_decision := ''deny'', ev_short_circuit := True, ev_used := True\<rparr>) @ '']''"
proof -
  let ?e = "(new_event 1 LAYER_HOST PHASE_GATE (Some ''a'') None)\<lparr>ev_code := 3, ev_decision := ''deny'', ev_short_circuit := True, ev_used := True\<rparr>"
  have "trace_abs demo_trace (spec_op (OpEvent LAYER_HOST PHASE_GATE (Some ''a'') None 3 (Some ''deny'') True) spec_start)"
    unfolding demo_trace_def by (rule trace_abs_step [OF trace_abs_clear])
  moreover have "copy_trunc 16 (Some ''deny'') = ''deny''" by code_simp
  ultimately have a: "ring_ok demo_trace" "log_of demo_trace = [?e]"
    by (simp_all add: trace_abs_def spec_start_def last_n_def nonempty_def PD_TRACE_RING_def)
  have "\<forall>e \<in> set (log_of demo_trace). event_ok e" unfolding a(2) by (simp add: event_ok_def int32_def new_event_def)
  from trace_export [OF a(1) this] show ?thesis unfolding a(2) by simp
qed


end
