(* ===== verification/Traced.thy ===== *)
theory Traced
  imports Bindings Trace
begin

text \<open>
  The build of the playground, with \<open>PHRONESIS_TRACE\<close>: which trace calls \<open>policy.c\<close>, \<open>capnp_api.c\<close> and
  \<open>policy_janet.c\<close> make, in their order, and what \<open>playground/wasm/embind_api.c\<close> does with the ring. The calls do
  not touch any other state, so each function has beside its model a function \<open>..._events\<close> that
  lists its trace calls. Packs may record events too, through the functions that \<open>policy_trace.c\<close>
  registers with the machine: what a file or an entry records when it runs is a parameter. The
  registered names are others than the three that the seal removes, so the registration is part of \<open>janet_register\<close>.
\<close>

record ('e, 'f) recorder =
  run_events :: "'e \<Rightarrow> bytes \<Rightarrow> string \<Rightarrow> trace_op list"
  call_events :: "'f \<Rightarrow> bytes \<Rightarrow> trace_op list"

text \<open>The functions that the packs are given, by name. Whatever they do to the ring is a sequence of its calls, so
  that a list of calls is all that a recorder has to say.\<close>

definition pd_trace_cfuns :: "(string \<times> (janet_arg list \<Rightarrow> trace \<Rightarrow> trace option)) list" where
  "pd_trace_cfuns =
     [(''trace-event'', cfun_trace_event), (''trace-begin'', cfun_trace_begin),
      (''trace-span-argv'', cfun_trace_span_argv), (''trace-commit'', cfun_trace_commit)]"

lemma cfun_commit_calls: "cfun_trace_commit argv t = Some t' \<Longrightarrow> \<exists>ops. t' = fold apply_op ops t"
proof -
  assume a: "cfun_trace_commit argv t = Some t'"
  let ?o1 = "case opt_arg argv 0 of None \<Rightarrow> [] | Some v \<Rightarrow> (case janet_getinteger v of None \<Rightarrow> [] | Some n \<Rightarrow> [OpCode n])"
  let ?o2 = "case opt_arg argv 1 of None \<Rightarrow> [] | Some v \<Rightarrow> [OpDecision (Some (janet_cstr v))]"
  let ?o3 = "case opt_arg argv 2 of None \<Rightarrow> [] | Some v \<Rightarrow> [OpShort (janet_truthy v)]"
  have "t' = fold apply_op (?o1 @ ?o2 @ ?o3 @ [OpCommit]) t"
    using a by (auto simp: cfun_trace_commit_def Let_def split: option.splits if_splits)
  then show ?thesis by blast
qed

lemma cfun_calls:
  assumes "(name, f) \<in> set pd_trace_cfuns" "f argv t = Some t'"
  shows "\<exists>ops. t' = fold apply_op ops t"
proof -
  have one: "\<exists>ops. apply_op x t = fold apply_op ops t" for x by (rule exI [of _ "[x]"]) simp
  show ?thesis
    using assms cfun_commit_calls one [of "OpEvent _ _ _ _ _ _ _"] one [of "OpBegin _ _ _ _"] one [of "OpSpan _ _"]
    by (auto simp: pd_trace_cfuns_def cfun_trace_event_def cfun_trace_begin_def cfun_trace_span_argv_def Let_def
        split: if_splits option.splits simp del: fold_simps)
qed

text \<open>\<open>PD_TRACE_EVENT\<close> without a code and without a decision.\<close>

definition brief :: "trace_layer \<Rightarrow> trace_phase \<Rightarrow> string \<Rightarrow> string \<Rightarrow> trace_op" where
  "brief layer phase name detail = OpEvent layer phase (Some name) (Some detail) (-1) None False"

section \<open>The string bridge\<close>

definition policy_eval_events :: "env \<Rightarrow> cstring_opt \<Rightarrow> trace_op list" where
  "policy_eval_events env tool =
     brief LAYER_HOST PHASE_ENTER ''policy-eval'' (if nonempty tool then the tool else []) #
     (if phronesis_policy_deny_all env
      then [OpEvent LAYER_HOST PHASE_DECIDE (Some ''policy-eval/deny-all'') (Some ''PHRONESIS_DENY_ALL'')
              (int (reason_ord DENY_ALL)) (Some ''deny'') True]
      else [])"

section \<open>Loading packs\<close>

definition dobytes_events :: "('e, 'f) recorder \<Rightarrow> world \<Rightarrow> 'e \<Rightarrow> string \<Rightarrow> 'f pack_host \<Rightarrow> trace_op list" where
  "dobytes_events rc w env path st =
     (case fst (read_pack_file w path st) of
        None \<Rightarrow> []
      | Some buf \<Rightarrow> if length buf > PACK_FILE_MAX then [] else run_events rc env buf path)"

fun load_libs_events ::
  "('e, 'f) vm \<Rightarrow> ('e, 'f) recorder \<Rightarrow> world \<Rightarrow> string \<Rightarrow> string list \<Rightarrow> 'e \<Rightarrow> 'f pack_host \<Rightarrow> trace_op list" where
  "load_libs_events vm rc w libdir [] env st = []"
| "load_libs_events vm rc w libdir (x # xs) env st =
     (let path = libdir @ ''/'' @ x
      in if \<not> snprintf_fits PACK_PATH_MAX path then []
         else dobytes_events rc w env path st @
           (case dobytes_file vm w env path st of
              (None, st1) \<Rightarrow> []
            | (Some env1, st1) \<Rightarrow> load_libs_events vm rc w libdir xs env1 st1))"

definition pack_libs_events ::
  "('e, 'f) vm \<Rightarrow> ('e, 'f) recorder \<Rightarrow> world \<Rightarrow> 'e \<Rightarrow> string \<Rightarrow> 'f pack_host \<Rightarrow> trace_op list" where
  "pack_libs_events vm rc w env path st =
     (case pack_lib_names w path of None \<Rightarrow> [] | Some (libdir, names) \<Rightarrow> load_libs_events vm rc w libdir names env st)"

definition compile_pack_events :: "('e, 'f) vm \<Rightarrow> ('e, 'f) recorder \<Rightarrow> world \<Rightarrow> string \<Rightarrow> 'f pack_host \<Rightarrow> trace_op list" where
  "compile_pack_events vm rc w path st =
     (case janet_core_env vm of
        None \<Rightarrow> []
      | Some core \<Rightarrow>
          let env0 = seal_pack_env vm (janet_register vm core)
          in brief LAYER_PACK PHASE_ENTER ''pack-load'' path # pack_libs_events vm rc w env0 path st @
             (case load_pack_libs vm w env0 path st of
                (None, st1) \<Rightarrow> [brief LAYER_PACK PHASE_ERROR ''pack-load/lib'' path]
              | (Some env, st1) \<Rightarrow>
                  dobytes_events rc w env path st1 @
                  (if fst (dobytes_file vm w env path st1) = None then [brief LAYER_PACK PHASE_ERROR ''pack-load/entry'' path] else [])))"

definition load_one_pack_events :: "('e, 'f) vm \<Rightarrow> ('e, 'f) recorder \<Rightarrow> world \<Rightarrow> string \<Rightarrow> 'f pack_host \<Rightarrow> trace_op list" where
  "load_one_pack_events vm rc w path st =
     (if path = [] \<or> length (packs st) \<ge> PACK_MAX then []
      else
        (case load_pack_image vm w path (st\<lparr>janet_inited := True\<rparr>) of
           (im, st1) \<Rightarrow>
             (if im = None then compile_pack_events vm rc w path st1 else []) @
             (case (if im = None then fst (compile_pack vm w path st1) else im) of
                None \<Rightarrow> []
              | Some (s, a) \<Rightarrow>
                  if (s = None \<and> a = None) \<or> \<not> snprintf_fits PACK_PATH_MAX path then []
                  else [brief LAYER_PACK PHASE_GATE ''pack-load'' path])))"

fun load_each_events :: "('e, 'f) vm \<Rightarrow> ('e, 'f) recorder \<Rightarrow> world \<Rightarrow> string list \<Rightarrow> 'f pack_host \<Rightarrow> trace_op list" where
  "load_each_events vm rc w [] st = []"
| "load_each_events vm rc w (p # ps) st =
     load_one_pack_events vm rc w p st @
     (case load_one_pack vm w p st of (False, st1) \<Rightarrow> [] | (True, st1) \<Rightarrow> load_each_events vm rc w ps st1)"

definition load_spec_events ::
  "('e, 'f) vm \<Rightarrow> ('e, 'f) recorder \<Rightarrow> world \<Rightarrow> cstring_opt \<Rightarrow> bool \<Rightarrow> 'f pack_host \<Rightarrow> trace_op list" where
  "load_spec_events vm rc w spec absolute st =
     (if \<not> nonempty spec then []
      else
        (case parse_pack_spec w spec PACK_MAX absolute st of
           (None, st1) \<Rightarrow> []
         | (Some paths, st1) \<Rightarrow>
             OpEvent LAYER_HOST PHASE_ENTER (Some ''multi-pack-load'') spec (int (length paths)) None False #
             load_each_events vm rc w paths (unload_packs st1) @
             (case load_packs_from_spec vm w spec absolute st of
                (LoadOk, st2) \<Rightarrow>
                  [OpEvent LAYER_HOST PHASE_GATE (Some ''multi-pack-load'') (Some (pack_spec_buf st2)) (int (length (packs st2))) None False]
              | _ \<Rightarrow> [])))"

definition load_once_events :: "('e, 'f) vm \<Rightarrow> ('e, 'f) recorder \<Rightarrow> world \<Rightarrow> 'f pack_host \<Rightarrow> trace_op list" where
  "load_once_events vm rc w st =
     (if pack_failed st \<or> pack_loaded st then [] else load_spec_events vm rc w (Some (default_pack_spec st w)) False st)"

section \<open>Asking the packs\<close>

fun compose_events ::
  "('e, 'f) vm \<Rightarrow> ('e, 'f) recorder \<Rightarrow> 'm codec \<Rightarrow> ('f pack_slot \<Rightarrow> 'f option) \<Rightarrow> bytes \<Rightarrow> 'f pack_slot list \<Rightarrow> trace_op list" where
  "compose_events vm rc cd entry inp [] = []"
| "compose_events vm rc cd entry inp (p # ps) =
     (case entry p of
        None \<Rightarrow> compose_events vm rc cd entry inp ps
      | Some fnv \<Rightarrow>
          (if inp = [] then [] else call_events rc fnv inp) @
          (case pack_pcall_fn vm fnv inp of
             PackOk one \<Rightarrow>
               (case read_decision_fields cd one of
                  None \<Rightarrow> []
                | Some (dec, code) \<Rightarrow> if dec = decision_ord DENY then [] else compose_events vm rc cd entry inp ps)
           | _ \<Rightarrow> []))"

definition compose_entry_events ::
  "('e, 'f) vm \<Rightarrow> ('e, 'f) recorder \<Rightarrow> 'm codec \<Rightarrow> world \<Rightarrow> bool \<Rightarrow> bytes \<Rightarrow> 'f pack_host \<Rightarrow> trace_op list" where
  "compose_entry_events vm rc cd w need_flag_shell inp st =
     load_once_events vm rc w st @
     (case load_pack_once vm w st of
        (False, st1) \<Rightarrow> []
      | (True, st1) \<Rightarrow> compose_events vm rc cd (if need_flag_shell then shell_fn else audio_fn) inp (packs st1))"

definition shell_pack_events ::
  "('e, 'f) vm \<Rightarrow> ('e, 'f) recorder \<Rightarrow> 'm codec \<Rightarrow> world \<Rightarrow> cstring_opt \<Rightarrow> cstring_opt \<Rightarrow> capn_text list \<Rightarrow> 'f pack_host \<Rightarrow> trace_op list" where
  "shell_pack_events vm rc cd w workspace cwd argv st =
     load_once_events vm rc w st @
     (case load_pack_once vm w st of
        (False, st1) \<Rightarrow> []
      | (True, st1) \<Rightarrow>
          (case phronesis_build_shell_view cd w workspace cwd argv of
             ViewOk b \<Rightarrow> compose_entry_events vm rc cd w True b st1
           | _ \<Rightarrow> []))"

section \<open>The wire interface\<close>

definition decision_str :: "decision \<Rightarrow> string" where
  "decision_str d = (case d of ALLOW \<Rightarrow> ''allow'' | PROMPT \<Rightarrow> ''prompt'' | _ \<Rightarrow> ''deny'')"

definition check_seat_events :: "'m codec \<Rightarrow> bytes \<Rightarrow> trace_op list" where
  "check_seat_events cd inp =
     brief LAYER_HOST PHASE_ENTER ''checkSeat'' ''phronesis_check_seat'' #
     (if opened cd inp = None
      then [OpEvent LAYER_CAPNP PHASE_ERROR (Some ''checkSeat/open'') (Some (''invalid Cap'' @ [CHR 0x27] @ ''n message''))
              (int (reason_ord INVALID_MESSAGE)) (Some ''deny'') True]
      else [])"

definition check_path_events :: "'m codec \<Rightarrow> supervisor option \<Rightarrow> bytes \<Rightarrow> world \<Rightarrow> trace_op list" where
  "check_path_events cd so inp w =
     (case opened cd inp of
        None \<Rightarrow> []
      | Some m \<Rightarrow>
          let pc = read_PathCheck cd m; agent = read_agent (pc_agentId pc)
          in if phronesis_policy_deny_all (w_env w) then []
             else
               (case workspace_for so agent PHRONESIS_PATH_MAX w of
                  (ws, so1, w1) \<Rightarrow>
                    let pl = text_len (pc_path pc)
                    in if pl \<ge> PHRONESIS_PATH_MAX \<or> pl > 0 \<and> t_str (pc_path pc) = None then []
                       else policy_eval_events (w_env w1) (Some ''fs'')))"

definition shell_body_events ::
  "('e, 'f) vm \<Rightarrow> ('e, 'f) recorder \<Rightarrow> 'm codec \<Rightarrow> cstring_opt \<Rightarrow> shell_check \<Rightarrow> world \<Rightarrow> 'f pack_host \<Rightarrow> trace_op list" where
  "shell_body_events vm rc cd ws sc w st =
     (let cl = text_len (sh_cwd sc)
      in if cl \<ge> PHRONESIS_PATH_MAX \<or> cl > 0 \<and> t_str (sh_cwd sc) = None then []
         else
           let cwd = cstr (text_bytes (sh_cwd sc));
               pr = phronesis_policy_eval (w_env w) ws (Some ''shell'') (Some ''exec'') (or_null cwd)
           in brief LAYER_HOST PHASE_GATE ''checkShell/path-plane'' cwd #
              policy_eval_events (w_env w) (Some ''shell'') @
              (if pr_decision pr \<noteq> ALLOW
               then [OpEvent LAYER_HOST PHASE_DECIDE (Some ''checkShell/path-plane'') (Some ''path plane short-circuit'')
                       (int (reason_ord (pr_code pr))) (Some (decision_str (pr_decision pr))) True]
               else if sh_argv sc \<noteq> []
               then brief LAYER_HOST PHASE_ENTER ''checkShell/pack'' ''multi-pack shell-check compose'' #
                 shell_pack_events vm rc cd w ws (Some cwd) (sh_argv sc) st
               else []))"

definition check_shell_events ::
  "('e, 'f) vm \<Rightarrow> ('e, 'f) recorder \<Rightarrow> 'm codec \<Rightarrow> supervisor option \<Rightarrow> bytes \<Rightarrow> world \<Rightarrow> 'f pack_host \<Rightarrow> trace_op list" where
  "check_shell_events vm rc cd so inp w st =
     (case opened cd inp of
        None \<Rightarrow> []
      | Some m \<Rightarrow>
          if phronesis_policy_deny_all (w_env w) then []
          else
            (case workspace_for so (read_agent (sh_agentId (read_ShellCheck cd m))) PHRONESIS_PATH_MAX w of
               (ws, so1, w1) \<Rightarrow> shell_body_events vm rc cd ws (read_ShellCheck cd m) w1 st))"

definition reload_events :: "('e, 'f) vm \<Rightarrow> ('e, 'f) recorder \<Rightarrow> cstring_opt \<Rightarrow> world \<Rightarrow> 'f pack_host \<Rightarrow> trace_op list" where
  "reload_events vm rc path w st =
     (if \<not> nonempty path \<or> \<not> pack_reload_spec_allowed w path then [] else load_spec_events vm rc w path True st)"

definition reload_shell_pack_events ::
  "('e, 'f) vm \<Rightarrow> ('e, 'f) recorder \<Rightarrow> 'm codec \<Rightarrow> bytes \<Rightarrow> world \<Rightarrow> 'f pack_host \<Rightarrow> trace_op list" where
  "reload_shell_pack_events vm rc cd inp w st =
     (case opened cd inp of
        None \<Rightarrow> []
      | Some m \<Rightarrow>
          let rp = read_ReloadShellPack cd m; pl = text_len rp
          in if pl = 0 \<or> pl \<ge> 4096 * 16 \<or> t_str rp = None \<or> phronesis_policy_deny_all (w_env w) then []
             else reload_events vm rc (Some (cstr (text_bytes rp))) w st)"

section \<open>The playground\<close>

text \<open>The ring after a call of the playground: unchanged when the arguments are refused, otherwise cleared and then
  filled by the events of the call. The risk check has no events; a reload by path does not clear.\<close>

definition pd_traced :: "supervisor option \<Rightarrow> bytes \<Rightarrow> trace_op list \<Rightarrow> trace \<Rightarrow> trace" where
  "pd_traced so inp ops t = (if so = None \<or> inp = [] then t else fold apply_op ops pd_trace_clear)"

definition pd_check_shell_trace ::
  "('e, 'f) vm \<Rightarrow> ('e, 'f) recorder \<Rightarrow> 'm codec \<Rightarrow> supervisor option \<Rightarrow> bytes \<Rightarrow> world \<Rightarrow> 'f pack_host \<Rightarrow> trace \<Rightarrow> trace" where
  "pd_check_shell_trace vm rc cd so inp w st t = pd_traced so inp (check_shell_events vm rc cd so inp w st) t"

definition pd_check_path_trace :: "'m codec \<Rightarrow> supervisor option \<Rightarrow> bytes \<Rightarrow> world \<Rightarrow> trace \<Rightarrow> trace" where
  "pd_check_path_trace cd so inp w t = pd_traced so inp (check_path_events cd so inp w) t"

definition pd_check_seat_trace :: "'m codec \<Rightarrow> supervisor option \<Rightarrow> bytes \<Rightarrow> trace \<Rightarrow> trace" where
  "pd_check_seat_trace cd so inp t = pd_traced so inp (check_seat_events cd inp) t"

definition pd_check_risk_trace :: "supervisor option \<Rightarrow> bytes \<Rightarrow> trace \<Rightarrow> trace" where
  "pd_check_risk_trace so inp t = pd_traced so inp [] t"

definition pd_reload_shell_pack_trace ::
  "('e, 'f) vm \<Rightarrow> ('e, 'f) recorder \<Rightarrow> 'm codec \<Rightarrow> supervisor option \<Rightarrow> bytes \<Rightarrow> world \<Rightarrow> 'f pack_host \<Rightarrow> trace \<Rightarrow> trace" where
  "pd_reload_shell_pack_trace vm rc cd so inp w st t = pd_traced so inp (reload_shell_pack_events vm rc cd inp w st) t"

definition pd_reload_pack_path_trace ::
  "('e, 'f) vm \<Rightarrow> ('e, 'f) recorder \<Rightarrow> cstring_opt \<Rightarrow> world \<Rightarrow> 'f pack_host \<Rightarrow> trace \<Rightarrow> trace" where
  "pd_reload_pack_path_trace vm rc path w st t = fold apply_op (reload_events vm rc path w st) t"

definition pd_clear_trace :: trace where
  "pd_clear_trace = pd_trace_clear"

definition pd_take_trace_json :: "trace \<Rightarrow> string \<times> trace" where
  "pd_take_trace_json t = (pd_trace_to_json t, pd_trace_clear)"

section \<open>The numbers of the events\<close>

text \<open>Codes and span positions are 32-bit, so that the export prints them whole.\<close>

fun op_ok :: "trace_op \<Rightarrow> bool" where
  "op_ok (OpCode c) = int32 c"
| "op_ok (OpSpan i r) = int32 i"
| "op_ok (OpEvent l p n d c dec sc) = (c \<le> 2147483647)"
| "op_ok _ = True"

definition ops_ok :: "trace_op list \<Rightarrow> bool" where
  "ops_ok ops \<longleftrightarrow> (\<forall>x \<in> set ops. op_ok x)"

lemma ops_ok_simps [simp]:
  "ops_ok []" "ops_ok (x # xs) \<longleftrightarrow> op_ok x \<and> ops_ok xs" "ops_ok (xs @ ys) \<longleftrightarrow> ops_ok xs \<and> ops_ok ys" "op_ok (brief l p n d)"
  by (auto simp: ops_ok_def brief_def)

definition recorder_ok :: "('e, 'f) recorder \<Rightarrow> bool" where
  "recorder_ok rc \<longleftrightarrow> (\<forall>e b p. ops_ok (run_events rc e b p)) \<and> (\<forall>f b. ops_ok (call_events rc f b))"

definition spec_ok :: "log_spec \<Rightarrow> bool" where
  "spec_ok s \<longleftrightarrow> (\<forall>e \<in> set (all_events s). event_ok e) \<and> (\<forall>e. open_event s = Some e \<longrightarrow> event_ok e)"

lemma spec_ok_start [simp]: "spec_ok spec_start"
  by (simp add: spec_ok_def spec_start_def)

lemma spec_ok_step: "op_ok x \<Longrightarrow> spec_ok s \<Longrightarrow> spec_ok (spec_op x s)"
  by (cases x) (auto simp: spec_ok_def event_ok_def new_event_def add_span_def int32_def spec_start_def split: option.splits)

lemma spec_ok_run: "ops_ok ops \<Longrightarrow> spec_ok s \<Longrightarrow> spec_ok (fold spec_op ops s)"
  by (induction ops arbitrary: s) (auto intro: spec_ok_step simp del: spec_op.simps)

lemma reason_event [simp]: "c \<in> set reason_table \<Longrightarrow> reason_ord c \<le> 2147483647"
  using reason_ord_bound [of c] by simp

lemma policy_eval_events_ok [simp]: "ops_ok (policy_eval_events env tool)"
proof -
  have "DENY_ALL \<in> set reason_table" by code_simp
  then show ?thesis by (simp add: policy_eval_events_def)
qed

lemma dobytes_events_ok: "recorder_ok rc \<Longrightarrow> ops_ok (dobytes_events rc w env path st)"
  by (auto simp: dobytes_events_def recorder_ok_def split: option.splits)

lemma load_libs_events_ok: "recorder_ok rc \<Longrightarrow> ops_ok (load_libs_events vm rc w libdir xs env st)"
proof (induction xs arbitrary: env st)
  case (Cons x xs)
  then show ?case using dobytes_events_ok
    by (cases "dobytes_file vm w env (libdir @ ''/'' @ x) st") (auto simp: Let_def split: option.splits)
qed simp

lemma compile_pack_events_ok: "recorder_ok rc \<Longrightarrow> ops_ok (compile_pack_events vm rc w path st)"
  using load_libs_events_ok dobytes_events_ok
  by (auto simp: compile_pack_events_def pack_libs_events_def Let_def split: option.splits prod.splits)

lemma load_one_pack_events_ok: "recorder_ok rc \<Longrightarrow> ops_ok (load_one_pack_events vm rc w path st)"
  using compile_pack_events_ok by (auto simp: load_one_pack_events_def split: option.splits prod.splits)

lemma load_each_events_ok: "recorder_ok rc \<Longrightarrow> ops_ok (load_each_events vm rc w ps st)"
proof (induction ps arbitrary: st)
  case (Cons p ps)
  then show ?case using load_one_pack_events_ok by (auto split: prod.splits bool.splits)
qed simp

lemma append_names_length: "append_names d lim xs out = Some out' \<Longrightarrow> length out \<le> lim \<Longrightarrow> length out' \<le> lim"
proof (induction xs arbitrary: out)
  case (Cons x xs)
  then obtain o1 where o1: "append_path out lim (d @ ''/'' @ x) = Some o1" "append_names d lim xs o1 = Some out'"
    by (auto simp: Let_def split: if_splits option.splits)
  then have "length o1 \<le> lim" by (auto simp: append_path_def split: if_splits)
  then show ?case using Cons.IH o1(2) by blast
qed simp

lemma parse_segments_length: "parse_segments w lim ab toks out st = (Some ps, st') \<Longrightarrow> length out \<le> lim \<Longrightarrow> length ps \<le> lim"
proof (induction toks arbitrary: out st)
  case (Cons t ts)
  from parse_segments_step [OF Cons.prems(1)] obtain out' st1 where q: "parse_segments w lim ab ts out' st1 = (Some ps, st')"
    and o: "out' = out \<or> append_path out lim t = Some out' \<or> expand_dir_packs w t out lim = Some out'" by blast
  have "length out' \<le> lim"
    using o Cons.prems(2) append_names_length
    by (auto simp: append_path_def expand_dir_packs_def Let_def split: if_splits option.splits)
  then show ?case using Cons.IH [OF q] by blast
qed (simp split: if_splits)

lemma load_spec_events_ok:
  assumes rc: "recorder_ok rc" and ok: "host_ok st"
  shows "ops_ok (load_spec_events vm rc w spec ab st)"
proof -
  obtain q st1 where p: "parse_pack_spec w spec PACK_MAX ab st = (q, st1)" by fastforce
  obtain r st2 where ld: "load_packs_from_spec vm w spec ab st = (r, st2)" by fastforce
  have 1: "length ps \<le> 16" if "q = Some ps" for ps
    using p that parse_segments_length by (fastforce simp: parse_pack_spec_def PACK_MAX_def split: if_splits)
  have 2: "length (packs st2) \<le> 16" using load_spec_result [OF ld ok] by (simp add: host_ok_def PACK_MAX_def)
  show ?thesis
    using 1 2 load_each_events_ok [OF rc, of vm w _ "unload_packs st1"] p ld
    by (cases q; cases r) (fastforce simp: load_spec_events_def)+
qed

lemma load_once_events_ok: "recorder_ok rc \<Longrightarrow> host_ok st \<Longrightarrow> ops_ok (load_once_events vm rc w st)"
  by (auto simp: load_once_events_def intro: load_spec_events_ok)

lemma compose_events_ok: "recorder_ok rc \<Longrightarrow> ops_ok (compose_events vm rc cd entry inp ps)"
proof (induction ps)
  case (Cons p ps)
  then have "\<forall>f b. ops_ok (call_events rc f b)" by (simp add: recorder_ok_def)
  then show ?case using Cons by (auto split: option.splits pack_rc.splits)
qed simp

lemma compose_entry_events_ok: "recorder_ok rc \<Longrightarrow> host_ok st \<Longrightarrow> ops_ok (compose_entry_events vm rc cd w fl inp st)"
  using load_once_events_ok compose_events_ok by (auto simp: compose_entry_events_def split: prod.splits bool.splits)

lemma load_once_host_ok: "host_ok st \<Longrightarrow> load_pack_once vm w st = (b, st') \<Longrightarrow> host_ok st'"
  using load_spec_result by (fastforce simp: load_pack_once_def split: if_splits prod.splits)

lemma shell_pack_events_ok:
  assumes "recorder_ok rc" "host_ok st"
  shows "ops_ok (shell_pack_events vm rc cd w ws cwd argv st)"
proof -
  obtain b st1 where ld: "load_pack_once vm w st = (b, st1)" by fastforce
  show ?thesis
    using load_once_events_ok [OF assms] compose_entry_events_ok [OF assms(1) load_once_host_ok [OF assms(2) ld]] ld
    by (cases b; cases "phronesis_build_shell_view cd w ws cwd argv") (auto simp: shell_pack_events_def)
qed

lemma shell_body_events_ok:
  assumes "recorder_ok rc" "host_ok st"
  shows "ops_ok (shell_body_events vm rc cd ws sc w st)"
proof -
  have c: "reason_ord (pr_code (phronesis_policy_eval e ws t a p)) \<le> 2147483647" for e ws t a p
    using policy_eval_host_result [of e ws t a p] by (simp add: host_result_def)
  show ?thesis
    using shell_pack_events_ok [OF assms, of vm cd w ws "Some (cstr (text_bytes (sh_cwd sc)))" "sh_argv sc"] c
    by (simp add: shell_body_events_def Let_def)
qed

lemma check_shell_events_ok: "recorder_ok rc \<Longrightarrow> host_ok st \<Longrightarrow> ops_ok (check_shell_events vm rc cd so inp w st)"
  using shell_body_events_ok by (auto simp: check_shell_events_def split: option.splits prod.splits)

section \<open>What the viewer reads\<close>

text \<open>The events that a sequence of calls commits on a cleared trace.\<close>

definition call_log :: "trace_op list \<Rightarrow> trace_event list" where
  "call_log ops = all_events (fold spec_op ops spec_start)"

definition log_json :: "trace_event list \<Rightarrow> string" where
  "log_json es = ''['' @ comma_join (map event_text es) @ '']''"

lemma last_n_subset: "set (last_n n xs) \<subseteq> set xs"
  by (auto simp: last_n_def dest: in_set_dropD)

lemma taken_json:
  assumes "ops_ok ops"
  shows "pd_take_trace_json (fold apply_op ops pd_trace_clear) = (log_json (last_n 64 (call_log ops)), pd_clear_trace)"
proof -
  have a: "trace_abs (fold apply_op ops pd_trace_clear) (fold spec_op ops spec_start)" by (rule trace_abs_run [OF trace_abs_clear])
  then have l: "ring_ok (fold apply_op ops pd_trace_clear)" "log_of (fold apply_op ops pd_trace_clear) = last_n 64 (call_log ops)"
    by (simp_all add: trace_abs_def call_log_def PD_TRACE_RING_def)
  have "\<forall>e \<in> set (last_n 64 (call_log ops)). event_ok e"
    using spec_ok_run [OF assms spec_ok_start] last_n_subset by (fastforce simp: spec_ok_def call_log_def)
  then show ?thesis using to_json_text [OF l(1)] by (simp add: l(2) pd_take_trace_json_def log_json_def pd_clear_trace_def)
qed

lemma call_log_snoc:
  "call_log (ops @ [OpEvent l p n d c dec sc]) = call_log ops @
     [(new_event (Suc (begun (fold spec_op ops spec_start))) l p n d)\<lparr>ev_code := (if c \<ge> 0 then c else -1),
        ev_decision := (if nonempty dec then copy_trunc 16 dec else []), ev_short_circuit := sc, ev_used := True\<rparr>]"
  by (simp add: call_log_def)

definition host_note :: "trace_op \<Rightarrow> bool" where
  "host_note x \<longleftrightarrow> (\<exists>p n d c dec sc. x = OpEvent LAYER_HOST p n d c dec sc \<and> c \<le> 2147483647)"

lemma host_notes_layer: "\<forall>x \<in> set ops. host_note x \<Longrightarrow> \<forall>e \<in> set (call_log ops). ev_layer e = LAYER_HOST"
proof (induction ops rule: rev_induct)
  case (snoc x xs)
  obtain p n d c dec sc where "x = OpEvent LAYER_HOST p n d c dec sc" using snoc.prems by (auto simp: host_note_def)
  then show ?case using snoc by (auto simp: call_log_snoc new_event_def)
qed (simp add: call_log_def spec_start_def)

lemma host_notes_length: "\<forall>x \<in> set ops. host_note x \<Longrightarrow> length (call_log ops) = length ops"
proof (induction ops rule: rev_induct)
  case (snoc x xs)
  obtain p n d c dec sc where "x = OpEvent LAYER_HOST p n d c dec sc" using snoc.prems by (auto simp: host_note_def)
  then show ?case using snoc by (auto simp: call_log_snoc)
qed (simp add: call_log_def spec_start_def)

lemma host_notes_ok: "\<forall>x \<in> set ops. host_note x \<Longrightarrow> ops_ok ops"
  unfolding ops_ok_def host_note_def by fastforce

lemma decision_str_cut [simp]: "copy_trunc 16 (Some (decision_str d)) = decision_str d" "decision_str d \<noteq> []"
  by (cases d; simp add: decision_str_def copy_trunc_def)+

lemma exec_decision: "pr_decision (phronesis_policy_eval e ws (Some ''shell'') (Some ''exec'') p) \<in> {ALLOW, DENY}"
  using policy_eval_exec [of e "''shell''" ws p]
  by (cases "phronesis_policy_deny_all e") (simp_all add: policy_eval_locked)

text \<open>The path plane of a shell check that does not allow.\<close>

lemma path_plane_events:
  assumes cl: "\<not> overlong (sh_cwd sc)"
    and pr: "pr = phronesis_policy_eval (w_env w) ws (Some ''shell'') (Some ''exec'') (or_null (cstr (text_bytes (sh_cwd sc))))"
    and na: "pr_decision pr \<noteq> ALLOW"
  shows "shell_check_body vm cd a ws sc w st = (emit_decision cd pr a None, st)"
    and "\<exists>ops. shell_body_events vm rc cd ws sc w st = ops @ [OpEvent LAYER_HOST PHASE_DECIDE (Some ''checkShell/path-plane'')
        (Some ''path plane short-circuit'') (int (reason_ord (pr_code pr))) (Some (decision_str (pr_decision pr))) True]
      \<and> (\<forall>x \<in> set ops. host_note x) \<and> length ops \<le> 3"
proof -
  have c: "\<not> (text_len (sh_cwd sc) \<ge> PHRONESIS_PATH_MAX \<or> text_len (sh_cwd sc) > 0 \<and> t_str (sh_cwd sc) = None)"
    using cl by (auto simp: overlong_def PHRONESIS_PATH_MAX_def)
  show "shell_check_body vm cd a ws sc w st = (emit_decision cd pr a None, st)"
    using c na unfolding pr by (auto simp: shell_check_body_def Let_def)
  let ?ops = "brief LAYER_HOST PHASE_GATE ''checkShell/path-plane'' (cstr (text_bytes (sh_cwd sc))) # policy_eval_events (w_env w) (Some ''shell'')"
  have "\<forall>x \<in> set ?ops. host_note x" "length ?ops \<le> 3"
    using reason_event [of DENY_ALL] api_reasons by (auto simp: brief_def host_note_def policy_eval_events_def)
  then show "\<exists>ops. shell_body_events vm rc cd ws sc w st = ops @ [OpEvent LAYER_HOST PHASE_DECIDE (Some ''checkShell/path-plane'')
        (Some ''path plane short-circuit'') (int (reason_ord (pr_code pr))) (Some (decision_str (pr_decision pr))) True]
      \<and> (\<forall>x \<in> set ops. host_note x) \<and> length ops \<le> 3"
    using c na unfolding pr by (intro exI [of _ ?ops]) (auto simp: shell_body_events_def Let_def)
qed

section \<open>Properties\<close>

text \<open>The trace that the viewer takes after a shell check is the trace of that check alone. Whatever was in the
  ring before, taking the JSON after \<open>pd_check_shell\<close> on a supervisor and a message gives the array of the last 64
  events that this call recorded, host and packs, in their order, and leaves the ring empty. A call with
  refused arguments leaves the ring as it was.\<close>

lemma trace_of_call:
  assumes "recorder_ok rc" "host_ok st"
  shows "pd_take_trace_json (pd_check_shell_trace vm rc cd so inp w st t) =
    (if so = None \<or> inp = [] then (pd_trace_to_json t, pd_clear_trace)
     else (log_json (last_n 64 (call_log (check_shell_events vm rc cd so inp w st))), pd_clear_trace))"
  using taken_json [OF check_shell_events_ok [OF assms]]
  by (auto simp: pd_check_shell_trace_def pd_traced_def pd_take_trace_json_def pd_clear_trace_def)

text \<open>A recorder for packs that record nothing, and a shell check of the seated agent outside its workspace.\<close>

definition silent :: "('e, 'f) recorder" where
  "silent = \<lparr>run_events = (\<lambda>_ _ _. []), call_events = (\<lambda>_ _. [])\<rparr>"

definition outside_check :: bytes where
  "outside_check = enc_agent (Some wire_agent) @ ''/etc'' @ [newline] @ ''ls''"

lemma silent_ok: "recorder_ok silent"
  by (simp add: recorder_ok_def silent_def)

lemma trace_of_call_witness:
  "pd_take_trace_json (pd_check_shell_trace demo_vm silent demo_codec (Some wired_sup) outside_check demo_world initial_host demo_trace)
    = (log_json (last_n 64 (call_log (check_shell_events demo_vm silent demo_codec (Some wired_sup) outside_check demo_world initial_host))), pd_clear_trace)
   \<and> length (call_log (check_shell_events demo_vm silent demo_codec (Some wired_sup) outside_check demo_world initial_host)) = 3"
proof -
  have "outside_check \<noteq> []" by code_simp
  moreover have "length (call_log (check_shell_events demo_vm silent demo_codec (Some wired_sup) outside_check demo_world initial_host)) = 3" by code_simp
  ultimately show ?thesis
    using trace_of_call [OF silent_ok host_ok_initial, of demo_vm demo_codec "Some wired_sup" outside_check demo_world demo_trace] by simp
qed

text \<open>C37: The trace tells the verdict of the path plane. When a shell check of an opened message outside
  lockdown, with a working directory that fits, ends at the path plane, the trace taken
  afterwards has at most four events, all of the host, so no pack was asked; the last one is the short-circuited decision
  of the path plane, and its code and decision are those of the answer that the caller gets.\<close>

theorem trace_tells_verdict:
  assumes cd: "decision_codec cd" and m: "opened cd inp = Some m" "inp \<noteq> []"
    and l: "\<not> phronesis_policy_deny_all (w_env w)" "\<not> overlong (sh_cwd (read_ShellCheck cd m))"
    and ws: "workspace_for (Some s) (read_agent (sh_agentId (read_ShellCheck cd m))) PHRONESIS_PATH_MAX w = (ws, so1, w1)"
    and na: "pr_decision (phronesis_policy_eval (w_env w1) ws (Some ''shell'') (Some ''exec'')
        (or_null (cstr (text_bytes (sh_cwd (read_ShellCheck cd m)))))) \<noteq> ALLOW"
  shows "\<exists>d es e. says cd (fst (phronesis_check_shell vm cd (Some s) inp w st)) d \<and> pd_decision d = 0
    \<and> snd (snd (snd (phronesis_check_shell vm cd (Some s) inp w st))) = st
    \<and> fst (pd_take_trace_json (pd_check_shell_trace vm rc cd (Some s) inp w st t)) = log_json (es @ [e])
    \<and> length es \<le> 3 \<and> (\<forall>x \<in> set (es @ [e]). ev_layer x = LAYER_HOST)
    \<and> ev_phase e = PHASE_DECIDE \<and> ev_name e = ''checkShell/path-plane'' \<and> ev_short_circuit e
    \<and> ev_code e = int (pd_code d) \<and> ev_decision e = ''deny''"
proof -
  let ?sc = "read_ShellCheck cd m"
  let ?a = "read_agent (sh_agentId ?sc)"
  define pr where "pr = phronesis_policy_eval (w_env w1) ws (Some ''shell'') (Some ''exec'') (or_null (cstr (text_bytes (sh_cwd ?sc))))"
  have na': "pr_decision pr \<noteq> ALLOW" using na by (simp add: pr_def)
  note ev = path_plane_events [OF l(2) pr_def na']
  obtain ops where o: "shell_body_events vm rc cd ws ?sc w1 st = ops @ [OpEvent LAYER_HOST PHASE_DECIDE (Some ''checkShell/path-plane'')
        (Some ''path plane short-circuit'') (int (reason_ord (pr_code pr))) (Some (decision_str (pr_decision pr))) True]"
    "\<forall>x \<in> set ops. host_note x" "length ops \<le> 3" using ev(2) by blast
  have op: "open_in cd inp = Opened m" using m(1) by (simp add: open_in_Opened)
  have cs: "phronesis_check_shell vm cd (Some s) inp w st = (emit_decision cd pr ?a None, so1, w1, st)"
    using op l(1) ws ev(1) [of vm cd ?a st] by (simp add: phronesis_check_shell_def deny_if_all_def Let_def)
  have hr: "host_result pr" unfolding pr_def by (rule policy_eval_host_result)
  then have c: "reason_ord (pr_code pr) \<le> 2147483647" by (simp add: host_result_def)
  let ?evs = "check_shell_events vm rc cd (Some s) inp w st"
  have evs: "?evs = ops @ [OpEvent LAYER_HOST PHASE_DECIDE (Some ''checkShell/path-plane'') (Some ''path plane short-circuit'')
      (int (reason_ord (pr_code pr))) (Some (decision_str (pr_decision pr))) True]"
    using m(1) l(1) ws o(1) by (simp add: check_shell_events_def)
  let ?d = "host_answer (pr_decision pr) (pr_code pr) ?a []"
  let ?e = "(new_event (Suc (begun (fold spec_op ops spec_start))) LAYER_HOST PHASE_DECIDE (Some ''checkShell/path-plane'') (Some ''path plane short-circuit''))
    \<lparr>ev_code := int (reason_ord (pr_code pr)), ev_decision := decision_str (pr_decision pr), ev_short_circuit := True, ev_used := True\<rparr>"
  have log: "call_log ?evs = call_log ops @ [?e]" unfolding evs call_log_snoc by (simp add: nonempty_def)
  have len: "last_n 64 (call_log ops @ [?e]) = call_log ops @ [?e]"
    using host_notes_length [OF o(2)] o(3) by (simp add: last_n_def)
  have "ops_ok ?evs" using host_notes_ok [OF o(2)] c by (simp add: evs)
  from taken_json [OF this] have json: "fst (pd_take_trace_json (pd_check_shell_trace vm rc cd (Some s) inp w st t)) = log_json (call_log ops @ [?e])"
    using m(2) by (simp add: pd_check_shell_trace_def pd_traced_def log len)
  have lay: "\<forall>x \<in> set (call_log ops @ [?e]). ev_layer x = LAYER_HOST" using host_notes_layer [OF o(2)] by (auto simp: new_event_def)
  have nm: "copy_trunc 128 (Some ''checkShell/path-plane'') = ''checkShell/path-plane''" by code_simp
  have ph: "ev_phase ?e = PHASE_DECIDE" "ev_name ?e = ''checkShell/path-plane''" using nm by (simp_all add: new_event_def)
  have "pr_decision pr = DENY" using na' exec_decision [of "w_env w1" ws] by (auto simp: pr_def)
  then have dn: "pd_decision ?d = 0" "ev_decision ?e = ''deny''" "ev_code ?e = int (pd_code ?d)"
    by (simp_all add: host_answer_def decision_str_def)
  have ln: "length (call_log ops) \<le> 3" using host_notes_length [OF o(2)] o(3) by simp
  have an: "fst (phronesis_check_shell vm cd (Some s) inp w st) = emit_decision cd pr ?a None"
    "snd (snd (snd (phronesis_check_shell vm cd (Some s) inp w st))) = st" using cs by simp_all
  have sy: "says cd (fst (phronesis_check_shell vm cd (Some s) inp w st)) ?d" unfolding an(1) by (rule emit_host_says [OF cd hr])
  have sc: "ev_short_circuit ?e" by simp
  show ?thesis
    by (rule exI [of _ ?d], rule exI [of _ "call_log ops"], rule exI [of _ ?e]) (intro conjI sy dn(1) an(2) json ln lay ph sc dn(3,2))
qed

lemma trace_tells_verdict_witness:
  "\<exists>d e es. says demo_codec (fst (phronesis_check_shell demo_vm demo_codec (Some wired_sup) outside_check demo_world initial_host)) d \<and> pd_decision d = 0
    \<and> fst (pd_take_trace_json (pd_check_shell_trace demo_vm silent demo_codec (Some wired_sup) outside_check demo_world initial_host demo_trace)) = log_json (es @ [e])
    \<and> ev_code e = int (pd_code d) \<and> ev_decision e = ''deny''"
proof -
  have m: "opened demo_codec outside_check = Some outside_check" "outside_check \<noteq> []" by code_simp+
  have l: "\<not> phronesis_policy_deny_all (w_env demo_world)" "\<not> overlong (sh_cwd (read_ShellCheck demo_codec outside_check))"
    by code_simp+
  let ?w = "workspace_for (Some wired_sup) (read_agent (sh_agentId (read_ShellCheck demo_codec outside_check))) PHRONESIS_PATH_MAX demo_world"
  obtain ws so1 w1 where w: "?w = (ws, so1, w1)" by (metis prod.collapse)
  have "pr_decision (phronesis_policy_eval (w_env (snd (snd ?w))) (fst ?w) (Some ''shell'') (Some ''exec'')
        (or_null (cstr (text_bytes (sh_cwd (read_ShellCheck demo_codec outside_check)))))) \<noteq> ALLOW" by code_simp
  then have na: "pr_decision (phronesis_policy_eval (w_env w1) ws (Some ''shell'') (Some ''exec'')
        (or_null (cstr (text_bytes (sh_cwd (read_ShellCheck demo_codec outside_check)))))) \<noteq> ALLOW" using w by (metis fst_conv snd_conv)
  from trace_tells_verdict [OF demo_decision_codec m l w na, of demo_vm initial_host silent demo_trace] show ?thesis by blast
qed

end
