(* ===== verification/Image_Tables.thy ===== *)
theory Image_Tables
  imports Pack_Image Traced
begin

text \<open>
  The lookup tables of a pack image in src/policy\_janet.c: which names a marshalled function is written under,
  and which function a name stands for when the image is read back. The machine's tables, its marshalling
  and the registration of the message runtime's functions are third-party code and the parameter \<open>tables_api\<close>; a panic of the
  machine is \<open>None\<close>. \<open>with_tables\<close> puts the two guarded calls in place of the abstract marshalling of \<open>vm\<close>.
\<close>

section \<open>The machine's tables\<close>

type_synonym 'f lookup = "string \<Rightarrow> 'f jval option"
type_synonym 'f names = "'f jval \<Rightarrow> string option"

text \<open>The slots of a table are in the order of its hash array; an unused one has a nil key.\<close>

record 'f tables_api =
  janet_core_lookup_table :: "'f lookup"
  capnp_janet_register :: "'f lookup \<Rightarrow> 'f lookup"
  janet_cfuns :: "'f lookup \<Rightarrow> string \<Rightarrow> (string \<times> 'f jval) list \<Rightarrow> 'f lookup"
  trace_build :: bool
  trace_cfun :: "string \<Rightarrow> 'f jval"
  janet_env_lookup_into :: "'f lookup \<Rightarrow> 'f lookup \<Rightarrow> 'f lookup"
  table_data :: "'f lookup \<Rightarrow> (string \<times> 'f jval) option list"
  unmarshal_with :: "bytes \<Rightarrow> 'f lookup \<Rightarrow> 'f jval option"
  marshal_with :: "'f jval \<Rightarrow> 'f names \<Rightarrow> bytes option"

text \<open>\<open>janet_table_put\<close>: a nil key is ignored. (The machine ignores a NaN as well; the keys here are the C functions of the
  forward table.)\<close>

definition janet_table_put :: "'f names \<Rightarrow> 'f jval \<Rightarrow> string \<Rightarrow> 'f names" where
  "janet_table_put t k v = (case k of JNil \<Rightarrow> t | _ \<Rightarrow> t(k \<mapsto> v))"

section \<open>The tables of an image\<close>

text \<open>The functions of src/policy\_trace.c that packs may call in a build with \<open>PHRONESIS_TRACE\<close>, by the names of their
  table in \<open>Traced\<close>; \<open>trace_cfun\<close> is the machine's value for one of them. Without the flag the macro is empty.\<close>

definition pd_trace_register_janet :: "'f tables_api \<Rightarrow> 'f lookup option \<Rightarrow> 'f lookup option" where
  "pd_trace_register_janet T env =
     (case env of
        None \<Rightarrow> None
      | Some e \<Rightarrow> Some (janet_cfuns T e ''pd-trace'' (map (\<lambda>(n, _). (n, trace_cfun T n)) pd_trace_cfuns)))"

definition PD_TRACE_REGISTER_JANET :: "'f tables_api \<Rightarrow> 'f lookup \<Rightarrow> 'f lookup" where
  "PD_TRACE_REGISTER_JANET T t = (if trace_build T then the (pd_trace_register_janet T (Some t)) else t)"

definition pack_cfun_env :: "'f tables_api \<Rightarrow> 'f lookup" where
  "pack_cfun_env T = PD_TRACE_REGISTER_JANET T (capnp_janet_register T Map.empty)"

definition pack_image_forward :: "'f tables_api \<Rightarrow> 'f lookup" where
  "pack_image_forward T = janet_env_lookup_into T (janet_core_lookup_table T) (pack_cfun_env T)"

fun reverse_slots :: "(string \<times> 'f jval) option list \<Rightarrow> 'f names \<Rightarrow> 'f names" where
  "reverse_slots [] t = t"
| "reverse_slots (None # kvs) t = reverse_slots kvs t"
| "reverse_slots (Some (k, v) # kvs) t = reverse_slots kvs (janet_table_put t v k)"

definition pack_image_reverse :: "'f tables_api \<Rightarrow> 'f names" where
  "pack_image_reverse T = reverse_slots (table_data T (pack_image_forward T)) Map.empty"

definition unmarshal_guarded :: "'f tables_api \<Rightarrow> bytes \<Rightarrow> 'f jval option" where
  "unmarshal_guarded T b = unmarshal_with T b (pack_image_forward T)"

definition marshal_guarded :: "'f tables_api \<Rightarrow> 'f jval \<Rightarrow> bytes option" where
  "marshal_guarded T x = marshal_with T x (pack_image_reverse T)"

definition with_tables :: "'f tables_api \<Rightarrow> ('e, 'f) vm \<Rightarrow> ('e, 'f) vm" where
  "with_tables T vm = vm\<lparr>janet_unmarshal := unmarshal_guarded T, janet_marshal := marshal_guarded T\<rparr>"

section \<open>What the machine promises\<close>

text \<open>The slots of the forward table are its entries.\<close>

definition slots_are_entries :: "'f tables_api \<Rightarrow> bool" where
  "slots_are_entries T \<longleftrightarrow> 
     (\<forall>k v. Some (k, v) \<in> set (table_data T (pack_image_forward T)) \<longleftrightarrow> pack_image_forward T k = Some v)"

text \<open>Marshalling writes names from the reverse table; with a forward table in which each of these names stands
  for the value it was written for, unmarshalling gives the value back.\<close>

definition marshal_inverts :: "'f tables_api \<Rightarrow> bool" where
  "marshal_inverts T \<longleftrightarrow>
     (\<forall>fwd names x b. (\<forall>v s. names v = Some s \<longrightarrow> fwd s = Some v) \<longrightarrow> marshal_with T x names = Some b
        \<longrightarrow> b \<noteq> [] \<and> unmarshal_with T b fwd = Some x)"

section \<open>The reverse table\<close>

lemma janet_table_put_eq: "janet_table_put t k v x = (if k \<noteq> JNil \<and> x = k then Some v else t x)"
  by (cases k) (simp_all add: janet_table_put_def)

lemma reverse_slots_names:
  "reverse_slots kvs t v = Some s \<Longrightarrow> Some (s, v) \<in> set kvs \<and> v \<noteq> JNil \<or> t v = Some s"
  by (induction kvs t rule: reverse_slots.induct) (auto simp: janet_table_put_eq split: if_splits)

lemma reverse_slots_keeps: "t v \<noteq> None \<Longrightarrow> reverse_slots kvs t v \<noteq> None"
  by (induction kvs t rule: reverse_slots.induct) (auto simp: janet_table_put_eq)

lemma reverse_slots_covers: "Some (s, v) \<in> set kvs \<Longrightarrow> v \<noteq> JNil \<Longrightarrow> reverse_slots kvs t v \<noteq> None"
proof (induction kvs t rule: reverse_slots.induct)
  case (3 k u kvs t)
  show ?case
  proof (cases "u = v")
    case True
    then have "janet_table_put t u k v \<noteq> None" using 3(3) by (simp add: janet_table_put_eq)
    then show ?thesis using reverse_slots_keeps by simp
  qed (use 3 in auto)
qed auto

lemma reverse_forward: "slots_are_entries T \<Longrightarrow> pack_image_reverse T v = Some s \<Longrightarrow> pack_image_forward T s = Some v"
  using reverse_slots_names [of _ Map.empty v s] by (auto simp: pack_image_reverse_def slots_are_entries_def)

lemma tables_marshal:
  assumes "slots_are_entries T" "marshal_inverts T"
  shows "marshals (with_tables T vm)"
proof -
  have "\<forall>v s. pack_image_reverse T v = Some s \<longrightarrow> pack_image_forward T s = Some v" using reverse_forward [OF assms(1)] by blast
  then have "\<And>x b. marshal_with T x (pack_image_reverse T) = Some b \<Longrightarrow> b \<noteq> [] \<and> unmarshal_with T b (pack_image_forward T) = Some x"
    using assms(2) unfolding marshal_inverts_def by blast
  then show ?thesis by (simp add: marshals_def with_tables_def unmarshal_guarded_def marshal_guarded_def)
qed

lemma reverse_total:
  "slots_are_entries T \<Longrightarrow> pack_image_forward T s = Some v \<Longrightarrow> v \<noteq> JNil \<Longrightarrow> pack_image_reverse T v \<noteq> None"
  unfolding pack_image_reverse_def slots_are_entries_def using reverse_slots_covers by fastforce

section \<open>Properties\<close>

text \<open>C16: A pack image is as good as its sources. When the image writer succeeds, a loader that finds the file under the
  pack root takes from it exactly the entries that compiling the sources gave, with the header and the hash
  recomputed, whatever the root cached by the writer and by the loader. The name under which the writer's table lists
  a C function is, in the loader's table, the name of that very function, also when two names share one function, and no
  function that is not nil is without a name. It relies on a machine whose unmarshalling inverts its marshalling for such
  a pair of tables, on an output that is none of the sources, and on an image of at most 4 MiB.\<close>

theorem image_round_trip:
  assumes wr: "phronesis_pack_image_write (with_tables T vm) path out_path w st = (True, w', st')"
    and ip: "pack_image_path path PACK_PATH_MAX = Some ipath"
    and ro: "root_ok w st" "root_ok w stl"
    and op: "open_on_root w' ipath stl = (Some (w_canon w out_path), stl')"
    and src: "\<forall>f \<in> set (pack_sources w path). opened_at w f \<noteq> Some (w_canon w out_path)"
    and T: "slots_are_entries T" "marshal_inverts T" and sz: "\<forall>b. w_fs w' (w_canon w out_path) = Some (Reg b) \<longrightarrow> length b \<le> PACK_IMAGE_MAX"
  shows "(\<forall>v s. pack_image_reverse T v = Some s \<longrightarrow> pack_image_forward T s = Some v)
    \<and> (\<forall>v s. pack_image_forward T s = Some v \<longrightarrow> v \<noteq> JNil \<longrightarrow> pack_image_reverse T v \<noteq> None)
    \<and> (\<exists>s a. (s \<noteq> None \<or> a \<noteq> None) \<and> fst (compile_pack (with_tables T vm) w path (st\<lparr>janet_inited := True\<rparr>)) = Some (s, a)
         \<and> load_pack_image (with_tables T vm) w' path stl = (Some (s, a), stl'))"
  using image_back [OF wr ip ro op src tables_marshal [OF T] sz] reverse_forward [OF T(1)] reverse_total [OF T(1)] by blast

text \<open>A machine that marshals a pair with a shell entry only: by the name of its function, or by the function when it
  has no name. One C function is registered, as \<open>s\<close>.\<close>

definition demo_tables :: "string tables_api" where
  "demo_tables =
     \<lparr>janet_core_lookup_table = Map.empty, capnp_janet_register = (\<lambda>t. t(''s'' \<mapsto> JFun ''s1'')),
      janet_cfuns = (\<lambda>t p xs. t ++ map_of xs), trace_build = False, trace_cfun = (\<lambda>_. JNil), janet_env_lookup_into = (++),
      table_data = (\<lambda>t. [None, map_option (\<lambda>v. (''s'', v)) (t ''s'')]),
      unmarshal_with = (\<lambda>b t. case b of
          CHR ''N'' # s \<Rightarrow> map_option (\<lambda>x. JTuple [x, JNil]) (t s)
        | CHR ''F'' # f \<Rightarrow> Some (JTuple [JFun f, JNil])
        | _ \<Rightarrow> None),
      marshal_with = (\<lambda>v names. case v of
          JTuple [JFun f, JNil] \<Rightarrow> Some (case names (JFun f) of Some s \<Rightarrow> CHR ''N'' # s | None \<Rightarrow> CHR ''F'' # f)
        | _ \<Rightarrow> None)\<rparr>"

definition marshal_vm :: "(string list, string) vm" where
  "marshal_vm = with_tables demo_tables demo_vm"

lemma demo_tables_ok: "slots_are_entries demo_tables" "marshal_inverts demo_tables"
proof -
  show "slots_are_entries demo_tables"
    by (auto simp: slots_are_entries_def demo_tables_def pack_image_forward_def pack_cfun_env_def PD_TRACE_REGISTER_JANET_def)
  show "marshal_inverts demo_tables"
    unfolding marshal_inverts_def
  proof (intro allI impI)
    fix fwd :: "string lookup" and names :: "string names" and x b
    assume n: "\<forall>v s. names v = Some s \<longrightarrow> fwd s = Some v" and m: "marshal_with demo_tables x names = Some b"
    obtain f where x: "x = JTuple [JFun f, JNil]"
      and b: "b = (case names (JFun f) of Some s \<Rightarrow> CHR ''N'' # s | None \<Rightarrow> CHR ''F'' # f)"
      using m by (auto simp: demo_tables_def split: jval.splits list.splits)
    show "b \<noteq> [] \<and> unmarshal_with demo_tables b fwd = Some x"
      using n unfolding x b by (cases "names (JFun f)") (simp_all add: demo_tables_def)
  qed
qed

lemma image_round_trip_witness:
  "let r = phronesis_pack_image_write marshal_vm ''/opt/law/a.janet'' ''/opt/law/a.jimage'' law_world initial_host
   in fst r \<and> fst (load_pack_image marshal_vm (fst (snd r)) ''/opt/law/a.janet'' (initial_host :: string pack_host)) = Some (Some ''s1'', None)"
proof -
  let ?p = "''/opt/law/a.janet''" and ?o = "''/opt/law/a.jimage''" and ?i = "initial_host :: string pack_host"
  define r where "r = phronesis_pack_image_write marshal_vm ?p ?o law_world ?i"
  have k: "w_canon law_world ?o = [''opt'', ''law'', ''a.jimage'']" by code_simp
  have f1: "fst r" unfolding r_def by code_simp
  then have wr: "phronesis_pack_image_write marshal_vm ?p ?o law_world ?i = (True, fst (snd r), snd (snd r))"
    by (simp add: r_def [symmetric] prod_eq_iff)
  have ip: "pack_image_path ?p PACK_PATH_MAX = Some ?o" by code_simp
  have c: "fst (compile_pack marshal_vm law_world ?p (?i\<lparr>janet_inited := True\<rparr>)) = Some (Some ''s1'', None)" by code_simp
  from image_write_effect [OF wr root_ok_initial] obtain s a h b
    where sa: "fst (compile_pack marshal_vm law_world ?p (?i\<lparr>janet_inited := True\<rparr>)) = Some (s, a)"
    and b0: "janet_marshal marshal_vm (JTuple [jval_of s, jval_of a]) = Some b"
    and put: "file_put (w_canon law_world ?o)
      (PACK_IMAGE_MAGIC @ janet_version marshal_vm @ [newline] @ hex_fixed 16 (unat (h :: 64 word)) @ [newline] @ b) law_world (fst (snd r))" .
  have b: "janet_marshal marshal_vm (JTuple [jval_of (Some ''s1''), jval_of None]) = Some b"
    using b0 sa unfolding c by simp
  have "janet_marshal marshal_vm (JTuple [jval_of (Some ''s1''), jval_of None]) = Some ''Ns''" by code_simp
  then have len: "b = ''Ns''" "length PACK_IMAGE_MAGIC = 23" "janet_version marshal_vm = ''1.0''"
    using b by (simp_all add: marshal_vm_def with_tables_def demo_vm_def PACK_IMAGE_MAGIC_def)
  have "fst (open_on_root (law_world\<lparr>w_fs := (w_fs law_world)([''opt'', ''law'', ''a.jimage''] \<mapsto> Reg x)\<rparr>) ?o ?i) = Some [''opt'', ''law'', ''a.jimage'']" for x
    by code_simp
  then have op: "open_on_root (fst (snd r)) ?o ?i = (Some (w_canon law_world ?o), snd (open_on_root (fst (snd r)) ?o ?i))"
    using put unfolding file_put_def k by (simp add: prod_eq_iff)
  have hl: "pack_sources law_world ?p = [?p]" "opened_at law_world ?p = Some [''opt'', ''law'', ''a.janet'']" by code_simp+
  have src: "\<forall>f \<in> set (pack_sources law_world ?p). opened_at law_world f \<noteq> Some (w_canon law_world ?o)" using hl k by simp
  have sz: "\<forall>b. w_fs (fst (snd r)) (w_canon law_world ?o) = Some (Reg b) \<longrightarrow> length b \<le> PACK_IMAGE_MAX"
    using file_put_sel(6) [OF put] len by (simp add: PACK_IMAGE_MAX_def)
  from image_round_trip [OF wr [unfolded marshal_vm_def] ip root_ok_initial root_ok_initial op src demo_tables_ok sz, folded marshal_vm_def] c
  have "fst (load_pack_image marshal_vm (fst (snd r)) ?p ?i) = Some (Some ''s1'', None)" by auto
  then show ?thesis using f1 unfolding r_def [symmetric] Let_def by simp
qed

end
