(* ===== verification/Restart.thy ===== *)
theory Restart
  imports Supervisor
begin

text \<open>
  The slot file as the memory of a seat across processes: what a successful \<open>start\<close> or \<open>bind\<close> of one supervisor
  leaves on disk, a supervisor that another process opens on the same directories finds again, and with it
  the workspace an agent is committed to.
\<close>

text \<open>The slot file of agent \<open>k\<close> holds slot \<open>a\<close>.\<close>

definition on_disk :: "supervisor \<Rightarrow> string \<Rightarrow> agent_slot \<Rightarrow> world \<Rightarrow> bool" where
  "on_disk s k a w \<longleftrightarrow> (\<exists>p. slot_path s k PHRONESIS_PATH_MAX = Some p \<and> w_fs w (w_canon w p) = Some (Reg (slot_line a)))"

text \<open>The action log is a file of its own: its path does not resolve to a slot file.\<close>

definition log_apart :: "supervisor \<Rightarrow> string \<Rightarrow> world \<Rightarrow> bool" where
  "log_apart s k w \<longleftrightarrow> (\<forall>p. slot_path s k PHRONESIS_PATH_MAX = Some p \<longrightarrow> w_canon w p \<noteq> w_canon w (action_log s))"

section \<open>The log leaves the slot files alone\<close>

lemma fopen_wa_other: "fopen_wa t p w = (b, w') \<Longrightarrow> k \<noteq> w_canon w p \<Longrightarrow> w_fs w' k = w_fs w k \<and> w_canon w' = w_canon w"
  by (auto simp: fopen_wa_def put_node_def split: if_splits option.splits node.splits)

lemma fput_other: "fput p d w = (r, w') \<Longrightarrow> k \<noteq> w_canon w p \<Longrightarrow> w_fs w' k = w_fs w k \<and> w_canon w' = w_canon w"
  by (auto simp: fput_def put_bytes_def put_node_def split: if_splits option.splits node.splits)

lemma log_append_other:
  assumes a: "phronesis_action_log_append (Some p) aid kd d w = (r, w')" and k: "k \<noteq> w_canon w p"
  shows "w_fs w' k = w_fs w k \<and> w_canon w' = w_canon w"
proof -
  obtain b w1 where o: "fopen_wa False p w = (b, w1)" by fastforce
  have o1: "w_fs w1 k = w_fs w k" "w_canon w1 = w_canon w" using fopen_wa_other [OF o k] by auto
  have f: "w_fs v k = w_fs w k \<and> w_canon v = w_canon w" if "fput p x w1 = (q, v)" for x q v
    using fput_other [OF that] k o1 by simp
  show ?thesis using a f o1 o
    by (auto simp: phronesis_action_log_append_def split: if_splits option.splits bool.splits prod.splits put_result.splits)
qed

lemma log_event_other: "k \<noteq> w_canon w (action_log s) \<Longrightarrow> w_fs (log_event s aid kd d w) k = w_fs w k \<and> w_canon (log_event s aid kd d w) = w_canon w"
  unfolding log_event_def by (metis log_append_other prod.collapse)

lemma log_event_canon: "w_canon (log_event s aid kd d w) = w_canon w"
proof -
  have "w_canon v = w_canon w" if "fopen_wa t p w = (b, v)" for t p b v
    using that by (auto simp: fopen_wa_def put_node_def split: if_splits option.splits node.splits)
  moreover have "w_canon v = w_canon u" if "fput q x u = (b, v)" for q x b u v
    using that by (auto simp: fput_def put_bytes_def put_node_def split: if_splits option.splits node.splits)
  ultimately show ?thesis unfolding log_event_def phronesis_action_log_append_def
    by (simp split: option.split prod.split bool.split put_result.split)
qed

text \<open>A slot written with success and logged afterwards is on disk.\<close>

lemma saved:
  assumes wr: "write_slot s a w = (OK, w1)" and g: "slot_id a = k" and l: "action_log s2 = action_log s"
    and ap: "log_apart s k (log_event s2 aid kd d w1)"
  shows "on_disk s k a (log_event s2 aid kd d w1)"
proof -
  obtain p where p: "slot_path s k PHRONESIS_PATH_MAX = Some p" "w_fs w1 (w_canon w p) = Some (Reg (slot_line a))"
    using write_slot_ok [OF wr] g by auto
  have c: "w_canon w1 = w_canon w" using fs_only_sel(1) [OF write_slot_fs_only [of w s a]] wr by simp
  have "w_canon w1 p \<noteq> w_canon w1 (action_log s2)" using ap p(1) l by (simp add: log_apart_def log_event_canon)
  then have "w_fs (log_event s2 aid kd d w1) (w_canon w p) = Some (Reg (slot_line a))"
    using log_event_other p(2) c by metis
  then show ?thesis using p(1) c by (auto simp: on_disk_def log_event_canon)
qed

lemma same_dirs:
  assumes "agents_dir s' = agents_dir s" "action_log s' = action_log s"
  shows "on_disk s' k a w = on_disk s k a w" "log_apart s' k w = log_apart s k w"
  using assms by (simp_all add: on_disk_def log_apart_def slot_path_def)

section \<open>What a successful bind or start leaves on disk\<close>

lemma bind_slot_saved:
  assumes h: "slot_handle k s0 i s" and g: "good_slot k a" and b: "bind_slot i k a d s w = (OK, s', w')" and ap: "log_apart s' k w'"
  shows "view s' k = Some a \<and> on_disk s' k a w' \<and> agents_dir s' = agents_dir s0"
proof -
  obtain w1 where wr: "write_slot s a w = (OK, w1)" and s': "s' = set_slot i a s" and w': "w' = log_event s (Some k) ''bind'' d w1"
    using b by (auto simp: bind_slot_def split: prod.splits if_splits)
  have d: "agents_dir s' = agents_dir s" "action_log s' = action_log s" using s' by simp_all
  have "on_disk s k a w'" using saved [OF wr _ refl] g ap unfolding w' same_dirs [OF d] by (simp add: good_slot_def)
  then show ?thesis using slot_handle_view [OF h g] h unfolding same_dirs [OF d] by (simp add: s' slot_handle_def only_agent_def)
qed

lemma bind_saved:
  assumes ok: "sup_ok s" and b: "bind_body (Some k) m ws pid s w = (OK, s', w')" and ap: "log_apart s' k w'"
  shows "\<exists>a. good_slot k a \<and> view s' k = Some a \<and> on_disk s' k a w' \<and> agents_dir s' = agents_dir s"
proof -
  have args: "valid_id (Some k)" "arg_ok m PHRONESIS_MODE_MAX" "arg_ok ws PHRONESIS_PATH_MAX" "\<not> pid < 0"
    using b by (auto simp: bind_body_def arg_ok_def split: if_splits)
  obtain q s1 where ld: "load_agent s k w = (q, s1)" by fastforce
  show ?thesis
  proof (cases q)
    case (Inr i)
    obtain a w1 where rp: "reap_slot (agents s1 ! i) w = (a, w1)" by fastforce
    have h: "slot_handle k s i s1" by (rule load_handle [OF ok args(1) ld [unfolded Inr]])
    then have ga: "good_slot k a" using reap_slot_good [OF rp] by (simp add: slot_handle_def)
    have "\<exists>d a'. good_slot k a' \<and> bind_slot i k a' d s1 w1 = (OK, s', w')"
      using b ld Inr rp args bound_slot_good [OF ga args(2,3)] filled_slot_good [OF ga args(3)]
      by (auto simp: bind_body_def arg_ok_def Let_def split: if_splits)
    then show ?thesis using bind_slot_saved [OF h _ _ ap] by blast
  next
    case (Inl e)
    then obtain i s2 where al: "alloc_named s k = Some (i, s2)" and e: "e = ERR_NOTFOUND"
      and bs: "bind_slot i k (bound_slot (agents s2 ! i) m ws pid) (''bind pid='' @ show_int pid) s2 w = (OK, s', w')"
      using b ld args load_failed_same [of s k w e s1]
      by (auto simp: bind_body_def arg_ok_def load_agent_def read_slot_file_def split: if_splits option.splits sum.splits)
    have n: "find_mem s k = None" using load_NOTFOUND ld Inl e by blast
    have h: "slot_handle k s i s2" by (rule alloc_handle [OF ok args(1) n al])
    have g: "good_slot k (bound_slot (agents s2 ! i) m ws pid)" using h args by (intro bound_slot_good) (auto simp: slot_handle_def)
    show ?thesis using bind_slot_saved [OF h g bs ap] g by blast
  qed
qed

lemma spawn_saved:
  assumes h: "slot_handle k s0 i s" and m: "arg_ok m PHRONESIS_MODE_MAX" and ws: "arg_ok ws PHRONESIS_PATH_MAX"
    and sp: "spawn i k m ws cmd s w = (OK, s', w')" and ap: "log_apart s' k w'"
  shows "\<exists>a. good_slot k a \<and> view s' k = Some a \<and> on_disk s' k a w' \<and> agents_dir s' = agents_dir s0"
proof -
  obtain pid w1 where f: "fork_group w = (Some pid, w1)" using sp by (auto simp: spawn_def split: prod.splits option.splits)
  obtain r2 cg w2 where c: "phronesis_cgroup_create (Some (runtime_dir s)) (Some k) PHRONESIS_PATH_MAX w1 = (r2, cg, w2)"
    by (metis prod.collapse)
  have cgl: "length cg < PHRONESIS_PATH_MAX" using cgroup_create_path [OF c] by (cases "cg = []") auto
  obtain r3 w3 where at: "(if r2 = OK \<and> cg \<noteq> [] then phronesis_cgroup_attach cg pid w2 else (OK, w2)) = (r3, w3)"
    by fastforce
  let ?a = "(started_slot (agents s ! i) m ws pid)\<lparr>cgroup_path := (if r3 = OK then cg else [])\<rparr>"
  have ga: "good_slot k ?a" using h m ws cgl by (intro started_slot_good) (auto simp: slot_handle_def)
  obtain w4 kd d where wr: "write_slot s ?a w3 = (OK, w4)" and s': "s' = set_slot i ?a s" and w': "w' = log_event s (Some k) kd d w4"
    using sp unfolding spawn_def f c prod.case option.case Let_def at by (auto split: prod.splits if_splits)
  have dirs: "agents_dir s' = agents_dir s" "action_log s' = action_log s" using s' by simp_all
  have "on_disk s k ?a w'" using saved [OF wr _ refl] ga ap unfolding w' same_dirs [OF dirs] by (simp add: good_slot_def)
  then show ?thesis using ga slot_handle_view [OF h ga] h unfolding same_dirs [OF dirs] by (auto simp: s' slot_handle_def only_agent_def)
qed

lemma start_saved:
  assumes ok: "sup_ok s" and b: "start_body (Some k) m ws argv s w = (OK, s', w')" and ap: "log_apart s' k w'"
  shows "\<exists>a. good_slot k a \<and> view s' k = Some a \<and> on_disk s' k a w' \<and> agents_dir s' = agents_dir s"
proof -
  have args: "valid_id (Some k)" "arg_ok m PHRONESIS_MODE_MAX" "arg_ok ws PHRONESIS_PATH_MAX"
    using b by (auto simp: start_body_def arg_ok_def split: if_splits)
  obtain q s1 where ld: "load_agent s k w = (q, s1)" by fastforce
  show ?thesis
  proof (cases q)
    case (Inr i)
    obtain a w1 where rp: "reap_slot (agents s1 ! i) w = (a, w1)" by fastforce
    note l = ld [unfolded Inr]
    have h: "slot_handle k s i s1" by (rule load_handle [OF ok args(1) l])
    then have ga: "good_slot k a" using reap_slot_good [OF rp] by (simp add: slot_handle_def)
    have h2: "slot_handle k s i (set_slot i a s1)" using slot_handle_set [OF h ga loaded_index [OF ok args(1) l]] .
    have "spawn i k m ws (hd (the argv)) (set_slot i a s1) w1 = (OK, s', w')"
      using b ld Inr rp args by (auto simp: start_body_def arg_ok_def split: if_splits)
    from spawn_saved [OF h2 args(2,3) this ap] show ?thesis .
  next
    case (Inl e)
    then obtain i s2 where al: "alloc_named s k = Some (i, s2)" and e: "e = ERR_NOTFOUND"
      and bs: "spawn i k m ws (hd (the argv)) s2 w = (OK, s', w')"
      using b ld args load_failed_same [of s k w e s1]
      by (auto simp: start_body_def arg_ok_def load_agent_def read_slot_file_def split: if_splits option.splits sum.splits)
    have n: "find_mem s k = None" using load_NOTFOUND ld Inl e by blast
    have h: "slot_handle k s i s2" by (rule alloc_handle [OF ok args(1) n al])
    from spawn_saved [OF h args(2,3) bs ap] show ?thesis .
  qed
qed

section \<open>Another process\<close>

lemma open_has_room:
  assumes "phronesis_supervisor_open mem st rt w = (Inr s, w')"
  shows "\<exists>i s1. alloc_mem s = Some (i, s1)"
proof -
  have "agents s = replicate PHRONESIS_MAX_AGENTS zero_slot"
    using assms by (auto simp: phronesis_supervisor_open_def Let_def split: if_splits prod.splits sum.splits)
  moreover have "find_index (\<lambda>a. \<not> in_use a) 0 (replicate PHRONESIS_MAX_AGENTS zero_slot) = Some 0" by code_simp
  ultimately show ?thesis by (simp add: alloc_mem_def)
qed

text \<open>What the fresh supervisor loads.\<close>

lemma reopened:
  assumes d: "on_disk s k a w" and g: "good_slot k a" and op: "phronesis_supervisor_open mem st rt w = (Inr s2, w2)"
    and ad: "agents_dir s2 = agents_dir s" and rd: "\<not> w_fault w2 IoOpen (agents_dir s @ ''/'' @ k @ ''.slot'')"
  shows "\<exists>i s3. load_agent s2 k w2 = (Inr i, s3) \<and> sup_ok s3 \<and> slot_ref s3 k i \<and> agents s3 ! i = stored a"
proof -
  have a: "slot_ok a" "slot_id a = k" using g by (simp_all add: good_slot_def)
  obtain p where p: "slot_path s k PHRONESIS_PATH_MAX = Some p" "w_fs w (w_canon w p) = Some (Reg (slot_line a))"
    using d by (auto simp: on_disk_def)
  have pt: "p = agents_dir s @ ''/'' @ k @ ''.slot''" using p(1) by (auto simp: slot_path_def Let_def split: if_splits)
  have p2: "slot_path s2 k PHRONESIS_PATH_MAX = Some p" using p(1) ad by (simp add: slot_path_def)
  note da = open_dirs_added [OF op]
  have "w_canon w2 = w_canon w" using da by (simp add: dirs_added_def fs_only_sel)
  moreover have "w_fs w2 (w_canon w p) = Some (Reg (slot_line a))" using da p(2) unfolding dirs_added_def by (metis option.distinct(1))
  ultimately have "fopen_r w2 p = Some (slot_line a)" using rd pt by (simp add: fopen_r_def)
  then have rf: "read_slot_file s2 k w2 = Inr (stored a)" using read_stored [of a s2 p w2] a p2 by simp
  have nf: "find_mem s2 k = None" using open_sup_ok(2) [OF op] by (simp add: view_def)
  obtain i s1 where al: "alloc_mem s2 = Some (i, s1)" using open_has_room [OF op] by blast
  have k: "valid_id (Some k)" using a by (simp add: slot_ok_def)
  note put = alloc_put [OF open_sup_ok(1) [OF op] nf al read_slot_good [OF rf k]]
  have "load_agent s2 k w2 = (Inr i, set_slot i (stored a) s1)" using rf nf al by (simp add: load_agent_def)
  moreover have "agents (set_slot i (stored a) s1) ! i = stored a" using alloc_mem_free [OF al] by simp
  ultimately show ?thesis using put by blast
qed

text \<open>C15: A seat survives the process that made it. When \<open>bind\<close> or \<open>start\<close> returns OK for an agent and its log is
  not the slot file, a supervisor opened afterwards in another process on the same directories loads the agent
  with the same state, process, group, mode and workspace (up to a field that is a single dash), whatever else
  opening had to create. And the commitment survives too: if the new process finds the agent still
  running with a workspace, no bind there with valid arguments can change it.\<close>

theorem restart_recovers:
  assumes ok: "sup_ok s"
    and sv: "phronesis_supervisor_bind (Some s) (Some k) m ws pid w = (OK, Some s', w')
      \<or> phronesis_supervisor_start (Some s) (Some k) m ws argv w = (OK, Some s', w')"
    and ap: "log_apart s' k w'"
    and op: "phronesis_supervisor_open mem st rt w' = (Inr s2, w2)" and ad: "agents_dir s2 = agents_dir s"
    and rd: "\<not> w_fault w2 IoOpen (agents_dir s @ ''/'' @ k @ ''.slot'')"
  shows "\<exists>a i s3. view s' k = Some a \<and> load_agent s2 k w2 = (Inr i, s3) \<and> sup_ok s3 \<and> view s3 k = Some (stored a)
    \<and> (slot_state (fst (reap_slot (stored a) w2)) = AGENT_RUNNING \<and> slot_workspace (fst (reap_slot (stored a) w2)) \<noteq> [] \<longrightarrow>
        (\<forall>m' ws' pid' r s4 w4. bind_args_ok (Some k) m' ws' pid' \<longrightarrow> phronesis_supervisor_bind (Some s2) (Some k) m' ws' pid' w2 = (r, Some s4, w4) \<longrightarrow>
           r = ERR_EXISTS \<and> (\<exists>b. view s4 k = Some b \<and> slot_workspace b = slot_workspace (fst (reap_slot (stored a) w2)))))"
proof -
  obtain a where a: "good_slot k a" "view s' k = Some a" "on_disk s' k a w'" "agents_dir s' = agents_dir s"
    using sv bind_saved [OF ok _ ap] start_saved [OF ok _ ap] unfolding sup_ops by blast
  have "agents_dir s2 = agents_dir s'" "\<not> w_fault w2 IoOpen (agents_dir s' @ ''/'' @ k @ ''.slot'')" using ad rd a(4) by simp_all
  from reopened [OF a(3,1) op this] obtain i s3 where l: "load_agent s2 k w2 = (Inr i, s3)" "sup_ok s3" "slot_ref s3 k i" "agents s3 ! i = stored a"
    by blast
  obtain b w1 where rp: "reap_slot (agents s3 ! i) w2 = (b, w1)" by fastforce
  have st: "r = ERR_EXISTS \<and> view s4 k = Some b"
    if "slot_state b = AGENT_RUNNING" "slot_workspace b \<noteq> []" "bind_args_ok (Some k) m' ws' pid'" "bind_body (Some k) m' ws' pid' s2 w2 = (r, s4, w4)"
    for m' ws' pid' r s4 w4
    using bind_found [OF open_sup_ok(1) [OF op] that(3) l(1) rp that(4)] that(1,2) by (auto simp: bind_result_def)
  have v: "view s3 k = Some (stored a)" using view_ref [OF l(2,3)] l(4) by simp
  have b: "fst (reap_slot (stored a) w2) = b" using rp l(4) by simp
  show ?thesis unfolding b [symmetric]
    by (rule exI [of _ a], rule exI [of _ i], rule exI [of _ s3]) (use a(2) l(1,2) v b st in \<open>auto simp: sup_ops\<close>)
qed

text \<open>Agent \<open>a1\<close> is bound to \<open>/w\<close> by one process; another opens the same directories.\<close>

definition bound_once :: "rc \<times> supervisor option \<times> world" where
  "bound_once = phronesis_supervisor_bind (Some demo_sup) (Some ''a1'') None (Some ''/w'') 0 (snd demo_open)"

definition reopened_once :: "(rc + supervisor) \<times> world" where
  "reopened_once = phronesis_supervisor_open True (Some ''/h/s'') (Some ''/h/r'') (snd (snd bound_once))"

lemma restart_recovers_witness:
  "\<exists>i s3 a. load_agent demo_sup ''a1'' (snd reopened_once) = (Inr i, s3) \<and> view s3 ''a1'' = Some (stored a)
     \<and> (\<exists>s'. fst (snd bound_once) = Some s' \<and> view s' ''a1'' = Some a)"
proof -
  have b: "fst bound_once = OK" by code_simp
  obtain r so w' where bo: "bound_once = (r, so, w')" by (metis prod.collapse)
  obtain s' where s': "so = Some s'" using bo by (auto simp: bound_once_def phronesis_supervisor_bind_def with_sup_def split: prod.splits)
  have sv: "phronesis_supervisor_bind (Some demo_sup) (Some ''a1'') None (Some ''/w'') 0 (snd demo_open) = (OK, Some s', w')"
    using bo b s' by (simp add: bound_once_def)
  have op: "fst reopened_once = Inr demo_sup" by code_simp
  have op': "phronesis_supervisor_open True (Some ''/h/s'') (Some ''/h/r'') w' = (Inr demo_sup, snd reopened_once)"
    using op bo by (simp add: reopened_once_def prod_eq_iff)
  have ok: "sup_ok demo_sup" using open_sup_ok(1) [OF demo_open_ok [unfolded demo_open_def]] .
  have dirs: "agents_dir s' = agents_dir demo_sup" "action_log s' = action_log demo_sup"
    using bind_effect [OF ok, of "Some ''a1''" None "Some ''/w''" 0] sv by (auto simp: sup_ops only_agent_def or_empty_def)
  have w': "w' = snd (snd bound_once)" using bo by (metis snd_conv)
  have c: "w_canon w' ''/h/r/agents/a1.slot'' = [''h'', ''r'', ''agents'', ''a1.slot'']" unfolding w' by code_simp
  have d: "w_canon w' ''/h/s/log/actions.jsonl'' = [''h'', ''s'', ''log'', ''actions.jsonl'']" unfolding w' by code_simp
  have ap: "log_apart s' ''a1'' w'"
    using c d dirs by (auto simp: log_apart_def slot_path_def demo_sup_def Let_def split: if_splits)
  have "\<not> w_fault (snd reopened_once) IoOpen ''/h/r/agents/a1.slot''" by code_simp
  then have rd: "\<not> w_fault (snd reopened_once) IoOpen (agents_dir demo_sup @ ''/'' @ ''a1'' @ ''.slot'')" by (simp add: demo_sup_def)
  from restart_recovers [OF ok disjI1 [OF sv] ap op' refl rd] obtain a i s3 where
    x: "view s' ''a1'' = Some a" "load_agent demo_sup ''a1'' (snd reopened_once) = (Inr i, s3)" "view s3 ''a1'' = Some (stored a)"
    by blast
  have "fst (snd bound_once) = Some s'" using bo s' by (metis fst_conv snd_conv)
  with x show ?thesis by blast
qed

end
