(* ===== verification/Slot_Race.thy ===== *)
theory Slot_Race
  imports Supervisor
begin

text \<open>
  The writer of slot files, \<open>write_slot\<close> of src/supervisor.c, one system call at a time, as many processes on
  one directory run it at once. The comment in the code claims that processes which write the same slot each
  rename a whole file into place, and that none truncates or renames away the file another is writing. Here
  a process is a phase, any process may move at any time, a line may reach the temporary file in pieces, a
  process may die in any phase and its pid may come back, and the host may do whatever leaves the entries of
  the directory alone. Processes have distinct pids; the threads of one process are not told apart, and a
  stream that is handed over is on disk.
\<close>

section \<open>Names\<close>

definition slot_name :: "string \<Rightarrow> string" where
  "slot_name k = k @ ''.slot''"

definition tmp_name :: "string \<Rightarrow> pid_t \<Rightarrow> string" where
  "tmp_name k p = slot_name k @ ''.tmp.'' @ show_int p"

definition slot_file :: "supervisor \<Rightarrow> string \<Rightarrow> string" where
  "slot_file s k = agents_dir s @ slash # slot_name k"

definition slot_tmp :: "supervisor \<Rightarrow> string \<Rightarrow> pid_t \<Rightarrow> string" where
  "slot_tmp s k p = agents_dir s @ slash # tmp_name k p"

section \<open>The writer, call by call\<close>

text \<open>Where a writer is: before an \<open>fopen\<close> (the first one or the second), before the \<open>unlink\<close> of a name
  left behind, with the rest of the line still to be written, before \<open>rename\<close>, before the \<open>unlink\<close> that
  follows a failure, or back at its caller with a code.\<close>

datatype phase =
  Opening bool agent_slot | Removing agent_slot | Writing agent_slot bytes | Renaming agent_slot
  | Undoing agent_slot | Returned rc

text \<open>The next call of the writer with pid \<open>p\<close>; of a line that is being written, at most \<open>n\<close> bytes go out.\<close>

fun writer_step :: "supervisor \<Rightarrow> pid_t \<Rightarrow> nat \<Rightarrow> phase \<Rightarrow> world \<Rightarrow> phase \<times> world" where
  "writer_step s p n (Opening first a) w =
     (case fopen_wx (slot_tmp s (slot_id a) p) w of
        (None, w1) \<Rightarrow> (Writing a (slot_line a), w1)
      | (Some e, w1) \<Rightarrow> (if first \<and> e = EEXIST then Removing a else Returned ERR_IO, w1))"
| "writer_step s p n (Removing a) w = (Opening False a, unlink (slot_tmp s (slot_id a) p) w)"
| "writer_step s p n (Writing a r) w =
     (case fput (slot_tmp s (slot_id a) p) (take n r) w of
        (PutOk, w1) \<Rightarrow> (if drop n r = [] then Renaming a else Writing a (drop n r), w1)
      | (_, w1) \<Rightarrow> (Undoing a, w1))"
| "writer_step s p n (Renaming a) w =
     (case rename (slot_tmp s (slot_id a) p) (slot_file s (slot_id a)) w of
        (True, w1) \<Rightarrow> (Returned OK, w1)
      | (False, w1) \<Rightarrow> (Undoing a, w1))"
| "writer_step s p n (Undoing a) w = (Returned ERR_IO, unlink (slot_tmp s (slot_id a) p) w)"
| "writer_step s p n (Returned r) w = (Returned r, w)"

text \<open>The slot that a step has put in place: the one whose \<open>rename\<close> went through.\<close>

fun committed :: "phase \<Rightarrow> phase \<Rightarrow> agent_slot list" where
  "committed (Renaming a) (Returned r) = [a]"
| "committed _ _ = []"

section \<open>All processes\<close>

text \<open>A state: the phase of every pid, the slots put in place so far (the latest first) and the host. A
  process enters the writer from any phase, so that a process that died is followed by another of the same pid.\<close>

type_synonym race_state = "(pid_t \<Rightarrow> phase) \<times> agent_slot list \<times> world"

definition writer_enters :: "supervisor \<Rightarrow> agent_slot \<Rightarrow> pid_t \<Rightarrow> bool" where
  "writer_enters s a p \<longleftrightarrow> slot_ok a \<and> snprintf_fits PHRONESIS_PATH_MAX (slot_tmp s (slot_id a) p)"

definition leaves_dir :: "string list \<Rightarrow> world \<Rightarrow> world \<Rightarrow> bool" where
  "leaves_dir D w w' \<longleftrightarrow> w_canon w' = w_canon w \<and> (\<forall>n. w_fs w' (D @ [n]) = w_fs w (D @ [n]))"

inductive race :: "supervisor \<Rightarrow> string list \<Rightarrow> race_state \<Rightarrow> race_state \<Rightarrow> bool" for s D where
  enter: "writer_enters s a p \<Longrightarrow> race s D (ph, done_list, w) (ph(p := Opening True a), done_list, w)"
| move: "writer_step s p n (ph p) w = (q, w') \<Longrightarrow>
    race s D (ph, done_list, w) (ph(p := q), committed (ph p) q @ done_list, w')"
| host: "leaves_dir D w w' \<Longrightarrow> race s D (ph, done_list, w) (ph, done_list, w')"

text \<open>Nobody is writing.\<close>

definition quiet :: "pid_t \<Rightarrow> phase" where
  "quiet = (\<lambda>_. Returned OK)"

text \<open>The names in the slot directory resolve to entries of \<open>D\<close>.\<close>

definition plain_dir :: "string \<Rightarrow> string list \<Rightarrow> world \<Rightarrow> bool" where
  "plain_dir d D w \<longleftrightarrow> (\<forall>n. plain_comp n \<longrightarrow> w_canon w (d @ slash # n) = D @ [n])"

section \<open>The names of different writers\<close>

lemma id_char_no_dot: "id_char c \<Longrightarrow> c \<noteq> CHR ''.'' \<and> c \<noteq> slash \<and> c \<noteq> NUL"
  by (auto simp: id_char_def Let_def)

lemma valid_id_chars:
  assumes "valid_id (Some k)"
  shows "k \<noteq> []" "CHR ''.'' \<notin> set k" "slash \<notin> set k" "NUL \<notin> set k"
  using assms id_char_no_dot by (auto simp: valid_id_def list_all_iff)

lemma takeWhile_id:
  assumes "valid_id (Some k)"
  shows "takeWhile (\<lambda>c. c \<noteq> CHR ''.'') (k @ CHR ''.'' # r) = k"
proof -
  have "\<forall>c \<in> set k. c \<noteq> CHR ''.''" using valid_id_chars(2) [OF assms] by blast
  then show ?thesis by (simp add: takeWhile_append2)
qed

lemma name_id:
  assumes "valid_id (Some k)"
  shows "takeWhile (\<lambda>c. c \<noteq> CHR ''.'') (slot_name k) = k" "takeWhile (\<lambda>c. c \<noteq> CHR ''.'') (tmp_name k p) = k"
  using takeWhile_id [OF assms] by (simp_all add: slot_name_def tmp_name_def)

lemma show_int_inject: "show_int i = show_int j \<Longrightarrow> i = j"
  using scan_show_int [of "[]" i] scan_show_int [of "[]" j] by simp

lemma slot_name_inject: "valid_id (Some k) \<Longrightarrow> valid_id (Some k') \<Longrightarrow> slot_name k = slot_name k' \<Longrightarrow> k = k'"
  by (metis name_id(1))

lemma tmp_name_inject:
  assumes "valid_id (Some k)" "valid_id (Some k')" "tmp_name k p = tmp_name k' p'"
  shows "k = k' \<and> p = p'"
proof -
  have "k = k'" using name_id(2) assms by metis
  then show ?thesis using assms(3) show_int_inject by (auto simp: tmp_name_def)
qed

lemma tmp_not_slot: "valid_id (Some k) \<Longrightarrow> valid_id (Some k') \<Longrightarrow> tmp_name k p \<noteq> slot_name k'"
proof
  assume v: "valid_id (Some k)" "valid_id (Some k')" and e: "tmp_name k p = slot_name k'"
  have "k = k'" using name_id(2) [OF v(1)] name_id(1) [OF v(2)] e by metis
  then show False using e by (simp add: tmp_name_def slot_name_def)
qed


text \<open>Both names are entries of the directory.\<close>

lemma show_int_plain: "slash \<notin> set (show_int i)" "NUL \<notin> set (show_int i)"
proof -
  have "\<not> is_digit slash" "\<not> is_digit NUL" by (simp_all add: is_digit_def)
  then show "slash \<notin> set (show_int i)" "NUL \<notin> set (show_int i)"
    using is_digit_show_nat by (auto simp: show_int_def)
qed

lemma plain_long: "6 \<le> length n \<Longrightarrow> slash \<notin> set n \<Longrightarrow> NUL \<notin> set n \<Longrightarrow> plain_comp n"
  by (auto simp: plain_comp_def)

lemma plain_comp_names:
  assumes k: "valid_id (Some k)"
  shows "plain_comp (slot_name k)" "plain_comp (tmp_name k p)"
proof -
  have "slash \<notin> set ''.slot''" "NUL \<notin> set ''.slot''" "slash \<notin> set ''.tmp.''" "NUL \<notin> set ''.tmp.''"
    by simp_all
  then have n: "6 \<le> length (slot_name k)" "slash \<notin> set (slot_name k)" "NUL \<notin> set (slot_name k)"
    and m: "6 \<le> length (tmp_name k p)" "slash \<notin> set (tmp_name k p)" "NUL \<notin> set (tmp_name k p)"
    using valid_id_chars [OF k] show_int_plain [of p] by (cases k; simp add: slot_name_def tmp_name_def)+
  show "plain_comp (slot_name k)" "plain_comp (tmp_name k p)" using plain_long [OF n] plain_long [OF m] .
qed

lemma plain_names:
  assumes "plain_dir d D w" "valid_id (Some k)"
  shows "w_canon w (d @ slash # slot_name k) = D @ [slot_name k]" "w_canon w (d @ slash # tmp_name k p) = D @ [tmp_name k p]"
  using assms plain_comp_names [of k] unfolding plain_dir_def by blast+

section \<open>One step\<close>

fun phase_slot :: "phase \<Rightarrow> agent_slot option" where
  "phase_slot (Opening _ a) = Some a"
| "phase_slot (Removing a) = Some a"
| "phase_slot (Writing a _) = Some a"
| "phase_slot (Renaming a) = Some a"
| "phase_slot (Undoing a) = Some a"
| "phase_slot (Returned _) = None"

text \<open>What a writer relies on: its temporary file holds what it has written so far.\<close>

fun tmp_holds :: "string list \<Rightarrow> world \<Rightarrow> pid_t \<Rightarrow> phase \<Rightarrow> bool" where
  "tmp_holds D w p (Writing a r) =
     (\<exists>pre. slot_line a = pre @ r \<and> w_fs w (D @ [tmp_name (slot_id a) p]) = Some (Reg pre))"
| "tmp_holds D w p (Renaming a) = (w_fs w (D @ [tmp_name (slot_id a) p]) = Some (Reg (slot_line a)))"
| "tmp_holds D w p _ = True"

definition keeps_but :: "string list set \<Rightarrow> world \<Rightarrow> world \<Rightarrow> bool" where
  "keeps_but K w w' \<longleftrightarrow> w_canon w' = w_canon w \<and> (\<forall>x. x \<notin> K \<longrightarrow> w_fs w' x = w_fs w x)"

lemma fopen_wx_keeps: "fopen_wx t w = (r, w') \<Longrightarrow> keeps_but {w_canon w t} w w'"
  by (auto simp: fopen_wx_def keeps_but_def split: if_splits option.splits node.splits)

lemma unlink_keeps: "keeps_but {w_canon w t} w (unlink t w)"
  by (auto simp: unlink_def keeps_but_def split: option.splits node.splits)

lemma fput_keeps: "fput t c w = (r, w') \<Longrightarrow> keeps_but {w_canon w t} w w'"
  by (auto simp: fput_def put_bytes_def keeps_but_def split: if_splits option.splits node.splits)

lemma rename_keeps: "rename t f w = (r, w') \<Longrightarrow> keeps_but {w_canon w t, w_canon w f} w w' \<and> (\<not> r \<longrightarrow> w' = w)"
  by (auto simp: rename_def keeps_but_def split: if_splits option.splits node.splits)

lemma keeps_but_mono: "keeps_but K w w' \<Longrightarrow> K \<subseteq> L \<Longrightarrow> keeps_but L w w'"
  by (auto simp: keeps_but_def)

text \<open>A step of a writer stays with its slot and touches its own temporary file; the slot file changes by a
  \<open>rename\<close> that succeeds and by nothing else.\<close>

lemma writer_step_frame:
  assumes d: "plain_dir (agents_dir s) D w" and q: "phase_slot q = Some a" and a: "slot_ok a"
    and st: "writer_step s p n q w = (q', w')"
  shows "keeps_but ({D @ [tmp_name (slot_id a) p]} \<union> (if committed q q' = [] then {} else {D @ [slot_name (slot_id a)]})) w w'"
    and "phase_slot q' = None \<or> phase_slot q' = Some a"
proof -
  have k: "valid_id (Some (slot_id a))" using a by (simp add: slot_ok_def)
  have c: "w_canon w (slot_tmp s (slot_id a) p) = D @ [tmp_name (slot_id a) p]"
    "w_canon w (slot_file s (slot_id a)) = D @ [slot_name (slot_id a)]"
    using plain_names [OF d k] by (simp_all only: slot_tmp_def slot_file_def)
  show "phase_slot q' = None \<or> phase_slot q' = Some a"
    using q st by (cases q) (auto split: prod.splits option.splits put_result.splits bool.splits if_splits)
  show "keeps_but ({D @ [tmp_name (slot_id a) p]} \<union> (if committed q q' = [] then {} else {D @ [slot_name (slot_id a)]})) w w'"
  proof (cases q)
    case (Opening b x)
    then show ?thesis using q st fopen_wx_keeps [of "slot_tmp s (slot_id a) p" w] c
      by (auto split: prod.splits option.splits intro: keeps_but_mono)
  next
    case (Removing x)
    then show ?thesis using q st unlink_keeps [of w "slot_tmp s (slot_id a) p"] c by (auto intro: keeps_but_mono)
  next
    case (Writing x r)
    then show ?thesis using q st fput_keeps [of "slot_tmp s (slot_id a) p" _ w] c
      by (auto split: prod.splits put_result.splits if_splits intro: keeps_but_mono)
  next
    case (Renaming x)
    then show ?thesis using q st rename_keeps [of "slot_tmp s (slot_id a) p" "slot_file s (slot_id a)" w] c
      by (auto split: prod.splits bool.splits intro: keeps_but_mono simp: keeps_but_def)
  next
    case (Undoing x)
    then show ?thesis using q st unlink_keeps [of w "slot_tmp s (slot_id a) p"] c by (auto intro: keeps_but_mono)
  next
    case (Returned r)
    then show ?thesis using q by simp
  qed
qed

lemma writer_step_holds:
  assumes d: "plain_dir (agents_dir s) D w" and q: "phase_slot q = Some a" and a: "slot_ok a"
    and st: "writer_step s p n q w = (q', w')" and h: "tmp_holds D w p q"
  shows "tmp_holds D w' p q'"
    and "committed q q' \<noteq> [] \<Longrightarrow> committed q q' = [a] \<and> w_fs w' (D @ [slot_name (slot_id a)]) = Some (Reg (slot_line a))"
proof -
  have k: "valid_id (Some (slot_id a))" using a by (simp add: slot_ok_def)
  have c: "w_canon w (slot_tmp s (slot_id a) p) = D @ [tmp_name (slot_id a) p]"
    "w_canon w (slot_file s (slot_id a)) = D @ [slot_name (slot_id a)]"
    using plain_names [OF d k] by (simp_all only: slot_tmp_def slot_file_def)
  show "tmp_holds D w' p q'"
  proof (cases q)
    case (Opening b x)
    then show ?thesis using q st c by (auto simp: fopen_wx_def split: if_splits option.splits node.splits)
  next
    case (Writing x r)
    obtain pre where pre: "slot_line a = pre @ r" "w_fs w (D @ [tmp_name (slot_id a) p]) = Some (Reg pre)"
      using h q Writing by auto
    have "pre @ take n r @ drop n r = pre @ r" by simp
    then have cut: "slot_line a = (pre @ take n r) @ drop n r" using pre(1) by simp
    obtain u w1 where f: "fput (slot_tmp s (slot_id a) p) (take n r) w = (u, w1)" by fastforce
    show ?thesis
    proof (cases u)
      case PutOk
      then have n: "w_fs w1 (D @ [tmp_name (slot_id a) p]) = Some (Reg (pre @ take n r))"
        using f pre(2) c(1) by (auto simp: fput_def put_bytes_def split: if_splits)
      show ?thesis using st Writing q f PutOk n cut by (auto split: if_splits)
    qed (use st Writing q f in auto)
  qed (use q st in \<open>auto split: prod.splits bool.splits\<close>)
  show "committed q q' = [a] \<and> w_fs w' (D @ [slot_name (slot_id a)]) = Some (Reg (slot_line a))" if cm: "committed q q' \<noteq> []"
  proof -
    obtain r where r: "q = Renaming a" "q' = Returned r"
      using cm q by (cases q; cases q') auto
    have t: "tmp_name (slot_id a) p \<noteq> slot_name (slot_id a)" using tmp_not_slot [OF k k] .
    show ?thesis using st h c t unfolding r by (auto simp: rename_def split: if_splits option.splits node.splits)
  qed
qed

section \<open>Every interleaving\<close>

lemma tmp_holds_stable:
  assumes "tmp_holds D w p q" "\<And>a. phase_slot q = Some a \<Longrightarrow> w_fs w' (D @ [tmp_name (slot_id a) p]) = w_fs w (D @ [tmp_name (slot_id a) p])"
  shows "tmp_holds D w' p q"
  using assms by (cases q) auto

text \<open>What the slot file of agent \<open>k\<close> holds when the slots of the list were put in place, the latest first.\<close>

definition slot_content :: "string list \<Rightarrow> world \<Rightarrow> agent_slot list \<Rightarrow> string \<Rightarrow> node option" where
  "slot_content D w0 l k =
     (case find (\<lambda>a. slot_id a = k) l of
        Some a \<Rightarrow> Some (Reg (slot_line a))
      | None \<Rightarrow> w_fs w0 (D @ [slot_name k]))"

definition race_inv :: "supervisor \<Rightarrow> string list \<Rightarrow> world \<Rightarrow> race_state \<Rightarrow> bool" where
  "race_inv s D w0 st \<longleftrightarrow>
     (case st of (ph, l, w) \<Rightarrow>
        plain_dir (agents_dir s) D w
        \<and> (\<forall>p a. phase_slot (ph p) = Some a \<longrightarrow> writer_enters s a p)
        \<and> (\<forall>p. tmp_holds D w p (ph p))
        \<and> (\<forall>a \<in> set l. \<exists>p. writer_enters s a p)
        \<and> (\<forall>k. valid_id (Some k) \<longrightarrow> w_fs w (D @ [slot_name k]) = slot_content D w0 l k))"

lemma writer_enters_id: "writer_enters s a p \<Longrightarrow> valid_id (Some (slot_id a))"
  by (simp add: writer_enters_def slot_ok_def)

lemma plain_dir_canon: "w_canon w' = w_canon w \<Longrightarrow> plain_dir d D w' = plain_dir d D w"
  by (simp add: plain_dir_def)

lemma move_inv:
  assumes i: "race_inv s D w0 (ph, l, w)" and st: "writer_step s p n (ph p) w = (q', w')"
  shows "race_inv s D w0 (ph(p := q'), committed (ph p) q' @ l, w')"
proof (cases "phase_slot (ph p)")
  case None
  then obtain r where r: "ph p = Returned r" by (cases "ph p") auto
  then have "q' = Returned r" "w' = w" using st by simp_all
  then show ?thesis using i r by (simp add: fun_upd_idem)
next
  case (Some a)
  have d: "plain_dir (agents_dir s) D w" and e: "\<And>p a. phase_slot (ph p) = Some a \<Longrightarrow> writer_enters s a p"
    and h: "\<And>p. tmp_holds D w p (ph p)" and l: "\<And>b. b \<in> set l \<Longrightarrow> \<exists>p. writer_enters s b p"
    and f: "\<And>k. valid_id (Some k) \<Longrightarrow> w_fs w (D @ [slot_name k]) = slot_content D w0 l k"
    using i by (auto simp: race_inv_def)
  have ea: "writer_enters s a p" using e [OF Some] .
  then have a: "slot_ok a" by (simp add: writer_enters_def)
  have k: "valid_id (Some (slot_id a))" using writer_enters_id [OF ea] .
  let ?K = "{D @ [tmp_name (slot_id a) p]} \<union> (if committed (ph p) q' = [] then {} else {D @ [slot_name (slot_id a)]})"
  have fr: "keeps_but ?K w w'" "phase_slot q' = None \<or> phase_slot q' = Some a" by (rule writer_step_frame [OF d Some a st])+
  have hq: "tmp_holds D w' p q'" by (rule writer_step_holds(1) [OF d Some a st h])
  have cm: "committed (ph p) q' = [] \<or> committed (ph p) q' = [a] \<and> w_fs w' (D @ [slot_name (slot_id a)]) = Some (Reg (slot_line a))"
    using writer_step_holds(2) [OF d Some a st h] by blast
  have h': "tmp_holds D w' p' (ph p')" if "p' \<noteq> p" for p'
  proof (rule tmp_holds_stable [OF h])
    fix b assume b: "phase_slot (ph p') = Some b"
    have kb: "valid_id (Some (slot_id b))" using writer_enters_id [OF e [OF b]] .
    have "D @ [tmp_name (slot_id b) p'] \<notin> ?K" using tmp_name_inject [OF kb k, of p' p] tmp_not_slot [OF kb k, of p'] that by auto
    then show "w_fs w' (D @ [tmp_name (slot_id b) p']) = w_fs w (D @ [tmp_name (slot_id b) p'])"
      using fr(1) unfolding keeps_but_def by blast
  qed
  have f': "w_fs w' (D @ [slot_name x]) = slot_content D w0 (committed (ph p) q' @ l) x" if x: "valid_id (Some x)" for x
  proof (cases "committed (ph p) q' \<noteq> [] \<and> x = slot_id a")
    case True
    then show ?thesis using cm by (auto simp: slot_content_def)
  next
    case False
    have "D @ [slot_name x] \<notin> ?K" using False tmp_not_slot [OF k x, of p] slot_name_inject [OF x k] by auto
    then have "w_fs w' (D @ [slot_name x]) = w_fs w (D @ [slot_name x])" using fr(1) unfolding keeps_but_def by blast
    moreover have "slot_content D w0 (committed (ph p) q' @ l) x = slot_content D w0 l x"
      using cm False by (auto simp: slot_content_def)
    ultimately show ?thesis using f [OF x] by simp
  qed
  have "plain_dir (agents_dir s) D w'" using plain_dir_canon fr(1) d unfolding keeps_but_def by blast
  moreover have "writer_enters s b p'" if "phase_slot ((ph(p := q')) p') = Some b" for p' b
    using that fr(2) ea e by (auto split: if_splits)
  moreover have "tmp_holds D w' p' ((ph(p := q')) p')" for p' using hq h' by simp
  moreover have "\<exists>p. writer_enters s b p" if "b \<in> set (committed (ph p) q' @ l)" for b using that cm ea l by auto
  ultimately show ?thesis using f' by (simp add: race_inv_def)
qed

lemma race_inv_step: "race s D x y \<Longrightarrow> race_inv s D w0 x \<Longrightarrow> race_inv s D w0 y"
proof (induction rule: race.induct)
  case (enter a p ph l w)
  then show ?case by (auto simp: race_inv_def)
next
  case (move p n ph w q w' l)
  then show ?case by (intro move_inv)
next
  case (host w w' ph l)
  then have c: "w_canon w' = w_canon w" "\<And>n. w_fs w' (D @ [n]) = w_fs w (D @ [n])" by (auto simp: leaves_dir_def)
  have "tmp_holds D w' p q" if "tmp_holds D w p q" for p q using tmp_holds_stable [OF that] c(2) by blast
  then show ?case using host.prems c plain_dir_canon [OF c(1)] by (auto simp: race_inv_def)
qed

lemma race_inv_run:
  assumes "plain_dir (agents_dir s) D w0" "(race s D)\<^sup>*\<^sup>* (quiet, [], w0) y"
  shows "race_inv s D w0 y"
  using assms(2)
proof (induction rule: rtranclp_induct)
  case base
  show ?case using assms(1) by (simp add: race_inv_def quiet_def slot_content_def)
next
  case (step x y)
  then show ?case using race_inv_step by blast
qed

lemma committed_read:
  assumes i: "race_inv s D w0 (ph, l, w)" and a: "find (\<lambda>a. slot_id a = k) l = Some a"
    and o: "\<not> w_fault w IoOpen (slot_file s k)"
  shows "read_slot_file s k w = Inr (stored a)"
proof -
  have m: "a \<in> set l" "slot_id a = k" using a by (auto simp: find_Some_iff in_set_conv_nth)
  obtain p where e: "writer_enters s a p" using i m(1) by (auto simp: race_inv_def)
  have k: "valid_id (Some k)" using writer_enters_id [OF e] m(2) by simp
  have pl: "plain_dir (agents_dir s) D w" using i by (simp add: race_inv_def)
  have "w_fs w (D @ [slot_name k]) = Some (Reg (slot_line a))" using i k a by (simp add: race_inv_def slot_content_def)
  then have f: "fopen_r w (slot_file s k) = Some (slot_line a)"
    using o plain_names(1) [OF pl k] by (simp add: fopen_r_def slot_file_def)
  have "slot_path s (slot_id a) PHRONESIS_PATH_MAX = Some (slot_file s k)"
    using e m(2) by (simp add: writer_enters_def slot_path_def slot_file_def slot_tmp_def tmp_name_def slot_name_def snprintf_fits_def)
  then show ?thesis using read_stored [of a s "slot_file s k" w] e f m(2) by (simp add: writer_enters_def)
qed

section \<open>A call is a run\<close>

lemma moved:
  assumes "writer_step s p n q w = (q', w')"
  shows "(race s D)\<^sup>*\<^sup>* (ph(p := q), l, w) (ph(p := q'), committed q q' @ l, w')"
  using race.move [of s p n "ph(p := q)" w q' w' D l] assms by auto

lemma moved_on:
  assumes r: "(race s D)\<^sup>*\<^sup>* x (ph(p := q), l, w)" and st: "writer_step s p n q w = (q', w')"
  shows "(race s D)\<^sup>*\<^sup>* x (ph(p := q'), committed q q' @ l, w')"
  by (rule rtranclp_trans [OF r moved [OF st]])

text \<open>From an open temporary file on, and from the first \<open>fopen\<close> to the open file.\<close>

lemma opened_run:
  assumes x: "(race s D)\<^sup>*\<^sup>* x (ph(p := Opening True a), l, w)" and o: "open_tmp (slot_tmp s (slot_id a) p) w = (b, w1)"
  shows "(race s D)\<^sup>*\<^sup>* x (ph(p := if b then Writing a (slot_line a) else Returned ERR_IO), l, w1)"
proof -
  let ?t = "slot_tmp s (slot_id a) p"
  obtain e v where f: "fopen_wx ?t w = (e, v)" by fastforce
  show ?thesis
  proof (cases "e = Some EEXIST")
    case True
    obtain e2 v2 where g: "fopen_wx ?t (unlink ?t v) = (e2, v2)" by fastforce
    have 1: "(race s D)\<^sup>*\<^sup>* x (ph(p := Removing a), l, v)" using moved_on [OF x, of n "Removing a" v] f True by simp
    have 2: "(race s D)\<^sup>*\<^sup>* x (ph(p := Opening False a), l, unlink ?t v)"
      using moved_on [OF 1, of n "Opening False a" "unlink ?t v"] by simp
    show ?thesis using moved_on [OF 2, of n "if b then Writing a (slot_line a) else Returned ERR_IO" w1] f g o True
      by (cases e2) (auto simp: open_tmp_def)
  next
    case False
    then show ?thesis using moved_on [OF x, of n "if b then Writing a (slot_line a) else Returned ERR_IO" w1] f o
      by (cases e) (auto simp: open_tmp_def split: errno.splits)
  qed
qed

lemma written_run:
  assumes x: "(race s D)\<^sup>*\<^sup>* x (ph(p := Writing a (slot_line a)), l, w1)"
    and f: "fput (slot_tmp s (slot_id a) p) (slot_line a) w1 = (u, w2)"
  shows "(race s D)\<^sup>*\<^sup>* x (ph(p := if u = PutOk then Renaming a else Undoing a), l, w2)"
  using moved_on [OF x, of "length (slot_line a)" "if u = PutOk then Renaming a else Undoing a" w2] f
  by (cases u) simp_all

lemma undone_run:
  assumes x: "(race s D)\<^sup>*\<^sup>* x (ph(p := Undoing a), l, w)"
  shows "(race s D)\<^sup>*\<^sup>* x (ph(p := Returned ERR_IO), l, unlink (slot_tmp s (slot_id a) p) w)"
  using moved_on [OF x, of n "Returned ERR_IO" "unlink (slot_tmp s (slot_id a) p) w"] by simp

lemma write_and_rename_run:
  assumes x: "(race s D)\<^sup>*\<^sup>* x (ph(p := Opening True a), l, w)"
    and c: "write_and_rename (slot_tmp s (slot_id a) p) (slot_file s (slot_id a)) (slot_line a) w = (r, w')"
  shows "(race s D)\<^sup>*\<^sup>* x (ph(p := Returned r), (if r = OK then [a] else []) @ l, w')"
proof -
  let ?t = "slot_tmp s (slot_id a) p"
  obtain b w1 where o: "open_tmp ?t w = (b, w1)" by fastforce
  obtain u w2 where f: "fput ?t (slot_line a) w1 = (u, w2)" by fastforce
  obtain g w3 where m: "rename ?t (slot_file s (slot_id a)) w2 = (g, w3)" by fastforce
  note 1 = opened_run [OF x o]
  show ?thesis
  proof (cases "b \<and> u = PutOk")
    case False
    then show ?thesis
    proof (cases b)
      case True
      then have u: "u \<noteq> PutOk" using False by simp
      have 2: "(race s D)\<^sup>*\<^sup>* x (ph(p := Undoing a), l, w2)" using written_run [OF _ f] 1 True u by simp
      have "r = ERR_IO" "w' = unlink ?t w2" using True u c o f by (cases u; simp add: write_and_rename_def)+
      then show ?thesis using undone_run [OF 2] by simp
    qed (use c o 1 in \<open>auto simp: write_and_rename_def\<close>)
  next
    case True
    have 2: "(race s D)\<^sup>*\<^sup>* x (ph(p := Renaming a), l, w2)" using written_run [OF _ f] 1 True by simp
    have 3: "(race s D)\<^sup>*\<^sup>* x (ph(p := if g then Returned OK else Undoing a), (if g then [a] else []) @ l, w3)"
      using moved_on [OF 2, of n "if g then Returned OK else Undoing a" w3] m by (cases g) simp_all
    show ?thesis using 3 undone_run [of s D x ph p a l w3] c o f m True by (cases g) (auto simp: write_and_rename_def)
  qed
qed

lemma slot_names:
  "slot_path s k n = (if snprintf_fits n (slot_file s k) then Some (slot_file s k) else None)"
  "slot_tmp s k p = slot_file s k @ ''.tmp.'' @ show_int p"
  by (simp_all add: slot_path_def slot_file_def slot_tmp_def tmp_name_def slot_name_def)

section \<open>Properties\<close>

text \<open>C17: A slot file is replaced whole, whatever the writers do at once. Start with nobody writing and let any
  number of processes on one directory move in any order: enter the writer, make its calls, write in pieces,
  fail, die at any point and be followed by a process of the same pid, with the host doing anything that leaves
  the entries alone. Then no writer loses its temporary file to another, the file of every agent holds what it
  held at the start or exactly the line of the last slot that was put in place for that agent, and a
  supervisor on the directory reads that slot back.\<close>

theorem slot_writes_atomic:
  assumes "plain_dir (agents_dir s) D w0" and "(race s D)\<^sup>*\<^sup>* (quiet, [], w0) (ph, l, w)"
  shows "(\<forall>p. tmp_holds D w p (ph p))
    \<and> (\<forall>k. valid_id (Some k) \<longrightarrow> w_fs w (D @ [slot_name k]) = slot_content D w0 l k)
    \<and> (\<forall>k a. find (\<lambda>a. slot_id a = k) l = Some a \<longrightarrow> \<not> w_fault w IoOpen (slot_file s k)
         \<longrightarrow> read_slot_file s k w = Inr (stored a))"
  using race_inv_run [OF assms] committed_read unfolding race_inv_def by blast

text \<open>A schedule to run: who moves, and how many bytes he writes when he does.\<close>

fun run_schedule :: "supervisor \<Rightarrow> (pid_t \<times> nat) list \<Rightarrow> race_state \<Rightarrow> race_state" where
  "run_schedule s [] st = st"
| "run_schedule s ((p, n) # ms) (ph, l, w) =
     (case writer_step s p n (ph p) w of (q, w') \<Rightarrow> run_schedule s ms (ph(p := q), committed (ph p) q @ l, w'))"

lemma run_schedule_race: "(race s D)\<^sup>*\<^sup>* x st \<Longrightarrow> (race s D)\<^sup>*\<^sup>* x (run_schedule s ms st)"
proof (induction s ms st rule: run_schedule.induct)
  case (2 s p n ms ph l w)
  obtain q w' where st: "writer_step s p n (ph p) w = (q, w')" by fastforce
  have "(race s D)\<^sup>*\<^sup>* x (ph(p := q), committed (ph p) q @ l, w')"
    by (rule rtranclp.rtrancl_into_rtrancl [OF 2(2)]) (rule race.move, rule st)
  then show ?case using 2(1) st by simp
qed simp

text \<open>Processes 7 and 8 seat agent \<open>a1\<close> at once; the second writes three bytes at a time.\<close>

definition race_start :: race_state where
  "race_start = (quiet(7 := Opening True file_slot, 8 := Opening True (file_slot\<lparr>slot_pid := 43\<rparr>)), [], file_world)"

definition race_end :: race_state where
  "race_end = run_schedule file_sup
     [(7, 9), (8, 9), (8, 3), (7, 99), (8, 3), (7, 9), (8, 99), (8, 9), (7, 9)] race_start"

lemma slot_writes_atomic_witness:
  "read_slot_file file_sup ''a1'' (snd (snd race_end)) = Inr (stored (file_slot\<lparr>slot_pid := 43\<rparr>))"
proof -
  have "path_comps ''/agents'' = [''agents'']" by code_simp
  then have d: "plain_dir (agents_dir file_sup) [''agents''] file_world"
    using path_comps_append_slash [of "''/agents''"] path_comps_single
    by (simp add: plain_dir_def plain_comp_def file_sup_def file_world_def fresh_world_def)
  have e: "writer_enters file_sup file_slot 7" "writer_enters file_sup (file_slot\<lparr>slot_pid := 43\<rparr>) 8" by code_simp+
  have "(race file_sup [''agents''])\<^sup>*\<^sup>* (quiet, [], file_world) race_start"
    unfolding race_start_def
    by (rule rtranclp_trans [OF r_into_rtranclp [of "race file_sup [''agents'']", OF race.enter [OF e(1)]] r_into_rtranclp [of "race file_sup [''agents'']", OF race.enter [OF e(2)]]])
  then have r: "(race file_sup [''agents''])\<^sup>*\<^sup>* (quiet, [], file_world) race_end"
    unfolding race_end_def by (rule run_schedule_race)
  obtain ph l w where st: "race_end = (ph, l, w)" by (metis prod.collapse)
  have f: "find (\<lambda>a. slot_id a = ''a1'') (fst (snd race_end)) = Some (file_slot\<lparr>slot_pid := 43\<rparr>)" by code_simp
  have "\<not> w_fault (snd (snd race_end)) IoOpen (slot_file file_sup ''a1'')" by code_simp
  then have o: "\<not> w_fault w IoOpen (slot_file file_sup ''a1'')" unfolding st by simp
  have g: "find (\<lambda>a. slot_id a = ''a1'') l = Some (file_slot\<lparr>slot_pid := 43\<rparr>)" using f unfolding st by simp
  have "read_slot_file file_sup ''a1'' w = Inr (stored (file_slot\<lparr>slot_pid := 43\<rparr>))"
    using slot_writes_atomic [OF d r [unfolded st]] g o by blast
  then show ?thesis unfolding st by simp
qed

text \<open>C18: The interleaved writer is the writer. A call of \<open>write_slot\<close> by a process on a well-formed slot is a run
  of that process through the phases, with the code of the call in its last phase and the slot put in
  place exactly when the code is OK; a slot whose temporary name does not fit is refused with ERR_INVAL and nothing is
  written.\<close>

theorem write_slot_is_run:
  assumes "write_slot s a w = (r, w')" and "slot_ok a"
  shows "if writer_enters s a (w_getpid w)
    then (race s D)\<^sup>*\<^sup>* (ph, l, w) (ph(w_getpid w := Returned r), (if r = OK then [a] else []) @ l, w')
    else r = ERR_INVAL \<and> w' = w"
proof (cases "writer_enters s a (w_getpid w)")
  case True
  let ?p = "w_getpid w"
  have x: "(race s D)\<^sup>*\<^sup>* (ph, l, w) (ph(?p := Opening True a), l, w)" using race.enter [OF True] by blast
  have "snprintf_fits PHRONESIS_PATH_MAX (slot_file s (slot_id a))" "snprintf_fits PHRONESIS_PATH_MAX (slot_tmp s (slot_id a) ?p)"
    using True by (simp_all add: writer_enters_def slot_names snprintf_fits_def)
  then have "write_and_rename (slot_tmp s (slot_id a) ?p) (slot_file s (slot_id a)) (slot_line a) w = (r, w')"
    using assms(1) by (simp add: write_slot_def slot_names Let_def)
  from write_and_rename_run [OF x this] show ?thesis using True by simp
next
  case False
  then show ?thesis using assms by (auto simp: writer_enters_def write_slot_def slot_names Let_def split: if_splits)
qed

lemma write_slot_is_run_witness:
  "(race file_sup [''agents''])\<^sup>*\<^sup>* (quiet, [], file_world)
     (quiet(77 := Returned OK), [file_slot], snd (write_slot file_sup file_slot file_world))"
proof -
  have "fst (write_slot file_sup file_slot file_world) = OK" by code_simp
  then have w: "write_slot file_sup file_slot file_world = (OK, snd (write_slot file_sup file_slot file_world))" by (metis prod.collapse)
  have a: "slot_ok file_slot" by code_simp
  have p: "w_getpid file_world = 77" by (simp add: file_world_def fresh_world_def)
  have e: "writer_enters file_sup file_slot 77" by code_simp
  show ?thesis using write_slot_is_run [OF w a, of "[''agents'']" quiet "[]"] p e by simp
qed

end
