(* ===== verification/Log_Growth.thy ===== *)
theory Log_Growth
  imports Restart Slot_Race
begin

text \<open>
  The action log under every operation of a supervisor: what the log held before an operation it holds after it,
  followed by the lines of records, each whole or cut short where the host wrote only a part of it, and nothing else.
  The log file is the only one of the files the supervisor writes that is opened for appending; slot files are
  replaced, control files of a cgroup are truncated, directories are made and removed. The proof goes through the
  calls of each operation with one relation, \<open>log_grows\<close>, over the pieces that were appended. A predicate on pieces is
  told whether the log can be written: then every piece is a whole line.
\<close>

section \<open>A log that grows\<close>

text \<open>A record is one line that the reader of records takes apart.\<close>

definition is_record :: "string \<Rightarrow> bool" where
  "is_record r \<longleftrightarrow> newline \<notin> set r \<and> read_record r \<noteq> None"

lemma log_record_is_record: "is_record (log_record w a k d)"
  by (simp add: is_record_def log_record_line read_log_record)

definition records_text :: "string list \<Rightarrow> bytes" where
  "records_text rs = concat (map (\<lambda>r. r @ [newline]) rs)"

text \<open>What one append leaves: the line of a record, or only the beginning of one.\<close>

definition log_piece :: "bool \<Rightarrow> bytes \<Rightarrow> bool" where
  "log_piece whole p \<longleftrightarrow> (\<exists>r. is_record r \<and> prefix p (r @ [newline]) \<and> (whole \<longrightarrow> p = r @ [newline]))"

definition log_writable :: "string \<Rightarrow> world \<Rightarrow> bool" where
  "log_writable lg w \<longleftrightarrow> (\<forall>f \<in> {IoOpen, IoWrite, IoClose}. \<not> w_fault w f lg)"

text \<open>The log of \<open>w'\<close> is the log of \<open>w\<close> and pieces after it.\<close>

definition log_adds :: "(bytes \<Rightarrow> bool) \<Rightarrow> string \<Rightarrow> world \<Rightarrow> world \<Rightarrow> bool" where
  "log_adds P lg w w' \<longleftrightarrow>
     w_canon w' = w_canon w
     \<and> (\<forall>b. w_fs w (w_canon w lg) = Some (Reg b) \<longrightarrow>
          (\<exists>ps. (\<forall>p \<in> set ps. P p) \<and> w_fs w' (w_canon w lg) = Some (Reg (b @ concat ps))))"

text \<open>Within one operation the host does not change its mind about faults.\<close>

definition log_grows :: "(bool \<Rightarrow> bytes \<Rightarrow> bool) \<Rightarrow> string \<Rightarrow> world \<Rightarrow> world \<Rightarrow> bool" where
  "log_grows P lg w w' \<longleftrightarrow> w_fault w' = w_fault w \<and> log_adds (P (log_writable lg w)) lg w w'"

text \<open>No name in the slot directory and no control file of a cgroup is the log.\<close>

definition log_private :: "string \<Rightarrow> string \<Rightarrow> world \<Rightarrow> bool" where
  "log_private ad lg w \<longleftrightarrow>
     (\<forall>n. plain_comp n \<longrightarrow> w_canon w (ad @ slash # n) \<noteq> w_canon w lg)
     \<and> (\<forall>c. \<forall>f \<in> {''/cgroup.kill'', ''/cgroup.procs'', ''/cgroup.subtree_control''}. w_canon w (c @ f) \<noteq> w_canon w lg)"

lemma log_adds_same: "w_canon w' = w_canon w \<Longrightarrow> w_fs w' (w_canon w lg) = w_fs w (w_canon w lg) \<Longrightarrow> log_adds P lg w w'"
  by (auto simp: log_adds_def intro: exI [of _ "[]"])

lemma log_adds_trans:
  assumes "log_adds P lg a b" "log_adds P lg b c"
  shows "log_adds P lg a c"
  unfolding log_adds_def
proof (intro conjI allI impI)
  show "w_canon c = w_canon a" using assms by (simp add: log_adds_def)
  fix x assume "w_fs a (w_canon a lg) = Some (Reg x)"
  then obtain ps where ps: "\<forall>p \<in> set ps. P p" "w_fs b (w_canon b lg) = Some (Reg (x @ concat ps))"
    using assms(1) by (auto simp: log_adds_def)
  then obtain qs where "\<forall>p \<in> set qs. P p" "w_fs c (w_canon b lg) = Some (Reg ((x @ concat ps) @ concat qs))"
    using assms(2) unfolding log_adds_def by blast
  then show "\<exists>ps. (\<forall>p \<in> set ps. P p) \<and> w_fs c (w_canon a lg) = Some (Reg (x @ concat ps))"
    using ps(1) assms(1) by (intro exI [of _ "ps @ qs"]) (auto simp: log_adds_def)
qed

lemma log_adds_mono: "log_adds P lg w w' \<Longrightarrow> (\<And>p. P p \<Longrightarrow> Q p) \<Longrightarrow> log_adds Q lg w w'"
  unfolding log_adds_def by meson

lemma log_grows_same:
  "w_canon w' = w_canon w \<Longrightarrow> w_fault w' = w_fault w \<Longrightarrow> w_fs w' (w_canon w lg) = w_fs w (w_canon w lg) \<Longrightarrow> log_grows P lg w w'"
  by (simp add: log_grows_def log_adds_same)

lemma log_grows_refl [simp]: "log_grows P lg w w"
  by (simp add: log_grows_same)

lemma log_writable_fault: "w_fault w' = w_fault w \<Longrightarrow> log_writable lg w' = log_writable lg w"
  by (simp add: log_writable_def)

lemma log_grows_trans:
  assumes "log_grows P lg a b" "log_grows P lg b c"
  shows "log_grows P lg a c"
proof -
  have "log_writable lg b = log_writable lg a" using assms(1) by (intro log_writable_fault) (simp add: log_grows_def)
  then have "log_adds (P (log_writable lg a)) lg b c" using assms(2) by (simp add: log_grows_def)
  then show ?thesis using assms log_adds_trans unfolding log_grows_def by fastforce
qed

lemma log_private_canon: "w_canon w' = w_canon w \<Longrightarrow> log_private ad lg w' = log_private ad lg w"
  by (simp add: log_private_def)

lemma log_grows_private: "log_grows P lg w w' \<Longrightarrow> log_private ad lg w \<Longrightarrow> log_private ad lg w'"
  unfolding log_grows_def log_adds_def using log_private_canon by blast

section \<open>The calls\<close>

lemma open_for_append:
  assumes "fopen_wa False p w = (ok, w1)"
  shows "w_canon w1 = w_canon w" "w_fault w1 = w_fault w" "w_fs w (w_canon w p) = Some (Reg b) \<Longrightarrow> w1 = w"
  using assms by (auto simp: fopen_wa_def split: if_splits option.splits node.splits)

text \<open>A write leaves some beginning of its data, and all of it when the host lets it through.\<close>

lemma put_line:
  assumes "fput p d w = (r, w1)"
  shows "w_canon w1 = w_canon w" "w_fault w1 = w_fault w"
    "w_fs w (w_canon w p) = Some (Reg b) \<Longrightarrow>
       \<exists>x. prefix x d \<and> (log_writable p w \<longrightarrow> x = d) \<and> w_fs w1 (w_canon w p) = Some (Reg (b @ x))"
  using assms by (auto simp: fput_def put_bytes_def log_writable_def take_is_prefix split: if_splits option.splits node.splits)

lemma append_grows: "log_grows log_piece lg w (snd (phronesis_action_log_append (Some lg) a k d w))"
proof (cases "json_escape k 1024 = None \<or> json_escape d 1024 = None \<or> json_escape a 128 = None \<or> \<not> nonempty k")
  case True
  then show ?thesis
    by (auto simp: phronesis_action_log_append_def PHRONESIS_DETAIL_MAX_def PHRONESIS_ID_MAX_def split: option.split)
next
  case False
  then obtain ek ed ea where e: "json_escape k 1024 = Some ek" "json_escape d 1024 = Some ed" "json_escape a 128 = Some ea" "nonempty k" by auto
  let ?l = "log_record w a k d @ [newline]"
  have rec: "log_line (w_time w) ea ek ed = log_record w a k d" using e by (simp add: json_escape_Some log_record_def)
  obtain ok w1 where o: "fopen_wa False lg w = (ok, w1)" by fastforce
  obtain r w2 where f: "fput lg ?l w1 = (r, w2)" by fastforce
  have w': "snd (phronesis_action_log_append (Some lg) a k d w) = (if ok then w2 else w1)"
    using e o f rec unfolding phronesis_action_log_append_def PHRONESIS_DETAIL_MAX_def PHRONESIS_ID_MAX_def
    by (cases r) simp_all
  have c: "w_canon (if ok then w2 else w1) = w_canon w" "w_fault (if ok then w2 else w1) = w_fault w"
    using open_for_append(1,2) [OF o] put_line(1,2) [OF f] by simp_all
  have x: "\<exists>ps. (\<forall>p \<in> set ps. log_piece (log_writable lg w) p) \<and> w_fs (if ok then w2 else w1) (w_canon w lg) = Some (Reg (b @ concat ps))"
    if b: "w_fs w (w_canon w lg) = Some (Reg b)" for b
  proof -
    have w1: "w1 = w" using open_for_append(3) [OF o b] .
    obtain y where y: "prefix y ?l" "log_writable lg w \<longrightarrow> y = ?l" "w_fs w2 (w_canon w lg) = Some (Reg (b @ y))"
      using put_line(3) [OF f [unfolded w1] b] by blast
    have "log_piece (log_writable lg w) y" unfolding log_piece_def using log_record_is_record y(1,2) by blast
    then show ?thesis using y(3) b w1 by (cases ok) (auto intro: exI [of _ "[y]"] exI [of _ "[]"])
  qed
  show ?thesis unfolding w' log_grows_def log_adds_def using c x by blast
qed

lemma log_event_grows: "action_log s = lg \<Longrightarrow> log_grows log_piece lg w (log_event s a k d w)"
  using append_grows unfolding log_event_def by blast

lemma keeps_but_grows: "keeps_but K w w' \<Longrightarrow> w_fault w' = w_fault w \<Longrightarrow> w_canon w lg \<notin> K \<Longrightarrow> log_grows P lg w w'"
  unfolding keeps_but_def by (intro log_grows_same) blast+

lemma keeps_but_trans:
  "keeps_but K a b \<Longrightarrow> keeps_but L b c \<Longrightarrow> K \<subseteq> M \<Longrightarrow> L \<subseteq> M \<Longrightarrow> keeps_but M a c"
  unfolding keeps_but_def by (metis subsetD)

lemma open_tmp_keeps: "open_tmp t w = (b, w') \<Longrightarrow> keeps_but {w_canon w t} w w'"
proof -
  assume o: "open_tmp t w = (b, w')"
  obtain e v where f: "fopen_wx t w = (e, v)" by fastforce
  note k = fopen_wx_keeps [OF f]
  have c: "w_canon v = w_canon w" "w_canon (unlink t v) = w_canon w" using k unlink_keeps [of v t] by (simp_all add: keeps_but_def)
  have k2: "keeps_but {w_canon w t} w (unlink t v)" using keeps_but_trans [OF k unlink_keeps] c by simp
  show ?thesis
  proof (cases "e = Some EEXIST")
    case True
    obtain e2 v2 where g: "fopen_wx t (unlink t v) = (e2, v2)" by fastforce
    have "keeps_but {w_canon w t} w v2" using keeps_but_trans [OF k2 fopen_wx_keeps [OF g]] c by simp
    then show ?thesis using o f g True by (cases e2) (auto simp: open_tmp_def)
  qed (use o f k in \<open>auto simp: open_tmp_def split: option.splits errno.splits\<close>)
qed

lemma write_and_rename_keeps: "keeps_but {w_canon w t, w_canon w p} w (snd (write_and_rename t p l w))"
proof -
  let ?K = "{w_canon w t, w_canon w p}"
  obtain b w1 where o: "open_tmp t w = (b, w1)" by fastforce
  obtain u w2 where f: "fput t l w1 = (u, w2)" by fastforce
  obtain g w3 where m: "rename t p w2 = (g, w3)" by fastforce
  have k1: "keeps_but ?K w w1" using keeps_but_mono [OF open_tmp_keeps [OF o]] by simp
  then have c1: "w_canon w1 = w_canon w" by (simp add: keeps_but_def)
  have k2: "keeps_but ?K w w2" using keeps_but_trans [OF k1 fput_keeps [OF f]] c1 by simp
  then have c2: "w_canon w2 = w_canon w" by (simp add: keeps_but_def)
  have k3: "keeps_but ?K w w3" using keeps_but_trans [OF k2 conjunct1 [OF rename_keeps [OF m]]] c2 by simp
  have u: "keeps_but ?K w (unlink t v)" if "keeps_but ?K w v" for v
    by (rule keeps_but_trans [OF that unlink_keeps]) (use that in \<open>simp_all add: keeps_but_def\<close>)
  show ?thesis using k1 k3 u [OF k2] u [OF k3] o f m by (cases b; cases u; cases g) (auto simp: write_and_rename_def)
qed

lemma write_slot_grows:
  assumes p: "log_private (agents_dir s) lg w" and a: "good_slot k a"
  shows "log_grows P lg w (snd (write_slot s a w))"
proof -
  have v: "valid_id (Some (slot_id a))" using a unfolding good_slot_def slot_ok_def by blast
  have n: "w_canon w (slot_file s (slot_id a)) \<noteq> w_canon w lg" "w_canon w (slot_tmp s (slot_id a) q) \<noteq> w_canon w lg" for q
    using p plain_comp_names [OF v] unfolding log_private_def slot_file_def slot_tmp_def by blast+
  have g: "log_grows P lg w (snd (write_and_rename (slot_tmp s (slot_id a) q) (slot_file s (slot_id a)) l w))" for q l
    by (rule keeps_but_grows [OF write_and_rename_keeps fs_only_sel(2) [OF write_and_rename_fs_only]]) (use n [THEN not_sym] in simp)
  show ?thesis
    using g unfolding write_slot_def Let_def slot_names by (auto split: option.split)
qed

lemma write_str_grows:
  assumes "w_canon w p \<noteq> w_canon w lg"
  shows "log_grows P lg w (snd (write_str p d w))"
proof -
  obtain ok w1 where o: "fopen_wa True p w = (ok, w1)" by fastforce
  obtain r w2 where f: "fput p d w1 = (r, w2)" by fastforce
  have k1: "w_canon w1 = w_canon w \<and> w_fault w1 = w_fault w \<and> w_fs w1 (w_canon w lg) = w_fs w (w_canon w lg)"
    using fopen_wa_other [OF o, of "w_canon w lg"] fs_only_sel(2) [OF fs_only_ops(5) [of w True p]] o assms by auto
  then have "w_canon w2 = w_canon w \<and> w_fault w2 = w_fault w \<and> w_fs w2 (w_canon w lg) = w_fs w (w_canon w lg)"
    using fput_other [OF f, of "w_canon w lg"] put_line(2) [OF f] assms by auto
  then show ?thesis using k1 o f by (intro log_grows_same) (cases ok; cases r; simp add: write_str_def)+
qed

lemma dirs_added_grows: "dirs_added m w w' \<Longrightarrow> log_grows P lg w w'"
proof -
  assume d: "dirs_added m w w'"
  have "w_canon w' = w_canon w" "w_fault w' = w_fault w" using d by (simp_all add: dirs_added_def fs_only_sel)
  moreover have "w_fs w' (w_canon w lg) = Some (Reg b)" if "w_fs w (w_canon w lg) = Some (Reg b)" for b
    using d that unfolding dirs_added_def by (metis option.distinct(1))
  ultimately show ?thesis by (auto simp: log_grows_def log_adds_def intro: exI [of _ "[]"])
qed

lemma cgroup_remove_grows: "log_grows P lg w (phronesis_cgroup_remove c w)"
  by (auto simp: phronesis_cgroup_remove_def rmdir_def log_grows_def log_adds_def intro: exI [of _ "[]"]
      split: option.splits node.splits)

lemma host_same_grows: "w_fs w' = w_fs w \<Longrightarrow> host_frame w w' \<Longrightarrow> log_grows P lg w w'"
  by (intro log_grows_same) (simp_all add: host_frame_def)

lemma reap_grows: "reap_slot a w = (a', w') \<Longrightarrow> log_grows P lg w w'"
  using reap_slot_frame host_same_grows by blast

lemma kill_tree_grows: "log_grows P lg w (snd (kill_tree g w))"
  using kill_tree_frame host_same_grows by blast

lemma fork_grows: "fork_group w = (r, w') \<Longrightarrow> log_grows P lg w w'"
  by (intro log_grows_same) (auto simp: fork_group_def split: option.splits)

section \<open>The operations\<close>

lemma cgroup_create_grows:
  assumes p: "log_private ad lg w"
  shows "log_grows P lg w (snd (snd (phronesis_cgroup_create r a n w)))"
proof -
  have e: "log_grows P lg v (snd (phronesis_paths_ensure_dir q m v))" for q m v
    using dirs_added_grows ensure_dir_dirs_added [of q m v, OF surjective_pairing] by blast
  have c: "log_grows P lg w (snd (write_str (b @ ''/cgroup.subtree_control'') d w))" for b d
    by (rule write_str_grows) (use p in \<open>simp add: log_private_def\<close>)
  have ce: "log_grows P lg w (snd (phronesis_paths_ensure_dir q m (snd (write_str (b @ ''/cgroup.subtree_control'') d w))))" for q m b d
    by (rule log_grows_trans [OF c e])
  show ?thesis
    by (auto simp: phronesis_cgroup_create_def Let_def case_prod_beta e ce split: option.splits)
qed

lemma cgroup_attach_grows: "log_private ad lg w \<Longrightarrow> log_grows P lg w (snd (phronesis_cgroup_attach c p w))"
  using write_str_grows [of w "c @ ''/cgroup.procs''" lg]
  by (simp add: phronesis_cgroup_attach_def Let_def case_prod_beta log_private_def)

lemma cgroup_kill_grows: "log_private ad lg w \<Longrightarrow> log_grows P lg w (snd (phronesis_cgroup_kill c w))"
  using write_str_grows [of w "c @ ''/cgroup.kill''" lg]
  by (simp add: phronesis_cgroup_kill_def Let_def case_prod_beta log_private_def)

text \<open>A supervisor in the middle of an operation: its table is in the hands of agent \<open>k\<close> and its log is \<open>lg\<close>.\<close>

lemma handle_dirs: "slot_handle k s0 i s \<Longrightarrow> agents_dir s = agents_dir s0 \<and> action_log s = action_log s0"
  by (simp add: slot_handle_def only_agent_def)

definition sup_grows :: "(bool \<Rightarrow> bytes \<Rightarrow> bool) \<Rightarrow> supervisor \<Rightarrow> world \<Rightarrow> world \<Rightarrow> bool" where
  "sup_grows P s w w' \<longleftrightarrow> (log_private (agents_dir s) (action_log s) w \<longrightarrow> log_grows P (action_log s) w w')"

lemma sup_grows_refl [simp]: "sup_grows P s w w"
  by (simp add: sup_grows_def)

lemma sup_grows_trans: "sup_grows P s a b \<Longrightarrow> sup_grows P s b c \<Longrightarrow> sup_grows P s a c"
  unfolding sup_grows_def using log_grows_trans log_grows_private by blast

lemma sup_grows_dirs: "agents_dir s' = agents_dir s \<Longrightarrow> action_log s' = action_log s \<Longrightarrow> sup_grows P s' w w' = sup_grows P s w w'"
  by (simp add: sup_grows_def)

lemma sup_grows_ops:
  "good_slot k a \<Longrightarrow> sup_grows P s w (snd (write_slot s a w))"
  "sup_grows log_piece s w (log_event s aid kd d w)"
  "reap_slot a w = (a', w') \<Longrightarrow> sup_grows P s w w'"
  "sup_grows P s w (snd (kill_tree g w))"
  "fork_group w = (x, w') \<Longrightarrow> sup_grows P s w w'"
  "sup_grows P s w (snd (snd (phronesis_cgroup_create r1 a1 n w)))"
  "sup_grows P s w (snd (phronesis_cgroup_attach c p w))"
  "sup_grows P s w (snd (phronesis_cgroup_kill c w))"
  "sup_grows P s w (phronesis_cgroup_remove c w)"
  unfolding sup_grows_def
  by (auto intro: write_slot_grows log_event_grows reap_grows kill_tree_grows fork_grows cgroup_create_grows cgroup_attach_grows
    cgroup_kill_grows cgroup_remove_grows)

lemma written_grows: "good_slot k a \<Longrightarrow> write_slot s a w = (r, w') \<Longrightarrow> sup_grows P s w w'"
  using sup_grows_ops(1) [of k a _ s w] by simp

lemma bind_slot_grows:
  assumes "good_slot k a" "bind_slot i k a d s w = (r, s', w')"
  shows "sup_grows log_piece s w w'"
proof -
  obtain q w1 where wr: "write_slot s a w = (q, w1)" by fastforce
  note g = written_grows [OF assms(1) wr]
  show ?thesis
    using assms(2) wr g sup_grows_trans [OF g sup_grows_ops(2)] by (auto simp: bind_slot_def split: if_splits)
qed

lemma spawn_grows:
  assumes h: "slot_handle k s0 i s" and m: "arg_ok m PHRONESIS_MODE_MAX" and ws: "arg_ok ws PHRONESIS_PATH_MAX"
    and sp: "spawn i k m ws cmd s w = (r, s', w')"
  shows "sup_grows log_piece s w w'"
proof (cases "fst (fork_group w)")
  case None
  then show ?thesis using sp sup_grows_ops(5) [of w None _ _ s] by (auto simp: spawn_def split: prod.splits)
next
  case (Some pid)
  obtain w1 where f: "fork_group w = (Some pid, w1)" using Some by (metis prod.collapse)
  obtain r2 cg w2 where c: "phronesis_cgroup_create (Some (runtime_dir s)) (Some k) PHRONESIS_PATH_MAX w1 = (r2, cg, w2)"
    by (metis prod.collapse)
  have cgl: "length cg < PHRONESIS_PATH_MAX" using cgroup_create_path [OF c] by (cases "cg = []") auto
  obtain r3 w3 where at: "(if r2 = OK \<and> cg \<noteq> [] then phronesis_cgroup_attach cg pid w2 else (OK, w2)) = (r3, w3)"
    by fastforce
  let ?a = "(started_slot (agents s ! i) m ws pid)\<lparr>cgroup_path := (if r3 = OK then cg else [])\<rparr>"
  let ?f = "?a\<lparr>slot_state := AGENT_FAILED, slot_pid := 0, cgroup_path := []\<rparr>"
  have ga: "good_slot k ?a" using h m ws cgl by (intro started_slot_good) (auto simp: slot_handle_def)
  then have gf: "good_slot k ?f" by (auto simp: good_slot_def slot_ok_def)
  have 1: "sup_grows log_piece s w w1" by (rule sup_grows_ops(5) [OF f])
  have 2: "sup_grows log_piece s w w2" using sup_grows_trans [OF 1 sup_grows_ops(6) [of _ s w1]] c by (metis snd_conv)
  have "sup_grows log_piece s w2 w3" using sup_grows_ops(7) [of _ s w2 cg pid] at by (auto split: if_splits)
  then have 3: "sup_grows log_piece s w w3" by (rule sup_grows_trans [OF 2])
  obtain r4 w4 where wr: "write_slot s ?a w3 = (r4, w4)" by fastforce
  have 4: "sup_grows log_piece s w w4" by (rule sup_grows_trans [OF 3 written_grows [OF ga wr]])
  have 5: "sup_grows log_piece s w (snd (write_slot s ?f (phronesis_cgroup_remove q (snd (kill_tree pid w4)))))" for q
    by (rule sup_grows_trans [OF sup_grows_trans [OF sup_grows_trans [OF 4 sup_grows_ops(4)] sup_grows_ops(9)] sup_grows_ops(1) [OF gf]])
  show ?thesis
    using sp 5 sup_grows_trans [OF 4 sup_grows_ops(2)] unfolding spawn_def f c prod.case option.case Let_def at wr
    by (auto split: if_splits)
qed

lemma handle_grows: "slot_handle k s0 i s \<Longrightarrow> sup_grows P s w w' = sup_grows P s0 w w'"
  using handle_dirs sup_grows_dirs by blast

lemma put_grows: "sup_grows P (set_slot i a s) w w' = sup_grows P s w w'"
  by (rule sup_grows_dirs) simp_all

lemma start_grows:
  assumes ok: "sup_ok s" and st: "start_body aid m ws argv s w = (r, s', w')"
  shows "sup_grows log_piece s w w'"
proof (cases "argv = None \<or> the argv = [] \<or> \<not> valid_id aid \<or> \<not> arg_ok m PHRONESIS_MODE_MAX \<or> \<not> arg_ok ws PHRONESIS_PATH_MAX")
  case True
  then show ?thesis using st by (auto simp: start_body_def arg_ok_def split: if_splits)
next
  case False
  then obtain k where k: "aid = Some k" "valid_id (Some k)" using valid_id_Some by (cases aid) auto
  have g: "arg_ok m PHRONESIS_MODE_MAX" "arg_ok ws PHRONESIS_PATH_MAX" using False by blast+
  obtain q s1 where ld: "load_agent s k w = (q, s1)" by fastforce
  show ?thesis
  proof (cases q)
    case (Inr i)
    obtain a w1 where rp: "reap_slot (agents s1 ! i) w = (a, w1)" by fastforce
    note l = ld [unfolded Inr]
    have h: "slot_handle k s i s1" by (rule load_handle [OF ok k(2) l])
    then have ga: "good_slot k a" using reap_slot_good [OF rp] by (simp add: slot_handle_def)
    have h2: "slot_handle k s i (set_slot i a s1)" using slot_handle_set [OF h ga loaded_index [OF ok k(2) l]] .
    have r1: "sup_grows log_piece s w w1" by (rule sup_grows_ops(3) [OF rp])
    have sp: "sup_grows log_piece s w1 v" if "spawn i k m ws cmd (set_slot i a s1) w1 = (x, t, v)" for cmd x t v
      using spawn_grows [OF h2 g that] handle_grows [OF h2] by simp
    show ?thesis
      using st k False ld Inr rp r1 sup_grows_trans [OF r1 sp] by (auto simp: start_body_def arg_ok_def split: if_splits)
  next
    case (Inl e)
    show ?thesis
    proof (cases "e = ERR_NOTFOUND \<and> alloc_named s k \<noteq> None")
      case True
      then obtain i s2 where al: "alloc_named s k = Some (i, s2)" by auto
      have n: "find_mem s k = None" using load_NOTFOUND ld Inl True by blast
      have h: "slot_handle k s i s2" by (rule alloc_handle [OF ok k(2) n al])
      have "sup_grows log_piece s w v" if "spawn i k m ws cmd s2 w = (x, t, v)" for cmd x t v
        using spawn_grows [OF h g that] handle_grows [OF h] by simp
      then show ?thesis
        using st k False ld Inl al True load_failed_same [of s k w e s1] by (auto simp: start_body_def arg_ok_def split: if_splits)
    next
      case other: False
      then have n: "e = ERR_NOTFOUND \<Longrightarrow> alloc_named s k = None" by blast
      show ?thesis using st k False ld Inl load_failed_same [of s k w e s1] n
        by (cases "e = ERR_NOTFOUND") (auto simp: start_body_def arg_ok_def split: if_splits)
    qed
  qed
qed

lemma bind_grows:
  assumes ok: "sup_ok s" and b: "bind_body aid m ws pid s w = (r, s', w')"
  shows "sup_grows log_piece s w w'"
proof (cases "bind_args_ok aid m ws pid")
  case False
  then show ?thesis using bind_bad_args [OF False] b by simp
next
  case True
  then obtain k where k: "aid = Some k" "valid_id (Some k)" by (cases aid) (auto simp: bind_args_ok_def valid_id_def)
  have g: "arg_ok m PHRONESIS_MODE_MAX" "arg_ok ws PHRONESIS_PATH_MAX" "\<not> pid < 0" using True by (simp_all add: bind_args_ok_def)
  obtain q s1 where ld: "load_agent s k w = (q, s1)" by fastforce
  have bs: "sup_grows log_piece s v v'" if "slot_handle k s i s2" "good_slot k a" "bind_slot i k a d s2 v = (x, t, v')" for i s2 a d v x t v'
    using bind_slot_grows [OF that(2,3)] handle_grows [OF that(1)] by simp
  show ?thesis
  proof (cases q)
    case (Inr i)
    obtain a w1 where rp: "reap_slot (agents s1 ! i) w = (a, w1)" by fastforce
    have h: "slot_handle k s i s1" by (rule load_handle [OF ok k(2) ld [unfolded Inr]])
    then have ga: "good_slot k a" using reap_slot_good [OF rp] by (simp add: slot_handle_def)
    have r1: "sup_grows log_piece s w w1" by (rule sup_grows_ops(3) [OF rp])
    have "(\<exists>d x. good_slot k x \<and> bind_slot i k x d s1 w1 = (r, s', w')) \<or> w' = w1"
      using b k ld Inr rp g bound_slot_good [OF ga g(1,2)] filled_slot_good [OF ga g(2)]
      by (auto simp: bind_body_def arg_ok_def Let_def split: if_splits)
    then show ?thesis using sup_grows_trans [OF r1 bs [OF h]] r1 by blast
  next
    case (Inl e)
    show ?thesis
    proof (cases "e = ERR_NOTFOUND \<and> alloc_named s k \<noteq> None")
      case True
      then obtain i s2 where al: "alloc_named s k = Some (i, s2)" by auto
      have n: "find_mem s k = None" using load_NOTFOUND ld Inl True by blast
      have h: "slot_handle k s i s2" by (rule alloc_handle [OF ok k(2) n al])
      have gb: "good_slot k (bound_slot (agents s2 ! i) m ws pid)" using h g by (intro bound_slot_good) (auto simp: slot_handle_def)
      show ?thesis
        using b k g ld Inl al True load_failed_same [of s k w e s1] bs [OF h gb] by (auto simp: bind_body_def arg_ok_def split: if_splits)
    next
      case other: False
      then have n: "e = ERR_NOTFOUND \<Longrightarrow> alloc_named s k = None" by blast
      show ?thesis using b k g ld Inl load_failed_same [of s k w e s1] n
        by (cases "e = ERR_NOTFOUND") (auto simp: bind_body_def arg_ok_def split: if_splits)
    qed
  qed
qed

lemma loaded_grows:
  assumes ok: "sup_ok s" and k: "valid_id (Some k)" and ld: "load_agent s k w = (Inr i, s1)" and rp: "reap_slot (agents s1 ! i) w = (a, w1)"
  shows "sup_grows P s w w1" "good_slot k a" "good_slot k b \<Longrightarrow> sup_grows P s w (snd (write_slot s1 b w1))"
proof -
  have h: "slot_handle k s i s1" by (rule load_handle [OF ok k ld])
  then show "good_slot k a" using reap_slot_good [OF rp] by (simp add: slot_handle_def)
  show r: "sup_grows P s w w1" by (rule sup_grows_ops(3) [OF rp])
  show "sup_grows P s w (snd (write_slot s1 b w1))" if "good_slot k b"
    using sup_grows_trans [OF r] sup_grows_ops(1) [OF that, of P s1 w1] handle_grows [OF h] by blast
qed

lemma status_grows:
  assumes ok: "sup_ok s" and st: "phronesis_supervisor_status (Some s) aid w = (r, so', w')"
  shows "sup_grows P s w w'"
proof (cases "valid_id aid")
  case False
  then show ?thesis using st by (simp add: phronesis_supervisor_status_def)
next
  case True
  then obtain k where k: "aid = Some k" "valid_id (Some k)" using valid_id_Some by (cases aid) auto
  obtain q s1 where ld: "load_agent s k w = (q, s1)" by fastforce
  show ?thesis
  proof (cases q)
    case (Inl e)
    then show ?thesis using st k ld by (simp add: phronesis_supervisor_status_def)
  next
    case (Inr i)
    obtain a w1 where rp: "reap_slot (agents s1 ! i) w = (a, w1)" by fastforce
    show ?thesis
      using loaded_grows(3) [OF ok k(2) ld [unfolded Inr] rp loaded_grows(2) [OF ok k(2) ld [unfolded Inr] rp]] st k ld Inr rp
      by (simp add: phronesis_supervisor_status_def)
  qed
qed

lemma stop_group_grows:
  assumes "good_slot k a" "stop_group i k a g s w = (r, s', w')"
  shows "sup_grows log_piece s w w'"
proof -
  let ?b = "a\<lparr>cgroup_path := [], slot_state := AGENT_STOPPED, slot_pid := 0, exit_status := -1\<rparr>"
  have gb: "good_slot k ?b" using assms(1) by (auto simp: good_slot_def slot_ok_def)
  obtain q w1 where c: "(if cgroup_path a \<noteq> [] then phronesis_cgroup_kill (cgroup_path a) w else (ERR_STATE, w)) = (q, w1)" by fastforce
  have 1: "sup_grows log_piece s w w1" using sup_grows_ops(8) [of _ s w "cgroup_path a"] c by (auto split: if_splits)
  have 2: "sup_grows log_piece s w (log_event s (Some k) ''stop'' d (snd (write_slot s ?b (phronesis_cgroup_remove p (snd (kill_tree g w1))))))" for d p
    by (rule sup_grows_trans [OF sup_grows_trans [OF sup_grows_trans [OF sup_grows_trans [OF 1 sup_grows_ops(4)] sup_grows_ops(9)]
          sup_grows_ops(1) [OF gb]] sup_grows_ops(2)])
  show ?thesis using assms(2) 2 unfolding stop_group_def c prod.case Let_def by auto
qed

lemma stop_grows:
  assumes ok: "sup_ok s" and st: "stop_body aid s w = (r, s', w')"
  shows "sup_grows log_piece s w w'"
proof (cases "valid_id aid")
  case False
  then show ?thesis using st by (simp add: stop_body_def)
next
  case True
  then obtain k where k: "aid = Some k" "valid_id (Some k)" using valid_id_Some by (cases aid) auto
  obtain q s1 where ld: "load_agent s k w = (q, s1)" by fastforce
  show ?thesis
  proof (cases q)
    case (Inl e)
    then show ?thesis using st k ld by (simp add: stop_body_def)
  next
    case (Inr i)
    note l = ld [unfolded Inr]
    obtain a w1 where rp: "reap_slot (agents s1 ! i) w = (a, w1)" by fastforce
    note g = loaded_grows [OF ok k(2) l rp]
    have h: "slot_handle k s i s1" by (rule load_handle [OF ok k(2) l])
    let ?b = "a\<lparr>slot_state := AGENT_STOPPED, slot_pid := 0, slot_pgid := 0\<rparr>"
    have gb: "good_slot k ?b" using g(2) by (auto simp: good_slot_def slot_ok_def)
    have lg: "sup_grows log_piece s w (log_event s1 (Some k) kd d (snd (write_slot s1 b w1)))" if "good_slot k b" for kd d b
      using sup_grows_trans [OF g(3) [OF that]] sup_grows_ops(2) [of s1] handle_grows [OF h] by blast
    have sg: "sup_grows log_piece s w v" if "stop_group i k a x s1 w1 = (r, t, v)" for x t v
      using sup_grows_trans [OF g(1)] stop_group_grows [OF g(2) that] handle_grows [OF h] by blast
    show ?thesis using st k ld Inr rp lg [OF g(2)] lg [OF gb] sg by (auto simp: stop_body_def Let_def split: if_splits)
  qed
qed

text \<open>The text that a policy check puts in the log, up to the reason.\<close>

definition check_detail :: "cstring_opt \<Rightarrow> cstring_opt \<Rightarrow> policy_result \<Rightarrow> string" where
  "check_detail tool act out =
     ''tool='' @ or_empty tool @ '' action='' @ or_empty act @ '' decision='' @ show_nat (decision_ord (pr_decision out))"

text \<open>Every check that answers ends by writing to the log; one that fails writes nothing there. The text has a tail
  that may depend on the answer.\<close>

definition check_logs ::
  "supervisor \<Rightarrow> cstring_opt \<Rightarrow> cstring_opt \<Rightarrow> cstring_opt \<Rightarrow> (policy_result \<Rightarrow> string) \<Rightarrow> world \<Rightarrow> rc + policy_result \<Rightarrow> world \<Rightarrow> bool" where
  "check_logs s aid tool act tail w r w' \<longleftrightarrow>
     (case r of
        Inl e \<Rightarrow> sup_grows (\<lambda>_ _. False) s w w'
      | Inr out \<Rightarrow> \<exists>wl. sup_grows (\<lambda>_ _. False) s w wl \<and> w' = log_event s aid ''policy'' (check_detail tool act out @ tail out) wl)"

definition reason_tail :: "policy_result \<Rightarrow> string" where
  "reason_tail out = '' '' @ pr_reason out"

text \<open>An answer that the identity check gave has no reason in its text.\<close>

definition refused_identity :: "supervisor \<Rightarrow> cstring_opt \<Rightarrow> cstring_opt \<Rightarrow> world \<Rightarrow> bool" where
  "refused_identity s aid tool w \<longleftrightarrow>
     \<not> phronesis_policy_deny_all (w_env w) \<and> (tool = Some ''seat'' \<or> tool = Some ''model'')
     \<and> fst (phronesis_policy_require_running_agent (Some s) aid w) \<noteq> None"

lemma sup_grows_weaken: "sup_grows (\<lambda>_ _. False) s w w' \<Longrightarrow> sup_grows P s w w'"
  unfolding sup_grows_def log_grows_def using log_adds_mono [of "\<lambda>_. False"] by blast

lemma check_logs_grows: "check_logs s aid tool act tail w r w' \<Longrightarrow> sup_grows log_piece s w w'"
  using sup_grows_trans [OF sup_grows_weaken sup_grows_ops(2)] sup_grows_weaken [of s w w']
  by (auto simp: check_logs_def split: sum.splits)

lemma log_event_dirs: "action_log s' = action_log s \<Longrightarrow> log_event s' aid kd d w = log_event s aid kd d w"
  by (simp add: log_event_def)

lemma check_eval_logs:
  assumes ok: "sup_ok s" and pc: "policy_check_eval aid tool act path s w = (r, s', w')"
  shows "check_logs s aid tool act reason_tail w r w'"
proof -
  have logs: "check_logs s aid tool act reason_tail w r w'"
    if "r = Inr out" "w' = log_event s aid ''policy'' (check_detail tool act out @ '' '' @ pr_reason out) wl" "sup_grows (\<lambda>_ _. False) s w wl" for out wl
    using that unfolding check_logs_def reason_tail_def by auto
  show ?thesis
  proof (cases "nonempty aid \<and> valid_id aid")
    case False
    then have "(\<exists>e. r = Inl e \<and> w' = w)
      \<or> (\<exists>out. r = Inr out \<and> w' = log_event s aid ''policy'' (check_detail tool act out @ '' '' @ pr_reason out) w)"
      using pc by (auto simp: policy_check_eval_def Let_def check_detail_def split: if_splits)
    then show ?thesis using logs [OF _ _ sup_grows_refl] by (auto simp: check_logs_def)
  next
    case True
    then obtain k where k: "aid = Some k" "valid_id (Some k)" using valid_id_Some by (cases aid) auto
    obtain q s1 where ld: "load_agent s k w = (q, s1)" by fastforce
    show ?thesis
    proof (cases q)
      case (Inl e)
      then have "(\<exists>e. r = Inl e \<and> w' = w)
        \<or> (\<exists>out. r = Inr out \<and> w' = log_event s aid ''policy'' (check_detail tool act out @ '' '' @ pr_reason out) w)"
        using pc k True ld load_failed_same [of s k w e s1]
        by (cases "e = ERR_NOTFOUND") (auto simp: policy_check_eval_def Let_def check_detail_def)
      then show ?thesis using logs [OF _ _ sup_grows_refl] by (auto simp: check_logs_def)
    next
      case (Inr i)
      note l = ld [unfolded Inr]
      obtain a w1 where rp: "reap_slot (agents s1 ! i) w = (a, w1)" by fastforce
      note g = loaded_grows [OF ok k(2) l rp]
      have "action_log (set_slot i a s1) = action_log s" using handle_dirs [OF load_handle [OF ok k(2) l]] by simp
      note e = log_event_dirs [OF this]
      have "\<exists>out. r = Inr out \<and> w' = log_event (set_slot i a s1) aid ''policy'' (check_detail tool act out @ '' '' @ pr_reason out) (snd (write_slot s1 a w1))"
        using pc k True ld Inr rp by (auto simp: policy_check_eval_def Let_def check_detail_def)
      then show ?thesis using logs [OF _ _ g(3) [OF g(2)]] unfolding e by blast
    qed
  qed
qed

lemma require_grows:
  assumes ok: "sup_ok s" and rq: "phronesis_policy_require_running_agent (Some s) aid w = (c, so', w')"
  shows "sup_grows P s w w'"
proof -
  obtain r so1 w1 where st: "phronesis_supervisor_status (Some s) aid w = (r, so1, w1)" by (metis prod.collapse)
  show ?thesis using status_grows [OF ok st] rq st
    by (cases r) (auto simp: phronesis_policy_require_running_agent_def split: if_splits)
qed

lemma policy_check_logs:
  assumes ok: "sup_ok s" and pc: "phronesis_policy_check (Some s) aid tool act path w = (r, so', w')"
  shows "check_logs s aid tool act (if refused_identity s aid tool w then (\<lambda>_. []) else reason_tail) w r w'"
proof -
  obtain c so1 w1 where g: "(if \<not> phronesis_policy_deny_all (w_env w) \<and> (tool = Some ''seat'' \<or> tool = Some ''model'')
      then phronesis_policy_require_running_agent (Some s) aid w else (None, Some s, w)) = (c, so1, w1)"
    by (metis prod.collapse)
  obtain s1 where s1: "so1 = Some s1" "sup_ok s1" "agents_dir s1 = agents_dir s" "action_log s1 = action_log s" "sup_grows (\<lambda>_ _. False) s w w1"
  proof (cases "\<not> phronesis_policy_deny_all (w_env w) \<and> (tool = Some ''seat'' \<or> tool = Some ''model'')")
    case True
    then have rq: "phronesis_policy_require_running_agent (Some s) aid w = (c, so1, w1)" using g by simp
    show ?thesis using require_running_effect [OF ok rq] require_grows [OF ok rq] that by (auto simp: only_agent_def)
  next
    case False
    then have "so1 = Some s" "w1 = w" using g by (auto split: if_splits)
    then show ?thesis using that ok by simp
  qed
  obtain r2 s2 w2 where e: "policy_check_eval aid tool act path s1 w1 = (r2, s2, w2)" by (metis prod.collapse)
  note cl = check_eval_logs [OF s1(2) e]
  have lifted: "check_logs s aid tool act reason_tail w r2 w2"
    using cl sup_grows_trans [OF s1(5)] unfolding check_logs_def sup_grows_dirs [OF s1(3,4)] log_event_dirs [OF s1(4)]
    by (cases r2) auto
  have ri: "refused_identity s aid tool w \<longleftrightarrow> c \<noteq> None" using g by (auto simp: refused_identity_def split: if_splits)
  show ?thesis
  proof (cases c)
    case None
    then show ?thesis using pc s1(1) e lifted ri unfolding phronesis_policy_check_def option.case g prod.case by simp
  next
    case (Some code)
    have d: "''tool='' @ or_empty tool @ '' action='' @ or_empty act @ '' decision='' @ show_nat (decision_ord DENY)
        = check_detail tool act (phronesis_policy_result_set DENY code)" by (simp add: check_detail_def)
    have "r = Inr (phronesis_policy_result_set DENY code)"
      "w' = log_event s aid ''policy'' (check_detail tool act (phronesis_policy_result_set DENY code)) w1"
      using pc Some unfolding phronesis_policy_check_def option.case g prod.case d by simp_all
    then show ?thesis using s1(5) ri Some by (auto simp: check_logs_def)
  qed
qed

lemma check_grows:
  "sup_ok s \<Longrightarrow> phronesis_policy_check (Some s) aid tool act path w = (r, so', w') \<Longrightarrow> sup_grows log_piece s w w'"
  using policy_check_logs check_logs_grows by blast

section \<open>Properties\<close>

text \<open>The life of a supervisor between its opening and its end: any operation with any arguments, and a host that does
  anything but touch the log file.\<close>

inductive seat_step :: "supervisor \<times> world \<Rightarrow> supervisor \<times> world \<Rightarrow> bool" where
  seat_start: "phronesis_supervisor_start (Some s) aid m ws argv w = (r, Some s', w') \<Longrightarrow> seat_step (s, w) (s', w')"
| seat_bind: "phronesis_supervisor_bind (Some s) aid m ws pid w = (r, Some s', w') \<Longrightarrow> seat_step (s, w) (s', w')"
| seat_status: "phronesis_supervisor_status (Some s) aid w = (q, Some s', w') \<Longrightarrow> seat_step (s, w) (s', w')"
| seat_stop: "phronesis_supervisor_stop (Some s) aid w = (r, Some s', w') \<Longrightarrow> seat_step (s, w) (s', w')"
| seat_check: "phronesis_policy_check (Some s) aid tool act path w = (c, Some s', w') \<Longrightarrow> seat_step (s, w) (s', w')"
| seat_log: "phronesis_supervisor_log (Some s) aid kind detail w = (r, w') \<Longrightarrow> seat_step (s, w) (s, w')"
| seat_host: "w_canon w' = w_canon w \<Longrightarrow> w_fs w' (w_canon w (action_log s)) = w_fs w (w_canon w (action_log s)) \<Longrightarrow> seat_step (s, w) (s, w')"

inductive_cases seat_stepE: "seat_step (s, w) (s', w')"

lemma log_op_grows: "phronesis_supervisor_log (Some s) aid kd d w = (r, w') \<Longrightarrow> sup_grows log_piece s w w'"
  using append_grows [of "action_log s" w aid kd d] by (auto simp: phronesis_supervisor_log_def sup_grows_def split: if_splits)

lemma sup_grows_adds:
  "sup_grows P s w w' \<Longrightarrow> log_private (agents_dir s) (action_log s) w
    \<Longrightarrow> log_adds (P (log_writable (action_log s) w)) (action_log s) w w'"
  by (simp add: sup_grows_def log_grows_def)

lemma seat_step_adds:
  assumes "seat_step (s, w) (s', w')" and ok: "sup_ok s" and pr: "log_private (agents_dir s) (action_log s) w"
  shows "log_adds (log_piece (log_writable (action_log s) w)) (action_log s) w w'"
  using assms(1)
proof (rule seat_stepE)
qed (auto simp: sup_ops log_adds_same intro!: sup_grows_adds [OF _ pr]
      intro: start_grows [OF ok] bind_grows [OF ok] status_grows [OF ok] stop_grows [OF ok] check_grows [OF ok] log_op_grows)

lemma seat_step_dirs: "seat_step (s, w) (s', w') \<Longrightarrow> sup_ok s \<Longrightarrow> \<exists>k. only_agent k s s'"
  by (erule seat_stepE)
    (auto simp: sup_ops dest: start_effect(1) bind_effect stop_effect status_effect policy_check_effect intro: only_agent_refl)

lemma log_piece_mono: "log_piece a p \<Longrightarrow> (b \<longrightarrow> a) \<Longrightarrow> log_piece b p"
  by (auto simp: log_piece_def)

lemma whole_pieces: "\<forall>p \<in> set ps. log_piece True p \<Longrightarrow> \<exists>rs. (\<forall>r \<in> set rs. is_record r) \<and> concat ps = records_text rs"
proof (induction ps)
  case Nil
  then show ?case by (intro exI [of _ "[]"]) (simp add: records_text_def)
next
  case (Cons p ps)
  then obtain r rs where "is_record r" "p = r @ [newline]" "\<forall>r \<in> set rs. is_record r" "concat ps = records_text rs"
    by (auto simp: log_piece_def)
  then show ?case by (intro exI [of _ "r # rs"]) (simp add: records_text_def)
qed

text \<open>A run whose steps may be restricted further, for instance to those that find the log writable.\<close>

lemma seat_run_adds:
  assumes ok: "sup_ok s0" and pr: "log_private (agents_dir s0) (action_log s0) w0"
    and st: "\<And>x y. R x y \<Longrightarrow> seat_step x y \<and> (whole \<longrightarrow> log_writable (action_log s0) (snd x))" and run: "R\<^sup>*\<^sup>* (s0, w0) (s, w)"
  shows "sup_ok s \<and> agents_dir s = agents_dir s0 \<and> action_log s = action_log s0 \<and> log_adds (log_piece whole) (action_log s0) w0 w"
  using run
proof (induction rule: rtranclp_induct2)
  case refl
  then show ?case using ok by (simp add: log_adds_same)
next
  case (step s1 w1 s2 w2)
  have i: "sup_ok s1" "agents_dir s1 = agents_dir s0" "action_log s1 = action_log s0" "log_adds (log_piece whole) (action_log s0) w0 w1"
    using step.IH by blast+
  have r: "seat_step (s1, w1) (s2, w2)" "whole \<longrightarrow> log_writable (action_log s0) w1" using st [OF step.hyps(2)] by simp_all
  have "w_canon w1 = w_canon w0" using i(4) by (simp add: log_adds_def)
  then have "log_private (agents_dir s1) (action_log s1) w1" using pr log_private_canon [of w1 w0] i(2,3) by simp
  from seat_step_adds [OF r(1) i(1) this] have "log_adds (log_piece whole) (action_log s0) w1 w2"
    unfolding i(3) by (rule log_adds_mono) (use r(2) log_piece_mono in blast)
  moreover have "sup_ok s2 \<and> agents_dir s2 = agents_dir s0 \<and> action_log s2 = action_log s0"
    using seat_step_dirs [OF r(1) i(1)] i(2,3) unfolding only_agent_def by auto
  ultimately show ?case using log_adds_trans [OF i(4)] by blast
qed

text \<open>C19: The action log is append-only. Whatever a supervisor is asked to do, in any order and with any arguments,
  and whatever the host does that leaves the log file alone, the bytes that the log held stay where they are, and what
  comes after them is made of pieces each of which is the line of a record or the beginning of one: no operation on slots,
  cgroups or processes truncates, replaces or rewrites the log, as long as its path is none of the slot and control files.
  A beginning without its end is what a write or a close that fails half-way leaves. When every step finds a log that can
  be opened, written and closed, every piece is a whole line that reads as a record: a time, an agent, a kind, a detail.\<close>

theorem audit_log_append_only:
  assumes "sup_ok s0" and "log_private (agents_dir s0) (action_log s0) w0" and "seat_step\<^sup>*\<^sup>* (s0, w0) (s, w)"
    and "w_fs w0 (w_canon w0 (action_log s0)) = Some (Reg b)"
  shows "(\<exists>ps. (\<forall>p \<in> set ps. \<exists>r. is_record r \<and> prefix p (r @ [newline]))
           \<and> w_fs w (w_canon w (action_log s)) = Some (Reg (b @ concat ps)))
    \<and> ((\<lambda>x y. seat_step x y \<and> log_writable (action_log s0) (snd x))\<^sup>*\<^sup>* (s0, w0) (s, w) \<longrightarrow>
         (\<exists>rs. (\<forall>r \<in> set rs. is_record r) \<and> w_fs w (w_canon w (action_log s)) = Some (Reg (b @ records_text rs))))"
proof (intro conjI impI)
  show "\<exists>ps. (\<forall>p \<in> set ps. \<exists>r. is_record r \<and> prefix p (r @ [newline])) \<and> w_fs w (w_canon w (action_log s)) = Some (Reg (b @ concat ps))"
    using seat_run_adds [of s0 w0 seat_step False, OF assms(1,2) _ assms(3)] assms(4) unfolding log_adds_def log_piece_def by auto
  assume "(\<lambda>x y. seat_step x y \<and> log_writable (action_log s0) (snd x))\<^sup>*\<^sup>* (s0, w0) (s, w)"
  from seat_run_adds [OF assms(1,2) _ this, of True] assms(4)
  obtain ps where ps: "\<forall>p \<in> set ps. log_piece True p" "w_fs w (w_canon w (action_log s)) = Some (Reg (b @ concat ps))"
    unfolding log_adds_def by auto
  then show "\<exists>rs. (\<forall>r \<in> set rs. is_record r) \<and> w_fs w (w_canon w (action_log s)) = Some (Reg (b @ records_text rs))"
    using whole_pieces [OF ps(1)] by auto
qed

section \<open>What a verdict leaves in the log\<close>

definition escaped :: "cstring_opt \<Rightarrow> nat" where
  "escaped p = length (concat (map esc_log (log_text p)))"

lemma log_event_writes:
  assumes b: "w_fs w (w_canon w (action_log s)) = Some (Reg b)" and f: "log_writable (action_log s) w" and k: "kd \<noteq> []" "escaped (Some kd) < 1024"
  shows "w_fs (log_event s aid kd d w) (w_canon w (action_log s)) =
    Some (Reg (b @ (if escaped (Some (snprintf_buf PHRONESIS_DETAIL_MAX d)) < 1024 \<and> escaped aid < 128
                    then log_record w aid (Some kd) (Some (snprintf_buf PHRONESIS_DETAIL_MAX d)) @ [newline] else [])))"
proof -
  let ?d = "snprintf_buf PHRONESIS_DETAIL_MAX d"
  have o: "fopen_wa False (action_log s) w = (True, w)" using b f by (simp add: fopen_wa_def log_writable_def)
  have p: "fput (action_log s) x w = (PutOk, put_node (w_canon w (action_log s)) (Some (Reg (b @ x))) w)" for x
    using b f by (simp add: fput_def put_bytes_def log_writable_def)
  have j: "json_escape p n = (if escaped p < n then Some (concat (map esc_log (log_text p))) else None)" for p n
    using json_escape_Some [of p n] by (cases "json_escape p n") (auto simp: escaped_def)
  have r: "log_line (w_time w) (concat (map esc_log (log_text aid))) (concat (map esc_log (log_text (Some kd)))) (concat (map esc_log (log_text (Some ?d))))
      = log_record w aid (Some kd) (Some ?d)" by (simp add: log_record_def)
  have m: "PHRONESIS_DETAIL_MAX * 2 = 1024" "PHRONESIS_ID_MAX * 2 = 128" by (simp_all add: PHRONESIS_DETAIL_MAX_def PHRONESIS_ID_MAX_def)
  show ?thesis
    using k b by (simp add: log_event_def phronesis_action_log_append_def j o p r nonempty_def m)
qed

lemma log_event_fault: "w_fault (log_event s aid kd d w) = w_fault w"
proof -
  have o: "w_fault v = w_fault w" if "fopen_wa t p w = (x, v)" for t p x v
    using that by (auto simp: fopen_wa_def split: if_splits option.splits node.splits)
  have f: "w_fault v = w_fault u" if "fput p c u = (x, v)" for p c u x v
    using that by (auto simp: fput_def put_bytes_def split: if_splits option.splits node.splits)
  show ?thesis
    using o f unfolding log_event_def phronesis_action_log_append_def
    by (simp split: option.split prod.split bool.split put_result.split)
qed

text \<open>The text of a check with a long tool name is cut inside that name: the record has neither the action nor the
  verdict.\<close>

lemma verdict_cut: "506 \<le> length t \<Longrightarrow> take 511 (check_detail (Some t) act out @ x) = ''tool='' @ take 506 t"
  by (simp add: check_detail_def or_empty_def)

text \<open>C20: Which verdicts are on record. When \<open>phronesis_policy_check\<close> answers and the log is there and can be written, the
  text \<open>tool=... action=... decision=...\<close>, followed by the reason unless the identity check gave the answer, is cut to
  its first 511 bytes. If the cut text takes fewer than 1024 bytes after escaping and the agent's name fewer than 128, the
  log is what it was before with one line added, which reads as a record of kind policy for that agent with the cut
  text as its detail. Otherwise nothing at all is added, and the verdict stands all the same.\<close>

theorem verdict_recorded:
  assumes ok: "sup_ok s" and pr: "log_private (agents_dir s) (action_log s) w"
    and pc: "phronesis_policy_check (Some s) aid tool act path w = (Inr out, so', w')"
    and b: "w_fs w (w_canon w (action_log s)) = Some (Reg b)" and f: "log_writable (action_log s) w'"
    and t: "t = take 511 (check_detail tool act out @ (if refused_identity s aid tool w then [] else '' '' @ pr_reason out))"
  shows "if escaped (Some t) < 1024 \<and> escaped aid < 128
     then \<exists>r ts. w_fs w' (w_canon w (action_log s)) = Some (Reg (b @ r @ [newline]))
            \<and> newline \<notin> set r \<and> read_record r = Some (ts, or_empty aid, ''policy'', t)
     else w_fs w' (w_canon w (action_log s)) = Some (Reg b)"
proof -
  let ?d = "check_detail tool act out @ (if refused_identity s aid tool w then [] else '' '' @ pr_reason out)"
  obtain wl where g: "sup_grows (\<lambda>_ _. False) s w wl" and w': "w' = log_event s aid ''policy'' ?d wl"
    using policy_check_logs [OF ok pc] unfolding check_logs_def reason_tail_def by (auto split: if_splits)
  have "log_adds (\<lambda>_. False) (action_log s) w wl" using sup_grows_adds [OF g pr] .
  then have l: "w_canon wl = w_canon w" "w_fs wl (w_canon w (action_log s)) = Some (Reg b)"
    using b by (auto simp: log_adds_def)
  have fl: "log_writable (action_log s) wl" using f unfolding w' by (simp add: log_writable_def log_event_fault)
  have k: "''policy'' \<noteq> []" "escaped (Some ''policy'') < 1024" by code_simp+
  have t': "snprintf_buf PHRONESIS_DETAIL_MAX ?d = t" by (simp add: t snprintf_buf_def PHRONESIS_DETAIL_MAX_def)
  have "log_text aid = or_empty aid" "log_text (Some ''policy'') = ''policy''" "log_text (Some t) = t"
    by (simp_all add: log_text_def or_empty_def split: option.split)
  then have "read_record (log_record wl aid (Some ''policy'') (Some t)) = Some (w_time wl, or_empty aid, ''policy'', t)"
    by (simp only: read_log_record)
  then show ?thesis
    using log_event_writes [OF l(2) [folded l(1)] fl k, of aid ?d] log_record_line [of wl aid "Some ''policy''" "Some t"]
    unfolding w' l(1) t' by auto
qed

text \<open>A request that is allowed and leaves no trace in the log: the tool is any text that is not \<open>seat\<close>, here a
  run of control characters, and its escape does not fit.\<close>

definition audit_world :: world where
  "audit_world = demo_world\<lparr>w_fs := (w_fs demo_world)([''h'', ''s'', ''log'', ''actions.jsonl''] \<mapsto> Reg ''{}'')\<rparr>"

definition noisy_tool :: string where
  "noisy_tool = replicate 168 (CHR 0x01)"

definition noisy_check :: "(rc + policy_result) \<times> supervisor option \<times> world" where
  "noisy_check = phronesis_policy_check (Some seated_sup) (Some ''a1'') (Some noisy_tool) (Some ''read'') (Some ''/w/x'') audit_world"

lemma noisy_allowed: "fst noisy_check = Inr (phronesis_policy_result_set ALLOW PATH_UNDER_WORKSPACE_ALLOW)"
  by code_simp

lemma path_comps_last: "slash \<notin> set f \<Longrightarrow> f \<noteq> [] \<Longrightarrow> path_comps (c @ slash # f) = path_comps c @ [f]"
  by (simp add: path_comps_append_slash path_comps_single)

lemma audit_private: "log_private (agents_dir seated_sup) (action_log seated_sup) audit_world"
proof -
  have c: "w_canon audit_world = path_comps" by (simp add: audit_world_def demo_world_def fresh_world_def)
  have l: "path_comps (action_log seated_sup) = [''h'', ''s'', ''log'', ''actions.jsonl'']"
    and a: "path_comps (agents_dir seated_sup) = [''h'', ''r'', ''agents'']" by code_simp+
  show ?thesis
    unfolding log_private_def c l by (auto simp: path_comps_last a plain_comp_def)
qed

lemma noisy_split:
  obtains s' w' where "phronesis_policy_check (Some seated_sup) (Some ''a1'') (Some noisy_tool) (Some ''read'') (Some ''/w/x'') audit_world
      = (Inr (phronesis_policy_result_set ALLOW PATH_UNDER_WORKSPACE_ALLOW), Some s', w')" "noisy_check = (Inr (phronesis_policy_result_set ALLOW PATH_UNDER_WORKSPACE_ALLOW), Some s', w')"
proof -
  obtain r so w' where n: "noisy_check = (r, so, w')" by (metis prod.collapse)
  then have r: "r = Inr (phronesis_policy_result_set ALLOW PATH_UNDER_WORKSPACE_ALLOW)" using noisy_allowed unfolding n by (simp only: fst_conv)
  have "phronesis_policy_check (Some seated_sup) (Some ''a1'') (Some noisy_tool) (Some ''read'') (Some ''/w/x'') audit_world = (r, so, w')"
    using n by (simp add: noisy_check_def)
  from policy_check_effect [OF seated_sup_ok(1) this] this n r show ?thesis using that by blast
qed

lemma audit_log_start: "w_canon audit_world (action_log seated_sup) = [''h'', ''s'', ''log'', ''actions.jsonl'']"
  "w_fs audit_world (w_canon audit_world (action_log seated_sup)) = Some (Reg ''{}'')"
  by code_simp+

text \<open>One event on a host that writes and on one whose close loses all but the first ten bytes.\<close>

definition torn_world :: world where
  "torn_world = audit_world\<lparr>w_fault := (\<lambda>f p. f = IoClose), w_cut := (\<lambda>_ _. 10)\<rparr>"

definition one_event :: "world \<Rightarrow> world" where
  "one_event w = snd (phronesis_supervisor_log (Some seated_sup) (Some ''a1'') (Some ''tick'') (Some ''hello'') w)"

lemma torn_start: "log_private (agents_dir seated_sup) (action_log seated_sup) torn_world"
  "w_fs torn_world (w_canon torn_world (action_log seated_sup)) = Some (Reg ''{}'')"
  using audit_private log_private_canon [of torn_world audit_world] audit_log_start(2) by (simp_all add: torn_world_def)

lemma one_event_step: "seat_step (seated_sup, w) (seated_sup, one_event w)"
  unfolding one_event_def by (rule seat_log) (rule prod.collapse [symmetric])

lemma one_event_run: "seat_step\<^sup>*\<^sup>* (seated_sup, w) (seated_sup, one_event w)"
  by (rule r_into_rtranclp) (rule one_event_step)

lemma one_event_adds:
  "w_fs (one_event audit_world) (w_canon (one_event audit_world) (action_log seated_sup)) \<noteq> Some (Reg ''{}'')"
  "w_fs (one_event torn_world) (w_canon (one_event torn_world) (action_log seated_sup)) \<noteq> Some (Reg ''{}'')"
  "log_writable (action_log seated_sup) audit_world"
  by code_simp+

lemma audit_log_append_only_witness:
  "(\<exists>rs. rs \<noteq> [] \<and> (\<forall>r \<in> set rs. is_record r)
     \<and> w_fs (one_event audit_world) (w_canon (one_event audit_world) (action_log seated_sup)) = Some (Reg (''{}'' @ records_text rs)))
   \<and> (\<exists>ps. ps \<noteq> [] \<and> (\<forall>p \<in> set ps. \<exists>r. is_record r \<and> prefix p (r @ [newline]))
     \<and> w_fs (one_event torn_world) (w_canon (one_event torn_world) (action_log seated_sup)) = Some (Reg (''{}'' @ concat ps)))"
proof
  have r: "(\<lambda>x y. seat_step x y \<and> log_writable (action_log seated_sup) (snd x))\<^sup>*\<^sup>* (seated_sup, audit_world) (seated_sup, one_event audit_world)"
    using one_event_step one_event_adds(3) by (intro r_into_rtranclp) simp
  obtain rs where rs: "\<forall>r \<in> set rs. is_record r"
    "w_fs (one_event audit_world) (w_canon (one_event audit_world) (action_log seated_sup)) = Some (Reg (''{}'' @ records_text rs))"
    using conjunct2 [OF audit_log_append_only [OF seated_sup_ok(1) audit_private one_event_run audit_log_start(2)]] r by blast
  then have "rs \<noteq> []" using one_event_adds(1) by (auto simp: records_text_def)
  with rs show "\<exists>rs. rs \<noteq> [] \<and> (\<forall>r \<in> set rs. is_record r)
     \<and> w_fs (one_event audit_world) (w_canon (one_event audit_world) (action_log seated_sup)) = Some (Reg (''{}'' @ records_text rs))" by blast
  obtain ps where ps: "\<forall>p \<in> set ps. \<exists>r. is_record r \<and> prefix p (r @ [newline])"
    "w_fs (one_event torn_world) (w_canon (one_event torn_world) (action_log seated_sup)) = Some (Reg (''{}'' @ concat ps))"
    using conjunct1 [OF audit_log_append_only [OF seated_sup_ok(1) torn_start(1) one_event_run torn_start(2)]] by blast
  then have "ps \<noteq> []" using one_event_adds(2) by auto
  with ps show "\<exists>ps. ps \<noteq> [] \<and> (\<forall>p \<in> set ps. \<exists>r. is_record r \<and> prefix p (r @ [newline]))
     \<and> w_fs (one_event torn_world) (w_canon (one_event torn_world) (action_log seated_sup)) = Some (Reg (''{}'' @ concat ps))" by blast
qed

lemma noisy_writable: "log_writable (action_log seated_sup) (snd (snd noisy_check))"
  by code_simp

lemma noisy_escaped:
  "\<not> escaped (Some (take 511 (check_detail (Some noisy_tool) (Some ''read'') (phronesis_policy_result_set ALLOW PATH_UNDER_WORKSPACE_ALLOW)
      @ (if refused_identity seated_sup (Some ''a1'') (Some noisy_tool) audit_world then []
         else '' '' @ pr_reason (phronesis_policy_result_set ALLOW PATH_UNDER_WORKSPACE_ALLOW))))) < 1024"
  by code_simp

text \<open>A plain read of the same path, which is recorded in full.\<close>

definition plain_check :: "(rc + policy_result) \<times> supervisor option \<times> world" where
  "plain_check = phronesis_policy_check (Some seated_sup) (Some ''a1'') (Some ''fs'') (Some ''read'') (Some ''/w/x'') audit_world"

definition plain_text :: string where
  "plain_text = take 511 (check_detail (Some ''fs'') (Some ''read'') (phronesis_policy_result_set ALLOW PATH_UNDER_WORKSPACE_ALLOW)
      @ (if refused_identity seated_sup (Some ''a1'') (Some ''fs'') audit_world then []
         else '' '' @ pr_reason (phronesis_policy_result_set ALLOW PATH_UNDER_WORKSPACE_ALLOW)))"

lemma plain_facts: "fst plain_check = Inr (phronesis_policy_result_set ALLOW PATH_UNDER_WORKSPACE_ALLOW)"
  "log_writable (action_log seated_sup) (snd (snd plain_check))" "escaped (Some plain_text) < 1024 \<and> escaped (Some ''a1'') < 128"
  "prefix ''tool=fs action=read decision=1 '' plain_text"
  by code_simp+

lemma verdict_recorded_witness:
  "w_fs (snd (snd noisy_check)) [''h'', ''s'', ''log'', ''actions.jsonl''] = Some (Reg ''{}'')
   \<and> (\<exists>r ts d. w_fs (snd (snd plain_check)) [''h'', ''s'', ''log'', ''actions.jsonl''] = Some (Reg (''{}'' @ r @ [newline]))
        \<and> read_record r = Some (ts, ''a1'', ''policy'', d) \<and> prefix ''tool=fs action=read decision=1 '' d)"
proof
  obtain s' w' where n: "phronesis_policy_check (Some seated_sup) (Some ''a1'') (Some noisy_tool) (Some ''read'') (Some ''/w/x'') audit_world
      = (Inr (phronesis_policy_result_set ALLOW PATH_UNDER_WORKSPACE_ALLOW), Some s', w')"
    "noisy_check = (Inr (phronesis_policy_result_set ALLOW PATH_UNDER_WORKSPACE_ALLOW), Some s', w')" by (rule noisy_split)
  have f: "log_writable (action_log seated_sup) w'" using noisy_writable unfolding n(2) by (simp only: snd_conv)
  from verdict_recorded [OF seated_sup_ok(1) audit_private n(1) audit_log_start(2) f refl] noisy_escaped
  show "w_fs (snd (snd noisy_check)) [''h'', ''s'', ''log'', ''actions.jsonl''] = Some (Reg ''{}'')"
    unfolding n(2) audit_log_start(1) by (simp only: snd_conv if_False simp_thms)
  obtain c so v where p0: "plain_check = (c, so, v)" by (metis prod.collapse)
  have "c = Inr (phronesis_policy_result_set ALLOW PATH_UNDER_WORKSPACE_ALLOW)" using plain_facts(1) unfolding p0 by (simp only: fst_conv)
  note p = p0 [unfolded this]
  have g: "log_writable (action_log seated_sup) v" using plain_facts(2) unfolding p by (simp only: snd_conv)
  from verdict_recorded [OF seated_sup_ok(1) audit_private p [unfolded plain_check_def] audit_log_start(2) g plain_text_def] plain_facts(3)
  obtain r ts where "w_fs v [''h'', ''s'', ''log'', ''actions.jsonl''] = Some (Reg (''{}'' @ r @ [newline]))"
    "read_record r = Some (ts, or_empty (Some ''a1''), ''policy'', plain_text)"
    unfolding audit_log_start(1) by (simp only: if_True simp_thms) blast
  then show "\<exists>r ts d. w_fs (snd (snd plain_check)) [''h'', ''s'', ''log'', ''actions.jsonl''] = Some (Reg (''{}'' @ r @ [newline]))
        \<and> read_record r = Some (ts, ''a1'', ''policy'', d) \<and> prefix ''tool=fs action=read decision=1 '' d"
    using plain_facts(4) unfolding p or_empty_def by (simp only: snd_conv option.case) blast
qed

end
