(* ===== verification/Server.thy ===== *)
theory Server
  imports Capnp_Api
begin

text \<open>
  The life of a policy host: one supervisor, one pack host and the operating system around them. A step is a
  call of the wire interface (\<open>capnp_api.c\<close>), a call of the supervisor or of the string bridge (\<open>sup_step\<close>), a
  reload by message or by path, or anything that the operating system does. The theorems say what holds of
  the two states after any number of steps, and which steps can change the packs in force.
\<close>

type_synonym 'f server = "supervisor \<times> 'f pack_host \<times> world"

section \<open>Steps\<close>

text \<open>The calls other than a reload. A request over the wire leaves the pack host alone, apart from the shell
  and audio checks, which may load the packs for the first time.\<close>

inductive serve :: "('e, 'f) vm \<Rightarrow> 'm codec \<Rightarrow> 'f server \<Rightarrow> 'f server \<Rightarrow> bool" for vm cd where
  serve_seat: "phronesis_check_seat cd (Some s) inp w = (out, Some s', w') \<Longrightarrow> serve vm cd (s, st, w) (s', st, w')"
| serve_model: "phronesis_check_model cd (Some s) inp w = (out, Some s', w') \<Longrightarrow> serve vm cd (s, st, w) (s', st, w')"
| serve_path: "phronesis_check_path cd (Some s) inp w = (out, Some s', w') \<Longrightarrow> serve vm cd (s, st, w) (s', st, w')"
| serve_shell: "phronesis_check_shell vm cd (Some s) inp w st = (out, Some s', w', st') \<Longrightarrow> serve vm cd (s, st, w) (s', st', w')"
| serve_audio: "phronesis_check_audio vm cd inp w st = (out, st') \<Longrightarrow> serve vm cd (s, st, w) (s, st', w)"
| serve_admit_seat: "phronesis_admit_seat cd (Some s) inp w = (out, Some s', w') \<Longrightarrow> serve vm cd (s, st, w) (s', st, w')"
| serve_admit_model: "phronesis_admit_model cd (Some s) inp w = (out, Some s', w') \<Longrightarrow> serve vm cd (s, st, w) (s', st, w')"
| serve_agent_status: "phronesis_agent_status cd (Some s) inp w = (out, Some s', w') \<Longrightarrow> serve vm cd (s, st, w) (s', st, w')"
| serve_local: "sup_step (s, w) (s', w') \<Longrightarrow> serve vm cd (s, st, w) (s', st, w')"

inductive reload :: "('e, 'f) vm \<Rightarrow> 'm codec \<Rightarrow> 'f server \<Rightarrow> 'f server \<Rightarrow> bool" for vm cd where
  reload_message: "phronesis_reload_shell_pack vm cd inp w st = (out, w', st') \<Longrightarrow> reload vm cd (s, st, w) (s, st', w')"
| reload_path: "phronesis_shell_pack_reload vm path w st = (r, w', st') \<Longrightarrow> reload vm cd (s, st, w) (s, st', w')"

inductive server_step :: "('e, 'f) vm \<Rightarrow> 'm codec \<Rightarrow> 'f server \<Rightarrow> 'f server \<Rightarrow> bool" for vm cd where
  step_serve: "serve vm cd x y \<Longrightarrow> server_step vm cd x y"
| step_reload: "reload vm cd x y \<Longrightarrow> server_step vm cd x y"

inductive_simps server_step_simp: "server_step vm cd x y"

lemmas rtranclp_induct3 =
  rtranclp_induct [of _ "(a1, a2, a3)" "(b1, b2, b3)", split_rule, consumes 1, case_names refl step]

lemmas converse_rtranclp_induct3 =
  converse_rtranclp_induct [of _ "(a1, a2, a3)" "(b1, b2, b3)", split_rule, consumes 1, case_names refl step]

section \<open>What a request does to the supervisor\<close>

lemma check_seat_effect:
  assumes ok: "sup_ok s" and c: "phronesis_check_seat cd (Some s) inp w = (out, so', w')"
  shows "\<exists>k s'. so' = Some s' \<and> only_agent k s s'"
proof -
  have "so' = Some s \<or> (\<exists>a r. admit_running_agent (Some s) a w = (r, so', w'))"
    using c by (auto simp: phronesis_check_seat_def Let_def split: option.splits prod.splits)
  then show ?thesis using only_agent_refl [OF ok] admit_effect [OF ok] by blast
qed

lemma check_model_effect:
  assumes ok: "sup_ok s" and c: "phronesis_check_model cd (Some s) inp w = (out, so', w')"
  shows "\<exists>k s'. so' = Some s' \<and> only_agent k s s'"
proof -
  have "so' = Some s \<or> (\<exists>a r. admit_running_agent (Some s) a w = (r, so', w'))"
    using c by (auto simp: phronesis_check_model_def Let_def split: option.splits prod.splits)
  then show ?thesis using only_agent_refl [OF ok] admit_effect [OF ok] by blast
qed

lemma check_path_effect:
  assumes ok: "sup_ok s" and c: "phronesis_check_path cd (Some s) inp w = (out, so', w')"
  shows "\<exists>k s'. so' = Some s' \<and> only_agent k s s'"
proof -
  have "so' = Some s \<or> (\<exists>a n ws. workspace_for (Some s) a n w = (ws, so', w'))"
    using c by (auto simp: phronesis_check_path_def Let_def split: option.splits prod.splits if_splits)
  then show ?thesis using only_agent_refl [OF ok] workspace_effect [OF ok] by blast
qed

lemma check_shell_parts:
  assumes "phronesis_check_shell vm cd so inp w st = (out, so', w', st')"
  shows "(so', w', st') = (so, w, st)
    \<or> (\<exists>a n ws sc. workspace_for so a n w = (ws, so', w') \<and> shell_check_body vm cd a ws sc w' st = (out, st'))"
proof (cases "open_in cd inp")
  case (Opened m)
  then show ?thesis using assms
    by (cases "deny_if_all cd (w_env w) (read_agent (sh_agentId (read_ShellCheck cd m)))")
      (auto simp: phronesis_check_shell_def Let_def split: prod.splits)
qed (use assms in \<open>simp_all add: phronesis_check_shell_def\<close>)

lemma admit_seat_effect:
  assumes ok: "sup_ok s" and c: "phronesis_admit_seat cd (Some s) inp w = (out, so', w')"
  shows "\<exists>k s'. so' = Some s' \<and> only_agent k s s'"
proof -
  have "so' = Some s \<or> (\<exists>inner. phronesis_check_seat cd (Some s) inner w = (out, so', w'))"
    using c by (auto simp: phronesis_admit_seat_def Let_def split: option.splits)
  then show ?thesis using only_agent_refl [OF ok] check_seat_effect [OF ok] by blast
qed

lemma admit_model_effect:
  assumes ok: "sup_ok s" and c: "phronesis_admit_model cd (Some s) inp w = (out, so', w')"
  shows "\<exists>k s'. so' = Some s' \<and> only_agent k s s'"
proof -
  have "so' = Some s \<or> (\<exists>inner. phronesis_check_model cd (Some s) inner w = (out, so', w'))"
    using c by (auto simp: phronesis_admit_model_def Let_def split: option.splits)
  then show ?thesis using only_agent_refl [OF ok] check_model_effect [OF ok] by blast
qed

lemma agent_status_effect:
  assumes ok: "sup_ok s" and c: "phronesis_agent_status cd (Some s) inp w = (out, so', w')"
  shows "\<exists>k s'. so' = Some s' \<and> only_agent k s s'"
proof -
  have "so' = Some s \<or> (\<exists>aid r. phronesis_supervisor_status (Some s) aid w = (r, so', w'))"
    using c by (auto simp: phronesis_agent_status_def Let_def split: option.splits prod.splits sum.splits if_splits)
  then show ?thesis using only_agent_refl [OF ok] status_effect [OF ok] by blast
qed

section \<open>What a request does to the pack host\<close>

text \<open>A request leaves the packs as they are, or loads them for the first time.\<close>

definition law_kept :: "'f pack_host \<Rightarrow> 'f pack_host \<Rightarrow> bool" where
  "law_kept st st' \<longleftrightarrow> host_ok st'
     \<and> (pack_loaded st \<or> pack_failed st \<longrightarrow> packs st' = packs st \<and> pack_loaded st' = pack_loaded st \<and> pack_failed st' = pack_failed st)"

lemma law_kept_refl: "host_ok st \<Longrightarrow> law_kept st st"
  by (simp add: law_kept_def)

lemma law_kept_trans: "law_kept a b \<Longrightarrow> law_kept b c \<Longrightarrow> law_kept a c"
  by (auto simp: law_kept_def)

lemma load_once_kept:
  assumes ok: "host_ok st" and ld: "load_pack_once vm w st = (b, st')"
  shows "law_kept st st'"
proof (cases "pack_failed st \<or> pack_loaded st")
  case True
  then show ?thesis using ld ok by (auto simp: load_pack_once_def law_kept_def split: if_splits)
next
  case False
  then obtain r where "load_packs_from_spec vm w (Some (default_pack_spec st w)) False st = (r, st')"
    using ld by (auto simp: load_pack_once_def split: prod.splits)
  from load_spec_result [OF this ok] show ?thesis using False by (simp add: law_kept_def)
qed

lemma compose_kept:
  assumes ok: "host_ok st" and c: "compose_pack_entry vm cd w fl inp st = (out, st')"
  shows "law_kept st st'"
proof -
  have "snd (load_pack_once vm w st) = st'"
    using c by (auto simp: compose_pack_entry_def split: prod.splits bool.splits if_splits)
  then show ?thesis using load_once_kept [OF ok, of vm w] by (cases "load_pack_once vm w st") simp
qed

lemma shell_pack_kept:
  assumes ok: "host_ok st" and c: "phronesis_shell_pack vm cd w ws cwd argv st = (out, st')"
  shows "law_kept st st'"
proof -
  obtain b st1 where ld: "load_pack_once vm w st = (b, st1)" by fastforce
  note k = load_once_kept [OF ok ld]
  have "st' = st1 \<or> (\<exists>fl inp. compose_pack_entry vm cd w fl inp st1 = (out, st'))"
    using c ld by (cases b; cases "phronesis_build_shell_view cd w ws cwd argv") (auto simp: phronesis_shell_pack_def)
  moreover have "host_ok st1" using k by (simp add: law_kept_def)
  ultimately show ?thesis using k compose_kept law_kept_trans by blast
qed

lemma shell_body_kept:
  assumes ok: "host_ok st" and c: "shell_check_body vm cd a ws sc w st = (out, st')"
  shows "law_kept st st'"
proof -
  have "st' = st \<or> (\<exists>cwd argv out. phronesis_shell_pack vm cd w ws cwd argv st = (out, st'))"
    using c by (auto simp: shell_check_body_def Let_def split: prod.splits if_splits)
  then show ?thesis using law_kept_refl [OF ok] shell_pack_kept [OF ok] by blast
qed

lemma check_shell_effect:
  assumes ok: "sup_ok s" "host_ok st" and c: "phronesis_check_shell vm cd (Some s) inp w st = (out, so', w', st')"
  shows "(\<exists>k s'. so' = Some s' \<and> only_agent k s s') \<and> law_kept st st'"
  using check_shell_parts [OF c]
proof (elim disjE exE conjE)
  assume "(so', w', st') = (Some s, w, st)"
  then show ?thesis using only_agent_refl [OF ok(1)] law_kept_refl [OF ok(2)] by blast
next
  fix a n ws sc
  assume "workspace_for (Some s) a n w = (ws, so', w')" "shell_check_body vm cd a ws sc w' st = (out, st')"
  from workspace_effect [OF ok(1) this(1)] shell_body_kept [OF ok(2) this(2)] show ?thesis by blast
qed

lemma check_audio_kept:
  assumes ok: "host_ok st" and c: "phronesis_check_audio vm cd inp w st = (out, st')"
  shows "law_kept st st'"
proof -
  have "st' = st \<or> (\<exists>fl i out. compose_pack_entry vm cd w fl i st = (out, st'))"
    using c by (auto simp: phronesis_check_audio_def phronesis_audio_pack_def Let_def split: option.splits prod.splits if_splits)
  then show ?thesis using law_kept_refl [OF ok] compose_kept [OF ok] by blast
qed

section \<open>What a step does\<close>

lemma serve_effect:
  assumes "serve vm cd (s, st, w) (s', st', w')" and ok: "sup_ok s" "host_ok st"
  shows "(\<exists>k. only_agent k s s') \<and> law_kept st st'"
  using assms(1)
proof (cases rule: serve.cases)
  case (serve_seat inp out)
  then show ?thesis using check_seat_effect [OF ok(1) serve_seat(2)] law_kept_refl [OF ok(2)] by auto
next
  case (serve_model inp out)
  then show ?thesis using check_model_effect [OF ok(1) serve_model(2)] law_kept_refl [OF ok(2)] by auto
next
  case (serve_path inp out)
  then show ?thesis using check_path_effect [OF ok(1) serve_path(2)] law_kept_refl [OF ok(2)] by auto
next
  case (serve_shell inp out)
  then show ?thesis using check_shell_effect [OF ok] by blast
next
  case (serve_audio inp out)
  then show ?thesis using check_audio_kept [OF ok(2)] only_agent_refl [OF ok(1)] by blast
next
  case (serve_admit_seat inp out)
  then show ?thesis using admit_seat_effect [OF ok(1) serve_admit_seat(2)] law_kept_refl [OF ok(2)] by auto
next
  case (serve_admit_model inp out)
  then show ?thesis using admit_model_effect [OF ok(1) serve_admit_model(2)] law_kept_refl [OF ok(2)] by auto
next
  case (serve_agent_status inp out)
  then show ?thesis using agent_status_effect [OF ok(1) serve_agent_status(2)] law_kept_refl [OF ok(2)] by auto
next
  case serve_local
  then show ?thesis using sup_step_effect [OF serve_local(2) ok(1)] law_kept_refl [OF ok(2)] by auto
qed

text \<open>A reload by message is a reload by path, or does nothing.\<close>

lemma reload_is_load:
  assumes "reload vm cd (s, st, w) (s', st', w')"
  shows "s' = s \<and> ((st', w') = (st, w) \<or> (\<exists>path r. phronesis_shell_pack_reload vm path w st = (r, w', st')))"
  using assms
proof (cases rule: reload.cases)
  case (reload_message inp out)
  have "(st', w') = (st, w) \<or> (\<exists>path r. phronesis_shell_pack_reload_internal vm path w st = (r, w', st'))"
    using reload_message(2)
    by (auto simp: phronesis_reload_shell_pack_def Let_def split: option.splits prod.splits if_splits)
  moreover have "\<exists>r'. phronesis_shell_pack_reload vm path w st = (r', w', st')"
    if "phronesis_shell_pack_reload_internal vm path w st = (r, w', st')" for path r
    using that by (cases r) (auto simp: phronesis_shell_pack_reload_def)
  ultimately show ?thesis using reload_message(1) by blast
qed blast

lemma server_step_ok:
  assumes st: "server_step vm cd (s, st, w) (s', st', w')" and ok: "sup_ok s" "host_ok st"
  shows "sup_ok s' \<and> host_ok st' \<and> (\<exists>k. only_agent k s s')"
  using st [unfolded server_step_simp]
proof
  assume "serve vm cd (s, st, w) (s', st', w')"
  from serve_effect [OF this ok] show ?thesis by (auto simp: law_kept_def only_agent_def)
next
  assume "reload vm cd (s, st, w) (s', st', w')"
  from reload_is_load [OF this] show ?thesis
    using ok reload_effect [OF ok(2)] only_agent_refl [OF ok(1)] by blast
qed

lemma server_run_ok:
  assumes "(server_step vm cd)\<^sup>*\<^sup>* (s, st, w) (s', st', w')" and ok: "sup_ok s" "host_ok st"
  shows "sup_ok s' \<and> host_ok st' \<and> agents_dir s' = agents_dir s \<and> action_log s' = action_log s
    \<and> runtime_dir s' = runtime_dir s \<and> state_dir s' = state_dir s"
  using assms(1)
proof (induction rule: rtranclp_induct3)
  case refl
  then show ?case using ok by simp
next
  case (step s1 st1 w1 s2 st2 w2)
  then show ?case using server_step_ok [OF step(2)] by (auto simp: only_agent_def)
qed

text \<open>Once packs have been loaded, or failed to load, the pack host is settled, and a step that changes the packs is a
  reload that was accepted.\<close>

definition settled :: "'f pack_host \<Rightarrow> bool" where
  "settled st \<longleftrightarrow> pack_loaded st \<or> pack_failed st"

text \<open>What an accepted reload leaves behind: packs under trusted prefixes, or no pack and the failure flag.\<close>

definition load_outcome :: "world \<Rightarrow> rc \<Rightarrow> 'f pack_host \<Rightarrow> bool" where
  "load_outcome w r st \<longleftrightarrow>
     r = OK \<and> packs st \<noteq> [] \<and> pack_loaded st
       \<and> (env_flag_on (w_env w) ''PHRONESIS_DEV_PACK'' \<or> (\<forall>p \<in> set (packs st). pack_under_trusted_prefix (w_env w) (Some (pack_path p))))
     \<or> r = ERR_IO \<and> packs st = [] \<and> pack_failed st"

lemma step_settled:
  assumes stp: "server_step vm cd (s, st, w) (s', st', w')" and ok: "sup_ok s" "host_ok st" and se: "settled st"
  shows "settled st' \<and> (packs st' = packs st
    \<or> s' = s \<and> (\<exists>path r. phronesis_shell_pack_reload vm path w st = (r, w', st') \<and> load_outcome w r st'))"
  using stp [unfolded server_step_simp]
proof
  assume "serve vm cd (s, st, w) (s', st', w')"
  from serve_effect [OF this ok] show ?thesis using se by (auto simp: law_kept_def settled_def)
next
  assume r: "reload vm cd (s, st, w) (s', st', w')"
  consider "s' = s" "st' = st" | path r where "s' = s" "phronesis_shell_pack_reload vm path w st = (r, w', st')"
    using reload_is_load [OF r] by blast
  then show ?thesis
  proof cases
    case 2
    note e = reload_effect [OF ok(2) 2(2)]
    then consider "same_law st st'" | "load_outcome w r st'" "settled st'" by (auto simp: load_outcome_def settled_def)
    then show ?thesis using 2 se by cases (auto simp: same_law_def settled_def)
  qed (use se in simp)
qed

lemma first_change:
  assumes "(server_step vm cd)\<^sup>*\<^sup>* (s, st, w) (s', st', w')"
  shows "sup_ok s \<Longrightarrow> host_ok st \<Longrightarrow> settled st \<Longrightarrow> packs st' \<noteq> packs st \<Longrightarrow>
    \<exists>s1 st1 w1 path r st2 w2. (server_step vm cd)\<^sup>*\<^sup>* (s, st, w) (s1, st1, w1) \<and> packs st1 = packs st
      \<and> phronesis_shell_pack_reload vm path w1 st1 = (r, w2, st2) \<and> load_outcome w1 r st2
      \<and> (server_step vm cd)\<^sup>*\<^sup>* (s1, st2, w2) (s', st', w')"
  using assms
proof (induction rule: converse_rtranclp_induct3)
  case (step s st w sa sta wa)
  note ok = server_step_ok [OF step(1,4,5)] and se = step_settled [OF step(1,4-6)]
  show ?case
  proof (cases "packs sta = packs st")
    case True
    then obtain s1 st1 w1 path r st2 w2 where x: "(server_step vm cd)\<^sup>*\<^sup>* (sa, sta, wa) (s1, st1, w1)" "packs st1 = packs st"
      "phronesis_shell_pack_reload vm path w1 st1 = (r, w2, st2)" "load_outcome w1 r st2"
      "(server_step vm cd)\<^sup>*\<^sup>* (s1, st2, w2) (s', st', w')"
      using step.IH step.prems ok se by metis
    from converse_rtranclp_into_rtranclp [OF step(1) x(1)] show ?thesis using x(2-5) by blast
  next
    case False
    then show ?thesis using se step(2) by blast
  qed
qed simp

section \<open>Properties\<close>

text \<open>C13: The two states keep their types for the whole life of a policy host. From a successful open and an
  untouched pack host on, after any sequence of requests with any bytes, of supervisor calls, reloads and
  interference of the operating system, the slot table is well formed and the pack host too (at most sixteen
  packs, each with an entry and a bounded path; some pack when the loaded flag is set, none after a
  failure); the four directories are those of the open; and a single step touches the slot of one agent at most.\<close>

theorem server_invariant:
  assumes op: "phronesis_supervisor_open mem sd rd w0 = (Inr s0, w1)"
    and reach: "(server_step vm cd)\<^sup>*\<^sup>* (s0, initial_host, w1) (s, st, w)"
  shows "sup_ok s \<and> host_ok st \<and> agents_dir s = agents_dir s0 \<and> action_log s = action_log s0
    \<and> runtime_dir s = runtime_dir s0 \<and> state_dir s = state_dir s0
    \<and> (\<forall>s' st' w'. server_step vm cd (s, st, w) (s', st', w') \<longrightarrow> (\<exists>k. only_agent k s s'))"
proof -
  note ok = server_run_ok [OF reach open_sup_ok(1) [OF op] host_ok_initial]
  then show ?thesis using server_step_ok [of vm cd s st w] by blast
qed

text \<open>The demonstration supervisor, after an audio check that loads nothing and a reload.\<close>

lemma server_invariant_witness:
  "let r = phronesis_shell_pack_reload demo_vm (Some ''/opt/law'') law_world initial_host
   in packs (snd (snd r)) \<noteq> [] \<and> host_ok (snd (snd r))"
proof -
  define r where "r = phronesis_shell_pack_reload demo_vm (Some ''/opt/law'') law_world initial_host"
  have r: "phronesis_shell_pack_reload demo_vm (Some ''/opt/law'') law_world initial_host = (fst r, fst (snd r), snd (snd r))"
    by (simp add: r_def)
  have 1: "server_step demo_vm demo_codec (demo_sup, initial_host, snd demo_open) (demo_sup, initial_host, law_world)"
    by (intro step_serve serve_local step_host)
  have 2: "server_step demo_vm demo_codec (demo_sup, initial_host, law_world) (demo_sup, snd (snd r), fst (snd r))"
    by (rule step_reload, rule reload_path [OF r])
  have "(server_step demo_vm demo_codec)\<^sup>*\<^sup>* (demo_sup, initial_host, snd demo_open) (demo_sup, snd (snd r), fst (snd r))"
    by (rule rtranclp.rtrancl_into_rtrancl [OF r_into_rtranclp [of "server_step demo_vm demo_codec", OF 1] 2])
  from server_invariant [OF demo_open_ok [unfolded demo_open_def] this [unfolded demo_open_def]] have "host_ok (snd (snd r))" by blast
  moreover have "map pack_path (packs (snd (snd r))) = [''/opt/law/a.janet'']" unfolding r_def by code_simp
  ultimately show ?thesis unfolding Let_def r_def [symmetric] by auto
qed

text \<open>C14: The law changes only by an accepted reload. Let packs be loaded, or have failed to load. If after any run
  of requests, supervisor calls, reloads and host interference the packs are others, then somewhere in the run a
  reload found the packs as they were and returned OK with packs, each under a trusted prefix unless
  the developer flag was set, or returned an I/O error and left none, with the failure flag. No check, admission
  or status request and no change of the environment or of the files can do it.\<close>

theorem law_changes_by_reload:
  assumes run: "(server_step vm cd)\<^sup>*\<^sup>* (s, st, w) (s', st', w')" and ok: "sup_ok s" "host_ok st"
    and se: "pack_loaded st \<or> pack_failed st" and ne: "packs st' \<noteq> packs st"
  shows "\<exists>s1 st1 w1 path r st2 w2. (server_step vm cd)\<^sup>*\<^sup>* (s, st, w) (s1, st1, w1) \<and> packs st1 = packs st
    \<and> phronesis_shell_pack_reload vm path w1 st1 = (r, w2, st2)
    \<and> (r = OK \<and> packs st2 \<noteq> [] \<and> pack_loaded st2
         \<and> (env_flag_on (w_env w1) ''PHRONESIS_DEV_PACK'' \<or> (\<forall>p \<in> set (packs st2). pack_under_trusted_prefix (w_env w1) (Some (pack_path p))))
       \<or> r = ERR_IO \<and> packs st2 = [] \<and> pack_failed st2)
    \<and> (server_step vm cd)\<^sup>*\<^sup>* (s1, st2, w2) (s', st', w')"
  using first_change [OF run ok] se ne unfolding settled_def load_outcome_def by blast

text \<open>A pack host that failed comes back by a reload.\<close>

lemma law_changes_by_reload_witness:
  "let h = load_failed initial_host; r = phronesis_shell_pack_reload demo_vm (Some ''/opt/law'') law_world h
   in packs (snd (snd r)) \<noteq> packs h
     \<and> (\<exists>s1 st1 w1 path q. (server_step demo_vm demo_codec)\<^sup>*\<^sup>* (demo_sup, h, law_world) (s1, st1, w1)
          \<and> fst (phronesis_shell_pack_reload demo_vm path w1 st1) = q \<and> q \<in> {OK, ERR_IO})"
proof -
  define h :: "string pack_host" where "h = load_failed initial_host"
  define r where "r = phronesis_shell_pack_reload demo_vm (Some ''/opt/law'') law_world h"
  have r: "phronesis_shell_pack_reload demo_vm (Some ''/opt/law'') law_world h = (fst r, fst (snd r), snd (snd r))"
    by (simp add: r_def)
  have ok: "sup_ok demo_sup" using open_sup_ok(1) [OF demo_open_ok [unfolded demo_open_def]] .
  have run: "(server_step demo_vm demo_codec)\<^sup>*\<^sup>* (demo_sup, h, law_world) (demo_sup, snd (snd r), fst (snd r))"
    by (rule r_into_rtranclp, rule step_reload, rule reload_path [OF r])
  have "map pack_path (packs (snd (snd r))) = [''/opt/law/a.janet'']" unfolding r_def h_def by code_simp
  then have ne: "packs (snd (snd r)) \<noteq> packs h" by (auto simp: h_def load_failed_def unload_packs_def)
  have h: "host_ok h" "pack_loaded h \<or> pack_failed h" unfolding h_def by (rule host_ok_failed, simp add: load_failed_def)
  from law_changes_by_reload [OF run ok h ne] ne show ?thesis unfolding Let_def h_def [symmetric] r_def [symmetric]
    by (metis fst_conv insert_iff)
qed

end
