(* ===== verification/Verdicts.thy ===== *)
theory Verdicts
  imports Capnp_Api
begin

text \<open>
  What two entry points of \<open>capnp_api.c\<close> tell their caller: when \<open>phronesis_check_audio\<close> allows, exactly, and for whom;
  and what \<open>phronesis_agent_status\<close> reports, down to the process table.
\<close>

section \<open>The audio verdict\<close>

text \<open>When every pack with the entry allows, so does their composition.\<close>

lemma compose_spec_allow:
  assumes "rs \<noteq> []" "\<forall>x \<in> set rs. \<exists>b. x = Inr (1, b)"
  shows "\<exists>b. compose_spec rs = Answer b \<and> Inr (1, b) \<in> set rs"
proof -
  have "find decisive rs = None" using assms(2) by (intro find_NoneI) auto
  moreover have "first_max answer_rank rs = Some (hd rs)"
  proof -
    obtain x xs where rs: "rs = x # xs" using assms(1) by (cases rs) auto
    have "answer_rank y = decision_rank 1" if "y \<in> set rs" for y using assms(2) that by fastforce
    then show ?thesis by (simp add: rs first_max_def)
  qed
  moreover have "hd rs \<in> set rs" using assms(1) by simp
  ultimately show ?thesis using assms(2) by (auto simp: compose_spec_def)
qed

lemma compose_allow_iff:
  assumes cd: "decision_codec cd" and c: "compose_pack_entry vm cd w sh inp st = (out, st')" and d: "says cd out d"
  shows "pd_decision d = 1 \<longleftrightarrow> fst (load_pack_once vm w st) \<and> packs_allow vm cd (if sh then shell_fn else audio_fn) inp st'"
proof
  assume "pd_decision d = 1"
  moreover obtain d' where "says cd out d'" "pd_decision d' \<noteq> 0 \<longrightarrow> fst (load_pack_once vm w st)"
    using pack_host_answers [OF cd c] by blast
  ultimately show "fst (load_pack_once vm w st) \<and> packs_allow vm cd (if sh then shell_fn else audio_fn) inp st'"
    using compose_allow [OF cd c d] says_fun [OF _ d] by auto
next
  let ?fs = "List.map_filter (if sh then shell_fn else audio_fn) (packs st')"
  assume a: "fst (load_pack_once vm w st) \<and> packs_allow vm cd (if sh then shell_fn else audio_fn) inp st'"
  then have ld: "load_pack_once vm w st = (True, st')"
    using c by (cases "load_pack_once vm w st") (auto simp: compose_pack_entry_def)
  obtain b where b: "compose_spec (map (pack_answer vm cd inp) ?fs) = Answer b" "Inr (1, b) \<in> pack_answer vm cd inp ` set ?fs"
    using compose_spec_allow [of "map (pack_answer vm cd inp) ?fs"] a unfolding packs_allow_def by auto
  have "out = Some b" using c ld b(1) by (simp add: compose_pack_entry_def compose_loop_start)
  moreover obtain m where "says cd (Some b) m" "pd_decision m = 1" using b(2) pack_answer_says by (metis imageE)
  ultimately show "pd_decision d = 1" using says_fun [OF d] by auto
qed

lemma audio_agent:
  assumes m: "opened cd inp = Some m" and l: "phronesis_policy_deny_all (w_env w)"
  shows "phronesis_check_audio vm cd inp w st = (emit_code cd DENY DENY_ALL (read_agent (au_agentId (read_AudioCheck cd m))), st)"
  using m l by (simp add: phronesis_check_audio_def deny_if_all_def Let_def)

section \<open>A running agent\<close>

text \<open>A process with this pid exists, and none of that pid is an ended child that has not been waited for.\<close>

definition process_present :: "pid_t \<Rightarrow> world \<Rightarrow> bool" where
  "process_present pid w \<longleftrightarrow> list_ex (\<lambda>p. p_pid p = pid) (w_procs w) \<and> \<not> list_ex (\<lambda>p. p_pid p = pid \<and> p_child p \<and> p_stat p \<noteq> Alive) (w_procs w)"

lemma reap_slot_present:
  assumes rp: "reap_slot a w = (a', w')" and run: "slot_state a' = AGENT_RUNNING" "0 < slot_pid a'"
  shows "process_present (slot_pid a') w"
proof -
  have a: "a' = a" using reap_slot_running [OF rp run(1)] .
  then have ra: "slot_state a = AGENT_RUNNING" "0 < slot_pid a" using run by simp_all
  obtain r w1 where r: "waitpid (slot_pid a) w = (r, w1)" by fastforce
  have k: "kill0 w (slot_pid a) \<noteq> Some ESRCH"
  proof
    assume "kill0 w (slot_pid a) = Some ESRCH"
    then have "slot_state a' = AGENT_STOPPED" using rp r ra by (auto simp: reap_slot_def)
    then show False using run(1) by simp
  qed
  then have ex: "list_ex (\<lambda>p. p_pid p = slot_pid a) (w_procs w)"
    using run a by (auto simp: kill0_def Let_def names_proc_def list_ex_iff filter_empty_conv split: if_splits)
  have "find (reapable (slot_pid a)) (w_procs w) = None"
  proof (rule ccontr)
    assume "find (reapable (slot_pid a)) (w_procs w) \<noteq> None"
    then obtain p where p: "find (reapable (slot_pid a)) (w_procs w) = Some p" by blast
    then have "reapable (slot_pid a) p" by (auto simp: find_Some_iff)
    then have "p_pid p = slot_pid a" using run a by (simp add: reapable_def names_proc_def)
    then have "slot_state a' = AGENT_STOPPED" using rp p k ra by (auto simp: reap_slot_def waitpid_def)
    then show False using run(1) by simp
  qed
  then have "\<forall>p \<in> set (w_procs w). \<not> reapable (slot_pid a) p" by (simp add: find_None_iff)
  then show ?thesis using ex run a by (auto simp: process_present_def list_ex_iff reapable_def names_proc_def)
qed

text \<open>What a status query does, for a known and for an unknown agent.\<close>

lemma status_reports:
  assumes ok: "sup_ok s" and st: "phronesis_supervisor_status (Some s) (Some k) w = (r, so', w')"
  shows "\<exists>s'. so' = Some s' \<and> only_agent k s s'
    \<and> (case r of Inl e \<Rightarrow> view s k = None
       | Inr y \<Rightarrow> \<exists>x. view s' k = Some x \<and> y = status_of x \<and> (slot_state x = AGENT_RUNNING \<longrightarrow> slot_pid x \<le> 0 \<or> process_present (slot_pid x) w))"
proof (cases r)
  case (Inl e)
  have "view s k = None"
  proof (rule ccontr)
    assume "view s k \<noteq> None"
    then obtain b where b: "view s k = Some b" by blast
    have v: "valid_id (Some k)" using view_SomeD [OF ok b] by (auto simp: slot_ok_def)
    obtain i where ld: "load_agent s k w = (Inr i, s)" using load_hit [OF ok b] by blast
    obtain a w1 where rp: "reap_slot (agents s ! i) w = (a, w1)" by fastforce
    show False using status_found(1) [OF ok v ld rp] st Inl by simp
  qed
  then show ?thesis using status_effect [OF ok st] Inl by (auto simp: or_empty_def)
next
  case (Inr y)
  have v: "valid_id (Some k)" using st Inr by (auto simp: phronesis_supervisor_status_def split: if_splits)
  obtain q s1 where ld: "load_agent s k w = (q, s1)" by fastforce
  obtain i where i: "q = Inr i" using st Inr v ld by (cases q) (auto simp: phronesis_supervisor_status_def)
  obtain a w1 where rp: "reap_slot (agents s1 ! i) w = (a, w1)" by fastforce
  note f = status_found [OF ok v ld [unfolded i] rp]
  have "slot_state a = AGENT_RUNNING \<longrightarrow> slot_pid a \<le> 0 \<or> process_present (slot_pid a) w" using reap_slot_present [OF rp] by (cases "0 < slot_pid a") auto
  then show ?thesis using f st Inr by auto
qed

section \<open>Properties\<close>

text \<open>C11: The verdict on audio is exact. An audio check allows if and only if its message opens, lockdown is off, and
  either the fixture flag \<open>PHRONESIS_AUDIO_ALLOW\<close> is set or packs are loaded and every pack that defines the audio
  entry, at least one, answers allow on this message; so the flag never beats lockdown. Every answer,
  denials and the answers of packs included, is stamped with the agent of the request, whatever agent
  the pack wrote.\<close>

theorem audio_allow_iff:
  assumes cd: "decision_codec cd" "wire_ordinals cd" and ca: "phronesis_check_audio vm cd inp w st = (out, st')" and d: "says cd out d"
  shows "(pd_decision d = 1 \<longleftrightarrow>
      opened cd inp \<noteq> None \<and> \<not> phronesis_policy_deny_all (w_env w)
      \<and> (phronesis_env_truthy (w_env w) ''PHRONESIS_AUDIO_ALLOW''
         \<or> fst (load_pack_once vm w st) \<and> packs_allow vm cd audio_fn inp st'))
    \<and> pd_agentId d = Some (case opened cd inp of None \<Rightarrow> null_agent | Some m \<Rightarrow> read_agent (au_agentId (read_AudioCheck cd m)))"
proof (cases "opened cd inp")
  case None
  have "says cd out (host_answer DENY INVALID_MESSAGE null_agent [])" using audio.bad_message [OF cd(1) None, of vm w st] ca by simp
  then show ?thesis using says_fun [OF d] None by (auto simp: host_answer_def)
next
  case (Some m)
  let ?a = "read_agent (au_agentId (read_AudioCheck cd m))"
  show ?thesis
  proof (cases "phronesis_policy_deny_all (w_env w)")
    case True
    have "says cd out (host_answer DENY DENY_ALL ?a [])"
      using audio_agent [OF Some True, of vm st] ca emit_code_says [OF cd(1) api_reasons(3), of DENY ?a] by simp
    then show ?thesis using says_fun [OF d] Some True by (auto simp: host_answer_def)
  next
    case nl: False
    show ?thesis
    proof (cases "phronesis_env_truthy (w_env w) ''PHRONESIS_AUDIO_ALLOW''")
      case True
      have "out = emit_code cd ALLOW AUDIO_FIXTURE_ALLOW ?a"
        using ca Some nl True by (simp add: phronesis_check_audio_def deny_if_all_def Let_def)
      then have "says cd out (host_answer ALLOW AUDIO_FIXTURE_ALLOW ?a [])" using emit_code_says [OF cd(1) api_reasons(11), of ALLOW ?a] by simp
      then show ?thesis using says_fun [OF d] Some nl True by (auto simp: host_answer_def)
    next
      case no: False
      obtain po st1 where ap: "compose_pack_entry vm cd w False inp st = (po, st1)" by fastforce
      obtain e where e: "says cd po e" using pack_host_answers [OF cd(1) ap] by blast
      have st: "st' = st1" and sy: "says cd out \<lparr>pd_decision = pd_decision e, pd_reason = ctext (Some []), pd_agentId = Some ?a, pd_code = pd_code e\<rparr>"
        using audio_opened [OF cd Some nl no ap e] ca by auto
      have "pd_decision d = pd_decision e" "pd_agentId d = Some ?a" using says_fun [OF d sy] by simp_all
      then show ?thesis using compose_allow_iff [OF cd(1) ap e] Some nl no st by simp
    qed
  qed
qed

text \<open>The fixture flag, with and without lockdown.\<close>

definition mic_world :: "bool \<Rightarrow> world" where
  "mic_world lock = fresh_world\<lparr>w_env := (\<lambda>n. if n = ''PHRONESIS_AUDIO_ALLOW'' \<or> lock \<and> n = ''PHRONESIS_DENY_ALL'' then Some ''1'' else None)\<rparr>"

lemma audio_allow_iff_witness:
  "\<exists>d e. says demo_codec (fst (phronesis_check_audio demo_vm demo_codec (enc_agent (Some wire_agent)) (mic_world False) initial_host)) d
     \<and> pd_decision d = 1 \<and> pd_agentId d = Some wire_agent
     \<and> says demo_codec (fst (phronesis_check_audio demo_vm demo_codec (enc_agent (Some wire_agent)) (mic_world True) initial_host)) e
     \<and> pd_decision e \<noteq> 1"
proof -
  let ?i = "enc_agent (Some wire_agent)"
  have op: "opened demo_codec ?i = Some ?i" by code_simp
  have ag: "read_agent (au_agentId (read_AudioCheck demo_codec ?i)) = wire_agent" by code_simp
  have en: "\<not> phronesis_policy_deny_all (w_env (mic_world False))" "phronesis_policy_deny_all (w_env (mic_world True))"
    "phronesis_env_truthy (w_env (mic_world False)) ''PHRONESIS_AUDIO_ALLOW''" by code_simp+
  obtain o1 s1 where 1: "phronesis_check_audio demo_vm demo_codec ?i (mic_world False) initial_host = (o1, s1)" by fastforce
  obtain o2 s2 where 2: "phronesis_check_audio demo_vm demo_codec ?i (mic_world True) initial_host = (o2, s2)" by fastforce
  obtain d e where d: "says demo_codec o1 d" "says demo_codec o2 e"
    using audio_answers [OF demo_decision_codec demo_wire_ordinals, of demo_vm ?i "mic_world False" initial_host]
      audio_answers [OF demo_decision_codec demo_wire_ordinals, of demo_vm ?i "mic_world True" initial_host] 1 2 by auto
  show ?thesis
    using audio_allow_iff [OF demo_decision_codec demo_wire_ordinals 1 d(1)] audio_allow_iff [OF demo_decision_codec demo_wire_ordinals 2 d(2)]
      op ag en 1 2 d by (intro exI [of _ d] exI [of _ e]) simp
qed

text \<open>The two messages, field by field, over what a slot that satisfies the invariant holds: nothing is cut.\<close>

lemma status_fields:
  assumes "slot_ok x"
  shows "status_msg a (status_of x) =
    \<lparr>as_id = Some a,
     as_state = (case slot_state x of AGENT_STOPPED \<Rightarrow> 0 | AGENT_RUNNING \<Rightarrow> 1 | AGENT_FAILED \<Rightarrow> 2 | AGENT_OTHER n \<Rightarrow> n),
     as_pid = slot_pid x, as_pgid = slot_pgid x, as_exitStatus = exit_status x, as_mode = 0,
     as_workspace = \<lparr>t_len = int (length (slot_workspace x)), t_str = Some (slot_workspace x)\<rparr>,
     as_hasCgroup = (cgroup_path x \<noteq> []), as_detail = \<lparr>t_len = 0, t_str = Some []\<rparr>\<rparr>"
  using assms
  by (simp add: Let_def status_msg_def status_of_def put_agent_def ctext_def slot_ok_def text_ok_def INT_MAX_def PHRONESIS_PATH_MAX_def
      snprintf_buf_def split: agent_state.split)

lemma missing_fields:
  "missing_msg a =
    \<lparr>as_id = Some a, as_state = 3, as_pid = 0, as_pgid = 0, as_exitStatus = 0, as_mode = 0,
     as_workspace = \<lparr>t_len = 0, t_str = None\<rparr>, as_hasCgroup = False,
     as_detail = \<lparr>t_len = 15, t_str = Some ''agent not found''\<rparr>\<rparr>"
  by (simp add: Let_def missing_msg_def put_agent_def ctext_def INT_MAX_def)

text \<open>C12: An agent status is truthful. The answer to \<open>agentStatus\<close> is the written form of one of two messages. Either it says
  \<open>missing\<close> (state 3) with the detail \<open>agent not found\<close>, every number zero and no workspace, and then no slot in memory belongs
  to the agent; or its state, pid, process group, exit status, workspace and cgroup flag are those of the slot that the
  supervisor now holds for the agent that was asked for, with an empty detail. The mode is not the slot's: it is \<open>develop\<close> in every
  answer. A state \<open>running\<close> with a pid is reported only when that process exists and is not an ended child still to be waited
  for. No other slot changes, and an input that cannot be opened asks for nobody.\<close>

theorem agent_status_truthful:
  assumes ok: "sup_ok s" and c: "phronesis_agent_status cd (Some s) inp w = (out, so', w')"
    and a: "a = (case opened cd inp of None \<Rightarrow> null_agent | Some m \<Rightarrow> read_agent (read_AgentQuery cd m))"
  shows "\<exists>s'. so' = Some s' \<and> only_agent (agent_key a) s s'
    \<and> (view s (agent_key a) = None \<and> out = Option.bind (build_AgentStatus cd
           \<lparr>as_id = Some a, as_state = 3, as_pid = 0, as_pgid = 0, as_exitStatus = 0, as_mode = 0,
            as_workspace = \<lparr>t_len = 0, t_str = None\<rparr>, as_hasCgroup = False,
            as_detail = \<lparr>t_len = 15, t_str = Some ''agent not found''\<rparr>\<rparr>) (write_msg cd)
       \<or> (\<exists>x. view s' (agent_key a) = Some x \<and> out = Option.bind (build_AgentStatus cd
             \<lparr>as_id = Some a,
              as_state = (case slot_state x of AGENT_STOPPED \<Rightarrow> 0 | AGENT_RUNNING \<Rightarrow> 1 | AGENT_FAILED \<Rightarrow> 2 | AGENT_OTHER n \<Rightarrow> n),
              as_pid = slot_pid x, as_pgid = slot_pgid x, as_exitStatus = exit_status x, as_mode = 0,
              as_workspace = \<lparr>t_len = int (length (slot_workspace x)), t_str = Some (slot_workspace x)\<rparr>,
              as_hasCgroup = (cgroup_path x \<noteq> []), as_detail = \<lparr>t_len = 0, t_str = Some []\<rparr>\<rparr>) (write_msg cd)
            \<and> (slot_state x = AGENT_RUNNING \<longrightarrow> slot_pid x \<le> 0 \<or> process_present (slot_pid x) w)))"
proof (cases "opened cd inp = None \<or> agent_key a = []")
  case True
  have "agent_key null_agent = []" by code_simp
  then have k: "agent_key a = []" using True a by auto
  have "view s [] = None"
  proof (rule ccontr)
    assume "view s [] \<noteq> None"
    then obtain b where b: "view s [] = Some b" by blast
    have "valid_id (Some [])" using view_SomeD [OF ok b] by (auto simp: slot_ok_def)
    moreover have "\<not> valid_id (Some [])" by code_simp
    ultimately show False by blast
  qed
  moreover have "out = emit_status cd (missing_msg a)" "so' = Some s"
    using c a k by (auto simp: phronesis_agent_status_def Let_def split: option.splits)
  ultimately show ?thesis using only_agent_refl [OF ok] k missing_fields [of a] unfolding emit_status_def by auto
next
  case False
  then obtain m where m: "opened cd inp = Some m" "a = read_agent (read_AgentQuery cd m)" using a by auto
  obtain r so1 w1 where st: "phronesis_supervisor_status (Some s) (Some (agent_key a)) w = (r, so1, w1)" by (metis prod.collapse)
  have o: "out = emit_status cd (case r of Inl e \<Rightarrow> missing_msg a | Inr y \<Rightarrow> status_msg a y)" "so' = so1"
    using c m False st by (cases r; auto simp: phronesis_agent_status_def Let_def)+
  note rep = status_reports [OF ok st]
  show ?thesis
  proof (cases r)
    case (Inl e)
    then show ?thesis using rep o missing_fields [of a] unfolding emit_status_def by auto
  next
    case (Inr y)
    then obtain s' x where x: "so1 = Some s'" "only_agent (agent_key a) s s'" "view s' (agent_key a) = Some x" "y = status_of x"
      "slot_state x = AGENT_RUNNING \<longrightarrow> slot_pid x \<le> 0 \<or> process_present (slot_pid x) w" using rep by auto
    have "sup_ok s'" using x(2) by (simp add: only_agent_def)
    then have "slot_ok x" using view_SomeD [OF _ x(3)] by blast
    from status_fields [OF this, of a] show ?thesis using x o Inr unfolding emit_status_def by auto
  qed
qed

text \<open>An agent that runs as process 42 in group 42, in the workspace \<open>/w\<close> and the mode \<open>focus\<close>.\<close>

definition focused :: agent_slot where
  "focused = wired\<lparr>slot_pid := 42, slot_pgid := 42, slot_mode := ''focus''\<rparr>"

definition focused_sup :: supervisor where
  "focused_sup = demo_sup\<lparr>agents := focused # replicate 15 zero_slot\<rparr>"

definition focused_world :: world where
  "focused_world = fresh_world\<lparr>w_procs := [\<lparr>p_pid = 42, p_pgid = 42, p_child = True, p_perm = True, p_stat = Alive\<rparr>]\<rparr>"

lemma focused_sup_ok: "sup_ok focused_sup"
proof -
  have sl: "slot_ok focused" by code_simp
  have r: "slot_ref focused_sup k i \<longleftrightarrow> i = 0 \<and> k = ''00000000000000000000000000000001''" for k i
    by (cases i) (auto simp: slot_ref_def focused_sup_def focused_def wired_def seated_def zero_slot_def)
  show ?thesis using sl unfolding sup_ok_def r by (simp add: focused_sup_def PHRONESIS_MAX_AGENTS_def)
qed

lemma agent_status_truthful_witness:
  "fst (phronesis_agent_status demo_codec (Some focused_sup) (enc_agent (Some wire_agent)) focused_world) = Option.bind (build_AgentStatus demo_codec
     \<lparr>as_id = Some wire_agent, as_state = 1, as_pid = 42, as_pgid = 42, as_exitStatus = 0, as_mode = 0,
      as_workspace = \<lparr>t_len = 2, t_str = Some ''/w''\<rparr>, as_hasCgroup = False, as_detail = \<lparr>t_len = 0, t_str = Some []\<rparr>\<rparr>) (write_msg demo_codec)
   \<and> process_present 42 focused_world"
proof -
  let ?i = "enc_agent (Some wire_agent)"
  obtain out so' w' where c: "phronesis_agent_status demo_codec (Some focused_sup) ?i focused_world = (out, so', w')" by (metis prod.collapse)
  have a: "(case opened demo_codec ?i of None \<Rightarrow> null_agent | Some m \<Rightarrow> read_agent (read_AgentQuery demo_codec m)) = wire_agent" by code_simp
  have "view (the (fst (snd (phronesis_agent_status demo_codec (Some focused_sup) ?i focused_world)))) (agent_key wire_agent) = Some focused" by code_simp
  moreover have "view focused_sup (agent_key wire_agent) \<noteq> None" by code_simp
  ultimately show ?thesis using agent_status_truthful [OF focused_sup_ok c a [symmetric]] c
    by (auto simp: focused_def wired_def seated_def zero_slot_def)
qed

end
