(* ===== verification/Spec2Isabelle.thy ===== *)
theory Spec2Isabelle
  imports Bindings Capnp_Api Cli Image_Tables Log_Growth Restart Server Slot_Race Trace Traced Tools Verdicts
begin

text \<open>
  \<^bold>\<open>phronesis: the policy host of an agent seat.\<close>

  The program decides what an agent may do. A \<^emph>\<open>supervisor\<close> keeps a table of at most sixteen agents, their
  process groups and their workspaces, in memory and in slot files. A \<^emph>\<open>string bridge\<close> decides on paths and
  actions by lexical rules. A \<^emph>\<open>pack host\<close> loads policy packs, programs for an embedded Janet machine, and
  composes their answers on shell and audio requests. The \<^emph>\<open>wire interface\<close> reads Cap'n Proto requests and
  answers each with a decision; a command line program gives the string interface. Every refusal is a
  value, every answer is one of deny, allow and prompt, and whatever goes wrong is a denial.

  \<^bold>\<open>Theories and sources\<close> (file names are those under \<open>src/src\<close> unless a directory is given):

  \<^item> \<open>Prelude\<close>, \<open>Numbers\<close>, \<open>Lexical\<close>, \<open>Json\<close>: C strings as character lists, bounded printing
    (\<open>snprintf_buf\<close>), numbers printed and scanned, path components, a JSON string reader and the locale
    \<open>json_escaper\<close> for a table of escapes, interpreted for the action log and for the trace.
  \<^item> \<open>Codes\<close>: \<open>include/phronesis/supervisor.h\<close>, \<open>policy_reason.c\<close>, \<open>version.c\<close>.
  \<^item> \<open>Host\<close>: the operating system as a record \<open>world\<close> (environment, file tree, process table, faults, and
    the choices of the host), with one function per call that the sources use. A write or a close that fails leaves as much of
    the data in the file as \<open>w_cut\<close> says, from nothing to all of it.
  \<^item> \<open>Policy\<close>: \<open>policy.c\<close>. \<open>path_under_workspace\<close> decides the prefix order on components of clean paths;
    \<open>phronesis_policy_eval\<close> is the decision table; the allow, prompt and lockdown rows are exact.
  \<^item> \<open>Paths\<close>: \<open>paths.c\<close>. \<open>Action_Log\<close>: \<open>action_log.c\<close>. \<open>Cgroup\<close>: the Linux half of \<open>cgroup.c\<close>.
  \<^item> \<open>Slots\<close>, \<open>Supervisor\<close>: \<open>supervisor.c\<close>. The record \<open>supervisor\<close> is the C structure; \<open>sup_ok\<close> is its
    invariant, \<open>sup_step\<close> the step relation of its operations and of the host, \<open>view\<close> the map from agent ids
    to slots, \<open>only_agent\<close> the frame of one operation.
  \<^item> \<open>Beneath\<close>: \<open>beneath.c\<close>, opening a file under a directory descriptor.
  \<^item> \<open>Packs\<close>: \<open>policy_janet.c\<close> up to the reload: trusted prefixes, specs, libraries, images, loading. The
    static variables are the record \<open>pack_host\<close> with invariant \<open>host_ok\<close>; the Janet machine is the record \<open>vm\<close>.
  \<^item> \<open>Codec\<close>: the messages of \<open>schema/policy.capnp\<close> and the record \<open>codec\<close> for the message runtime.
  \<^item> \<open>Shell_View\<close>, \<open>Pack_Eval\<close>: the rest of \<open>policy_janet.c\<close>: the view of a command that packs see, and the
    composition of their answers with its specification \<open>compose_spec\<close>.
  \<^item> \<open>Capnp_Api\<close>: \<open>capnp_api.c\<close>. The locale \<open>guarded_entry\<close> is the contract of an entry point that opens its
    message and asks for lockdown first, \<open>admitting_entry\<close> adds the test that the agent runs; they are
    interpreted on the seat, model, path, risk and audio checks.
  \<^item> \<open>Verdicts\<close>: what \<open>phronesis_check_audio\<close> and \<open>phronesis_agent_status\<close> tell, exactly.
  \<^item> \<open>Bindings\<close>: \<open>crates/phronesis-sys/csrc/shell_encode.c\<close> and \<open>playground/wasm/embind_api.c\<close>, the C layers above the
    wire interface.
  \<^item> \<open>Trace\<close>: \<open>policy_trace.c\<close>, the ring of trace events, refined to a log, and its JSON export.
  \<^item> \<open>Cli\<close>: \<open>phronesis.c\<close> and \<open>pack_image_main.c\<close>.
  \<^item> \<open>Image_Tables\<close>: the tables of names that \<open>policy_janet.c\<close> gives to the marshalling of a pack image, as the
    record \<open>tables_api\<close> of the machine's calls.
  \<^item> \<open>Slot_Race\<close>: \<open>write_slot\<close> of \<open>supervisor.c\<close> call by call (\<open>writer_step\<close>), run by any number of processes at once
    as the step relation \<open>race\<close>; the writer of \<open>Slots\<close> is one run of it.
  \<^item> \<open>Log_Growth\<close>: the action log under every operation of a supervisor (\<open>seat_step\<close>).
  \<^item> \<open>Pack_Image\<close>, \<open>Restart\<close>, \<open>Server\<close>: compositions. A pack image from the writer to the loader; an agent from one
    process to the next, through its slot file; and the life of a whole policy host, as the step relations
    \<open>serve\<close> (every request and call), \<open>reload\<close> and their union \<open>server_step\<close> on the supervisor, the pack host and the system.
  \<^item> \<open>Traced\<close>: the build with \<open>PHRONESIS_TRACE\<close>. Each function of \<open>policy.c\<close>, \<open>policy_janet.c\<close> and \<open>capnp_api.c\<close> that
    traces has beside its model a function \<open>..._events\<close> that lists its trace calls; \<open>pd_check_shell_trace\<close> and its
    companions are what \<open>playground/wasm/embind_api.c\<close> does to the ring.
  \<^item> \<open>Tools\<close>: \<open>playground/scripts/export\_shell\_msg.c\<close> and \<open>examples/c/minimal.c\<close>.
  \<^item> This theory: what holds across the components, from the bytes of a shell request to the packs, and from
    a reload to the next request.

  \<^bold>\<open>What the theorems show.\<close> Safety of each verdict: an allow is traced back to the slot of the agent, the
  workspace, the packs and the absence of lockdown (here, \<open>Capnp_Api\<close>, \<open>Supervisor\<close>, \<open>Policy\<close>, \<open>Cli\<close>). Fail-closed
  composition and reload (\<open>Pack_Eval\<close>, \<open>Packs\<close>). Every entry point answers (\<open>Capnp_Api\<close>). The slot table stays
  well formed under any sequence of operations (\<open>Supervisor\<close>); start, bind, stop and the killing of a process
  tree do what they promise. The two states of a policy host
  keep their types under any interleaving of requests, calls, reloads and host interference, and the packs in force
  change only by an accepted reload (\<open>Server\<close>). A seat and its workspace survive the process (\<open>Restart\<close>). Slot
  files are replaced whole under every interleaving of writers that write in pieces, fail or die (\<open>Slot_Race\<close>). The
  action log is append-only; it holds whole records as long as writing to it works, and else beginnings of records too; and
  \<open>verdict_recorded\<close> tells exactly which verdicts are on record, and what of their text (\<open>Log_Growth\<close>). Round
  trips of the slot file, of the log, of the pack image and of exported fixtures; the trace that a viewer takes
  is that of its call and ends with the verdict (\<open>Traced\<close>); confinement of opened files, on the fallback walk, and of
  probes, by their text and up to dot-dot (\<open>probes_exact\<close>); exact sizes and limits. Theorems and lemmas state where the code departs from its documentation:
  \<open>verdict_recorded\<close> (an allow that leaves no record), \<open>runtime_below_tmp_accepted\<close>, \<open>action_log_last_long_record\<close>, \<open>verdict_cut\<close> (a record
  without its verdict), \<open>probe_follows_dotdot\<close>, \<open>agent_status_truthful\<close> (the mode of every status is develop), and the exact forms of
  \<open>path_under_workspace_spec\<close> (the workspace \<open>/\<close>) and \<open>slot_file_round_trip\<close> (a field that is a single dash).

  \<^bold>\<open>Loops and bounds.\<close> No function takes fuel. Loops are recursive functions with a measure: the doubling of a
  message buffer ends at 1 MiB, the wait of \<open>kill_tree\<close> has fifty turns as in the source, the reaping loop takes
  a process out of the table at every turn. Sizes that the code computes in \<open>size_t\<close> are 64-bit words, agent ids and
  hashes too; counters that cannot reach their limits are natural numbers.

  \<^bold>\<open>Parameters.\<close> The Janet machine (\<open>vm\<close>) and the message runtime with the generated readers and writers
  (\<open>codec\<close>) are third-party or generated code: copies of both libraries are vendored under
  \<open>src/crates/phronesis-sys/vendor\<close> and are not modelled; the development states what the sources rely on. Theorems that need more of the runtime than its types assume
  \<open>decision_codec\<close> and its companions: a small message can be built, fits the first buffer and reads back as it was.
  What the packs record in the trace (\<open>recorder\<close>), \<open>mkdtemp\<close>, \<open>perror\<close> and the interpreter behind \<open>system\<close> are
  parameters too. \<open>demo_vm\<close> and \<open>demo_codec\<close> are concrete instances on which the witnesses are evaluated.

  \<^bold>\<open>Not modelled.\<close> The packs themselves (\<open>policy/*.janet\<close>); the machine and the runtime; failing allocations
  except that of the supervisor; writes of other processes to the action log between the pieces of one record; threads of one
  process that write one slot at once; the stubs of \<open>cgroup.c\<close> for
  other systems; the Rust code of the binding, the web site of the playground, tests and scripts.
\<close>

section \<open>From the wire to the packs\<close>

lemma check_shell_opened:
  assumes cs: "phronesis_check_shell vm cd so inp w st = (out, so', w', st')" and m: "opened cd inp = Some m"
    and l: "\<not> phronesis_policy_deny_all (w_env w)"
  shows "\<exists>ws. workspace_for so (read_agent (sh_agentId (read_ShellCheck cd m))) PHRONESIS_PATH_MAX w = (ws, so', w')
    \<and> shell_check_body vm cd (read_agent (sh_agentId (read_ShellCheck cd m))) ws (read_ShellCheck cd m) w' st = (out, st')"
  using cs l m unfolding open_in_Opened [symmetric] phronesis_check_shell_def
  by (simp add: deny_if_all_def Let_def split: prod.splits)

lemma check_shell_allow_opened:
  assumes cd: "decision_codec cd" and cs: "phronesis_check_shell vm cd so inp w st = (out, so', w', st')"
    and d: "says cd out d" "pd_decision d = 1"
  shows "\<not> phronesis_policy_deny_all (w_env w) \<and> (\<exists>m. opened cd inp = Some m)"
proof -
  have l: "\<not> phronesis_policy_deny_all (w_env w)"
    using check_shell_lockdown [OF cd, of w vm so inp st] cs d says_fun by fastforce
  have "open_in cd inp \<noteq> BodyTooLong"
  proof
    assume "open_in cd inp = BodyTooLong"
    then have "length inp > 524288" by (auto simp: open_in_def PHRONESIS_CAPNP_MAX_BODY_def split: if_splits option.splits)
    from check_shell_long [OF cd this, of vm so w st] cs d host_answer_allow show False by fastforce
  qed
  moreover have "open_in cd inp \<noteq> BadMessage"
  proof
    assume "open_in cd inp = BadMessage"
    then have "out = deny_msg cd null_agent INVALID_MESSAGE" using cs by (simp add: phronesis_check_shell_def)
    then show False using host_answer_allow [OF deny_msg_says [OF cd api_reasons(1)]] d by simp
  qed
  ultimately show ?thesis using l by (cases "open_in cd inp") (auto simp: open_in_Opened)
qed

lemma shell_allow:
  assumes cd: "decision_codec cd" and ok: "sup_ok s"
    and cs: "phronesis_check_shell vm cd (Some s) inp w st = (out, so', w', st')" and d: "says cd out d" "pd_decision d = 1"
  shows "\<not> phronesis_policy_deny_all (w_env w)
    \<and> (\<exists>m s' x. opened cd inp = Some m \<and> so' = Some s' \<and> only_agent (agent_key (read_agent (sh_agentId (read_ShellCheck cd m)))) s s'
        \<and> view s' (agent_key (read_agent (sh_agentId (read_ShellCheck cd m)))) = Some x
        \<and> path_under_workspace (Some (slot_workspace x)) (Some (cstr (text_bytes (sh_cwd (read_ShellCheck cd m)))))
        \<and> \<not> path_is_sensitive (Some (cstr (text_bytes (sh_cwd (read_ShellCheck cd m)))))
        \<and> (sh_argv (read_ShellCheck cd m) \<noteq> [] \<longrightarrow>
             (\<exists>msg. phronesis_build_shell_view cd w' (Some (slot_workspace x)) (Some (cstr (text_bytes (sh_cwd (read_ShellCheck cd m)))))
                      (sh_argv (read_ShellCheck cd m)) = ViewOk msg
                  \<and> packs_allow vm cd shell_fn msg st')))"
proof -
  obtain m where l: "\<not> phronesis_policy_deny_all (w_env w)" and m: "opened cd inp = Some m"
    using check_shell_allow_opened [OF cd cs d] by blast
  let ?a = "read_agent (sh_agentId (read_ShellCheck cd m))"
  obtain ws where ws: "workspace_for (Some s) ?a PHRONESIS_PATH_MAX w = (ws, so', w')"
    and sb: "shell_check_body vm cd ?a ws (read_ShellCheck cd m) w' st = (out, st')"
    using check_shell_opened [OF cs m l] by blast
  note b = shell_body_allow [OF cd sb d]
  then obtain q where q: "ws = Some q" by (cases ws) (auto simp: path_under_workspace_def)
  obtain s' x where "so' = Some s'" "only_agent (agent_key ?a) s s'" "view s' (agent_key ?a) = Some x" "q = slot_workspace x"
    using workspace_slot [OF ok ws] q by metis
  then show ?thesis using l m b q by blast
qed

text \<open>C1: A shell command is allowed only through every gate. When \<open>phronesis_check_shell\<close> answers with an allow,
  lockdown is off and the message opened; the working directory of the message lies inside the workspace of the
  slot of the agent it names and is no credential material; no other slot was touched; and unless the command
  has no words, the view of the command was built for that workspace, at least one pack defines the shell
  entry, and every pack that defines it answered allow on that view.\<close>

theorem shell_allow_end_to_end:
  assumes cd: "decision_codec cd" and ok: "sup_ok s"
    and cs: "phronesis_check_shell vm cd (Some s) inp w st = (out, so', w', st')" and d: "says cd out d" "pd_decision d = 1"
  shows "\<not> phronesis_policy_deny_all (w_env w)
    \<and> (\<exists>m s' x. opened cd inp = Some m \<and> so' = Some s' \<and> only_agent (agent_key (read_agent (sh_agentId (read_ShellCheck cd m)))) s s'
        \<and> view s' (agent_key (read_agent (sh_agentId (read_ShellCheck cd m)))) = Some x
        \<and> path_under_workspace (Some (slot_workspace x)) (Some (cstr (text_bytes (sh_cwd (read_ShellCheck cd m)))))
        \<and> \<not> path_is_sensitive (Some (cstr (text_bytes (sh_cwd (read_ShellCheck cd m)))))
        \<and> (sh_argv (read_ShellCheck cd m) \<noteq> [] \<longrightarrow>
             (\<exists>msg. phronesis_build_shell_view cd w' (Some (slot_workspace x)) (Some (cstr (text_bytes (sh_cwd (read_ShellCheck cd m)))))
                      (sh_argv (read_ShellCheck cd m)) = ViewOk msg
                  \<and> packs_allow vm cd shell_fn msg st')))"
  by (rule shell_allow [OF assms])

text \<open>An agent seated on \<open>/w\<close> asks to run \<open>ls x\<close> there, under one pack that allows.\<close>

definition ls_check :: bytes where
  "ls_check = enc_agent (Some wire_agent) @ ''/w'' @ [newline] @ ''ls'' @ [newline] @ ''x''"

definition one_pack :: "string pack_host" where
  "one_pack = initial_host\<lparr>pack_loaded := True, packs := [slot_saying 1 20]\<rparr>"

lemma ls_allowed:
  "fst (phronesis_check_shell demo_vm demo_codec (Some wired_sup) ls_check demo_world one_pack) = Some (pack_says 1 20 ''why'')"
  by code_simp

lemma shell_allow_end_to_end_witness:
  "\<exists>s' x msg. fst (snd (phronesis_check_shell demo_vm demo_codec (Some wired_sup) ls_check demo_world one_pack)) = Some s'
     \<and> view s' (agent_key wire_agent) = Some x \<and> path_under_workspace (Some (slot_workspace x)) (Some ''/w'')
     \<and> packs_allow demo_vm demo_codec shell_fn msg (snd (snd (snd (phronesis_check_shell demo_vm demo_codec (Some wired_sup) ls_check demo_world one_pack))))"
proof -
  let ?r = "phronesis_check_shell demo_vm demo_codec (Some wired_sup) ls_check demo_world one_pack"
  obtain out so' w' st' where r: "?r = (out, so', w', st')" by (metis prod.collapse)
  have out: "out = Some (pack_says 1 20 ''why'')" using ls_allowed r by simp
  have op: "opened demo_codec ls_check = Some ls_check" by code_simp
  have sc: "read_ShellCheck demo_codec ls_check =
      \<lparr>sh_agentId = Some wire_agent, sh_cwd = ctext (Some ''/w''), sh_argv = [ctext (Some ''ls''), ctext (Some ''x'')]\<rparr>" by code_simp
  have ra: "read_agent (Some wire_agent) = wire_agent" "cstr (text_bytes (ctext (Some ''/w''))) = ''/w''" by code_simp+
  have sy: "says demo_codec out (read_PolicyDecision demo_codec (pack_says 1 20 ''why''))"
    unfolding out says_def by (simp add: demo_codec_def pack_says_def)
  have al: "pd_decision (read_PolicyDecision demo_codec (pack_says 1 20 ''why'')) = 1" by code_simp
  show ?thesis using shell_allow_end_to_end [OF demo_decision_codec wired_sup_ok r sy al] r op sc ra by auto
qed

section \<open>From a reload to the next check\<close>

lemma failed_host_stays:
  assumes "pack_failed st"
  shows "snd (shell_check_body vm cd a ws sc w st) = st"
  using assms by (simp add: shell_check_body_def phronesis_shell_pack_def load_pack_once_def Let_def)

text \<open>C6: A reload never leaves a gap in the law. When the reload method answers with a denial, either the packs
  in force are the ones before the call, or none is loaded and then no shell command with words is allowed by
  any later check on that pack state, whatever the caller, the supervisor and the host are. When it
  answers with an allow, packs are loaded and each lies under a trusted prefix unless the developer flag is set.\<close>

theorem reload_then_check:
  assumes cd: "decision_codec cd" and ok: "host_ok st" and rl: "phronesis_reload_shell_pack vm cd inp w st = (out, w', st')"
  shows "\<exists>d. says cd out d
    \<and> (pd_decision d = 1 \<and> packs st' \<noteq> []
         \<and> (env_flag_on (w_env w) ''PHRONESIS_DEV_PACK'' \<or> (\<forall>p \<in> set (packs st'). pack_under_trusted_prefix (w_env w) (Some (pack_path p))))
       \<or> pd_decision d = 0 \<and> same_law st st'
       \<or> pd_decision d = 0 \<and> packs st' = []
         \<and> (\<forall>s inp2 w2 out2 so2 w3 st2 d2 m. sup_ok s \<longrightarrow> phronesis_check_shell vm cd (Some s) inp2 w2 st' = (out2, so2, w3, st2)
              \<longrightarrow> says cd out2 d2 \<longrightarrow> opened cd inp2 = Some m \<longrightarrow> sh_argv (read_ShellCheck cd m) \<noteq> [] \<longrightarrow> pd_decision d2 \<noteq> 1))"
proof -
  have never: "pd_decision d2 \<noteq> 1"
    if f: "packs st' = []" "pack_failed st'" and s: "sup_ok s"
      and cs: "phronesis_check_shell vm cd (Some s) inp2 w2 st' = (out2, so2, w3, st2)"
      and d2: "says cd out2 d2" and m: "opened cd inp2 = Some m" "sh_argv (read_ShellCheck cd m) \<noteq> []"
    for s inp2 w2 out2 so2 w3 st2 d2 m
  proof
    assume al: "pd_decision d2 = 1"
    have l: "\<not> phronesis_policy_deny_all (w_env w2)" using check_shell_allow_opened [OF cd cs d2 al] by blast
    obtain msg where "packs_allow vm cd shell_fn msg st2" using shell_allow [OF cd s cs d2 al] m by auto
    moreover have "st2 = st'" using check_shell_opened [OF cs m(1) l] failed_host_stays [OF f(2)] by (metis snd_conv)
    ultimately show False using f(1) by (simp add: packs_allow_def List.map_filter_def)
  qed
  obtain d where "says cd out d" and c: "pd_decision d = 1 \<and> \<not> phronesis_policy_deny_all (w_env w) \<and> packs st' \<noteq> [] \<and> pack_loaded st' \<and> \<not> pack_failed st'
         \<and> (env_flag_on (w_env w) ''PHRONESIS_DEV_PACK''
            \<or> (\<forall>p \<in> set (packs st'). pack_under_trusted_prefix (w_env w) (Some (pack_path p))))
       \<or> pd_decision d = 0 \<and> w' = w \<and> same_law st st'
       \<or> pd_decision d = 0 \<and> w' = w \<and> packs st' = [] \<and> pack_failed st'"
    using reload_method [OF cd ok rl] by blast
  then show ?thesis using never by (intro exI [of _ d]) blast
qed

lemma reload_then_check_witness:
  "\<exists>d. says demo_codec (fst (phronesis_reload_shell_pack demo_vm demo_codec ''/tmp/evil.janet'' demo_world one_pack)) d \<and> pd_decision d = 0
     \<and> same_law one_pack (snd (snd (phronesis_reload_shell_pack demo_vm demo_codec ''/tmp/evil.janet'' demo_world one_pack)))"
proof -
  let ?r = "phronesis_reload_shell_pack demo_vm demo_codec ''/tmp/evil.janet'' demo_world one_pack"
  obtain out w' st' where r: "?r = (out, w', st')" by (metis prod.collapse)
  have p: "packs (snd (snd ?r)) = [slot_saying 1 20]" by code_simp
  have u: "\<not> pack_under_trusted_prefix (w_env demo_world) (Some (pack_path (slot_saying 1 20)))" "\<not> env_flag_on (w_env demo_world) ''PHRONESIS_DEV_PACK''"
    by code_simp+
  have ok: "host_ok one_pack" by code_simp
  show ?thesis using reload_then_check [OF demo_decision_codec ok r] p u r by auto
qed

end
